(* ===== verification/Py_Prelude.thy ===== *)
theory Py_Prelude
  imports Complex_Main "HOL-Library.Char_ord" "HOL-Library.List_Lexorder"
    "HOL-Library.Code_Target_Nat"
begin

text \<open>
  Shared vocabulary of the development: Python values as the router sees them after JSON
  decoding, the result type of code that raises, and generic facts on optional bounds,
  association lists and rounding.

  A Python \<^verbatim>\<open>str\<close> is a \<^typ>\<open>string\<close>, a list of code points below 256; its UTF-8 length is
  computed by \<open>utf8_len\<close>. A Python \<^verbatim>\<open>int\<close> is an \<^typ>\<open>int\<close>. A finite \<^verbatim>\<open>float\<close> is the rational it
  denotes. A \<^verbatim>\<open>dict\<close> is an association list in insertion order with distinct keys; a missing
  key read with \<^verbatim>\<open>.get\<close> gives \<^verbatim>\<open>None\<close>, which is also JSON's \<^verbatim>\<open>null\<close>.
\<close>

section \<open>Collections of facts\<close>

named_theorems py_simps \<open>evaluation of Python primitives\<close>
named_theorems router_invs \<open>preservation of component invariants\<close>

section \<open>JSON values\<close>

datatype json =
    JNull
  | JBool bool
  | JInt int
  | JFloat rat
  | JStr string
  | JList "json list"
  | JDict "(string \<times> json) list"

type_synonym jdict = "(string \<times> json) list"

text \<open>\<^verbatim>\<open>d.get(k)\<close> and \<^verbatim>\<open>k in d\<close>.\<close>

definition dget :: "jdict \<Rightarrow> string \<Rightarrow> json" where
  "dget d k = (case map_of d k of None \<Rightarrow> JNull | Some v \<Rightarrow> v)"

definition dget_or :: "jdict \<Rightarrow> string \<Rightarrow> json \<Rightarrow> json" where
  "dget_or d k v0 = (case map_of d k of None \<Rightarrow> v0 | Some v \<Rightarrow> v)"

definition has_key :: "jdict \<Rightarrow> string \<Rightarrow> bool" where
  "has_key d k = (map_of d k \<noteq> None)"

definition keys :: "('k \<times> 'v) list \<Rightarrow> 'k list" where
  "keys d = map fst d"

text \<open>\<^verbatim>\<open>d[k] = v\<close>: an existing key keeps its place, a new one goes to the end.\<close>

fun dict_set :: "'k \<Rightarrow> 'v \<Rightarrow> ('k \<times> 'v) list \<Rightarrow> ('k \<times> 'v) list" where
  "dict_set k v [] = [(k, v)]"
| "dict_set k v ((k', v') # d) = (if k' = k then (k, v) # d else (k', v') # dict_set k v d)"

definition dict_del :: "'k \<Rightarrow> ('k \<times> 'v) list \<Rightarrow> ('k \<times> 'v) list" where
  "dict_del k d = filter (\<lambda>(k', _). k' \<noteq> k) d"

text \<open>\<^verbatim>\<open>d.update(e)\<close> in the order of \<^verbatim>\<open>e\<close>.\<close>

definition dict_update :: "('k \<times> 'v) list \<Rightarrow> ('k \<times> 'v) list \<Rightarrow> ('k \<times> 'v) list" where
  "dict_update d e = fold (\<lambda>(k, v) acc. dict_set k v acc) e d"

fun truthy :: "json \<Rightarrow> bool" where
  "truthy JNull = False"
| "truthy (JBool b) = b"
| "truthy (JInt i) = (i \<noteq> 0)"
| "truthy (JFloat q) = (q \<noteq> 0)"
| "truthy (JStr s) = (s \<noteq> [])"
| "truthy (JList xs) = (xs \<noteq> [])"
| "truthy (JDict d) = (d \<noteq> [])"

fun is_str :: "json \<Rightarrow> bool" where
  "is_str (JStr _) = True"
| "is_str _ = False"

fun is_list :: "json \<Rightarrow> bool" where
  "is_list (JList _) = True"
| "is_list _ = False"

fun is_dict :: "json \<Rightarrow> bool" where
  "is_dict (JDict _) = True"
| "is_dict _ = False"

fun is_bool :: "json \<Rightarrow> bool" where
  "is_bool (JBool _) = True"
| "is_bool _ = False"

fun is_int :: "json \<Rightarrow> bool" where
  "is_int (JInt _) = True"
| "is_int _ = False"

fun str_in :: "json \<Rightarrow> string list \<Rightarrow> bool" where
  "str_in (JStr s) xs = (s \<in> set xs)"
| "str_in _ xs = False"

text \<open>
  \<^verbatim>\<open>value == False\<close>: the Python numbers equal to \<^verbatim>\<open>False\<close> are \<^verbatim>\<open>False\<close>, \<^verbatim>\<open>0\<close> and \<^verbatim>\<open>0.0\<close>.
\<close>

fun equals_false :: "json \<Rightarrow> bool" where
  "equals_false (JBool b) = (\<not> b)"
| "equals_false (JInt i) = (i = 0)"
| "equals_false (JFloat q) = (q = 0)"
| "equals_false _ = False"

section \<open>Characters and strings\<close>

definition ord_of :: "char \<Rightarrow> nat" where
  "ord_of c = of_char c"

definition chars_between :: "nat \<Rightarrow> nat \<Rightarrow> string \<Rightarrow> bool" where
  "chars_between lo hi s = list_all (\<lambda>c. lo \<le> ord_of c \<and> ord_of c \<le> hi) s"

definition len_between :: "nat \<Rightarrow> nat \<Rightarrow> 'a list \<Rightarrow> bool" where
  "len_between lo hi s = (lo \<le> length s \<and> length s \<le> hi)"

definition utf8_len :: "string \<Rightarrow> nat" where
  "utf8_len s = sum_list (map (\<lambda>c. if ord_of c < 128 then 1 else 2) s)"

fun join :: "string \<Rightarrow> string list \<Rightarrow> string" where
  "join sep [] = []"
| "join sep [x] = x"
| "join sep (x # y # ys) = x @ sep @ join sep (y # ys)"

text \<open>Whitespace, words and case as \<^verbatim>\<open>str\<close> and \<^verbatim>\<open>re\<close> see them, for characters up to U+00FF.\<close>

definition is_space :: "char \<Rightarrow> bool" where
  "is_space c = (let n = ord_of c in 9 \<le> n \<and> n \<le> 13 \<or> 28 \<le> n \<and> n \<le> 32 \<or> n = 133 \<or> n = 160)"

definition is_word_char :: "char \<Rightarrow> bool" where
  "is_word_char c = (let n = ord_of c in
     48 \<le> n \<and> n \<le> 57 \<or> 65 \<le> n \<and> n \<le> 90 \<or> n = 95 \<or> 97 \<le> n \<and> n \<le> 122 \<or>
     n \<in> {170, 178, 179, 181, 185, 186, 188, 189, 190} \<or>
     192 \<le> n \<and> n \<noteq> 215 \<and> n \<noteq> 247)"

definition lower_char :: "char \<Rightarrow> char" where
  "lower_char c = (let n = ord_of c in
     if 65 \<le> n \<and> n \<le> 90 \<or> 192 \<le> n \<and> n \<le> 222 \<and> n \<noteq> 215 then char_of (n + 32) else c)"

definition lower :: "string \<Rightarrow> string" where
  "lower s = map lower_char s"

definition lstrip :: "string \<Rightarrow> string" where
  "lstrip s = dropWhile is_space s"

definition rstrip :: "string \<Rightarrow> string" where
  "rstrip s = rev (dropWhile is_space (rev s))"

definition starts_with :: "string \<Rightarrow> string \<Rightarrow> bool" where
  "starts_with p s = (take (length p) s = p)"

definition word_at :: "string \<Rightarrow> nat \<Rightarrow> bool" where
  "word_at s i = (i < length s \<and> is_word_char (s ! i))"

text \<open>\<^verbatim>\<open>\b\<close> at position \<open>i\<close>: the characters on its two sides differ in being word characters.\<close>

definition boundary :: "string \<Rightarrow> nat \<Rightarrow> bool" where
  "boundary s i = ((0 < i \<and> word_at s (i - 1)) \<noteq> word_at s i)"

definition strip :: "string \<Rightarrow> string" where
  "strip s = rstrip (lstrip s)"

definition removeprefix :: "string \<Rightarrow> string \<Rightarrow> string" where
  "removeprefix p s = (if starts_with p s then drop (length p) s else s)"

section \<open>Code that raises\<close>

text \<open>
  A computation that may raise is a sum: \<open>Inl\<close> holds the code of the exception and \<open>Inr\<close> the
  value. \<open>rbind\<close> sequences two of them, \<open>rmap_list\<close> runs one over a list up to the first error,
  as a Python loop or comprehension does.
\<close>

type_synonym 'a res = "string + 'a"

definition rbind :: "'e + 'a \<Rightarrow> ('a \<Rightarrow> 'e + 'b) \<Rightarrow> 'e + 'b" where
  "rbind r k = (case r of Inl e \<Rightarrow> Inl e | Inr x \<Rightarrow> k x)"

fun rmap_list :: "('a \<Rightarrow> 'e + 'b) \<Rightarrow> 'a list \<Rightarrow> 'e + 'b list" where
  "rmap_list f [] = Inr []"
| "rmap_list f (x # xs) = rbind (f x) (\<lambda>y. rbind (rmap_list f xs) (\<lambda>ys. Inr (y # ys)))"

definition guard_res :: "bool \<Rightarrow> 'e \<Rightarrow> 'e + 'a \<Rightarrow> 'e + 'a" where
  "guard_res ok e k = (if ok then k else Inl e)"

fun is_ok :: "'e + 'a \<Rightarrow> bool" where
  "is_ok (Inr _) = True"
| "is_ok (Inl _) = False"

lemma rbind_simps [simp, py_simps]:
  "rbind (Inl e) k = Inl e" "rbind (Inr x) k = k x"
  by (simp_all add: rbind_def)

lemma rbind_Inr_iff [simp]:
  "(rbind r k = Inr y) = (\<exists>x. r = Inr x \<and> k x = Inr y)"
  by (cases r) auto

lemma guard_res_Inr_iff [simp]:
  "(guard_res ok e k = Inr y) = (ok \<and> k = Inr y)"
  by (simp add: guard_res_def)

lemma if_Inl_eq_Inr [simp]:
  "((if b then Inl e else r) = Inr y) = (\<not> b \<and> r = Inr y)"
  "((if b then r else Inl e) = Inr y) = (b \<and> r = Inr y)"
  by simp_all

lemma rbind_cong [fundef_cong]:
  "r = r' \<Longrightarrow> (\<And>x. r' = Inr x \<Longrightarrow> k x = k' x) \<Longrightarrow> rbind r k = rbind r' k'"
  by (cases r') auto

lemma rmap_list_cong [fundef_cong]:
  "xs = ys \<Longrightarrow> (\<And>x. x \<in> set ys \<Longrightarrow> f x = g x) \<Longrightarrow> rmap_list f xs = rmap_list g ys"
  by (induction ys arbitrary: xs) auto

lemma rmap_list_Inr_iff:
  "(rmap_list f xs = Inr ys) = list_all2 (\<lambda>x y. f x = Inr y) xs ys"
  by (induction xs arbitrary: ys) (auto simp: list_all2_Cons1)

lemma rmap_list_length:
  "rmap_list f xs = Inr ys \<Longrightarrow> length ys = length xs"
  by (auto simp: rmap_list_Inr_iff dest: list_all2_lengthD)

lemma rmap_list_inverse:
  "(\<And>x. x \<in> set xs \<Longrightarrow> f (g x) = Inr x) \<Longrightarrow> rmap_list f (map g xs) = Inr xs"
  by (induction xs) auto

lemma is_ok_iff: "is_ok r = (\<exists>x. r = Inr x)"
  by (cases r) auto

lemma is_ok_simps [simp]:
  "is_ok (rmap_list f xs) = (\<forall>x \<in> set xs. is_ok (f x))"
  "is_ok (rbind r (\<lambda>_. k)) = (is_ok r \<and> is_ok k)"
  "is_ok (guard_res ok e r) = (ok \<and> is_ok r)"
  by (induction xs) (auto simp: is_ok_iff guard_res_def)

lemma is_ok_rbind_Inr [simp]: "is_ok (rbind r (\<lambda>x. Inr (f x))) = is_ok r"
  by (cases r) auto

lemma is_ok_rbind: "is_ok (rbind r k) = (\<exists>x. r = Inr x \<and> is_ok (k x))"
  by (auto simp: is_ok_iff)

lemma is_ok_rbind_unit: "is_ok (rbind (r :: 'e + unit) k) = (is_ok r \<and> is_ok (k ()))"
  by (cases r) auto

section \<open>Association lists\<close>

lemma map_of_dict_set [simp, py_simps]: "map_of (dict_set k v d) = (map_of d)(k \<mapsto> v)"
  by (induction k v d rule: dict_set.induct) auto

lemma keys_simps [simp]: "keys [] = []" "keys ((k, v) # d) = k # keys d"
  by (simp_all add: keys_def)

lemma set_keys_dict_set [simp]: "set (keys (dict_set k v d)) = insert k (set (keys d))"
  by (induction k v d rule: dict_set.induct) auto

lemma distinct_keys_dict_set [simp]: "distinct (keys d) \<Longrightarrow> distinct (keys (dict_set k v d))"
  by (induction k v d rule: dict_set.induct) auto

lemma length_dict_set: "length (dict_set k v d) \<le> Suc (length d)"
  by (induction k v d rule: dict_set.induct) auto

lemma map_of_dict_del [simp, py_simps]: "map_of (dict_del k d) = (map_of d)(k := None)"
  unfolding dict_del_def by (induction d) auto

lemma set_keys_dict_del [simp]: "set (keys (dict_del k d)) = set (keys d) - {k}"
  unfolding dict_del_def keys_def by (induction d) auto

lemma distinct_keys_dict_del [simp]: "distinct (keys d) \<Longrightarrow> distinct (keys (dict_del k d))"
  unfolding dict_del_def keys_def by (induction d) (auto simp: image_iff)

lemma map_of_dict_update [simp]: "map_of (dict_update d e) k =
    (case map_of (rev e) k of None \<Rightarrow> map_of d k | Some v \<Rightarrow> Some v)"
  unfolding dict_update_def
proof (induction e arbitrary: d)
  case Nil
  then show ?case by simp
next
  case (Cons p e)
  obtain a b where p: "p = (a, b)" by (cases p)
  show ?case
    by (simp add: p Cons.IH map_add_def split: option.splits)
qed

lemma has_key_iff: "has_key d k = (k \<in> set (keys d))"
  by (simp add: has_key_def keys_def map_of_eq_None_iff)

lemma map_of_NoneI: "k \<notin> set (keys d) \<Longrightarrow> map_of d k = None"
  by (simp add: keys_def map_of_eq_None_iff)

lemma map_of_in_keys: "map_of d k = Some v \<Longrightarrow> k \<in> set (keys d)"
  by (force simp: keys_def dest: map_of_SomeD)

section \<open>Optional bounds\<close>

text \<open>\<^verbatim>\<open>None\<close> is "no limit": the smaller of two optional bounds, and the order it is the infimum of.\<close>

fun opt_min :: "'a::linorder option \<Rightarrow> 'a option \<Rightarrow> 'a option" where
  "opt_min None c = c"
| "opt_min p None = p"
| "opt_min (Some p) (Some c) = Some (min p c)"

fun tighter :: "'a::linorder option \<Rightarrow> 'a option \<Rightarrow> bool" where
  "tighter a None = True"
| "tighter None (Some _) = False"
| "tighter (Some a) (Some b) = (a \<le> b)"

lemma tighter_refl [simp]: "tighter a a"
  by (cases a) auto

lemma tighter_trans [trans]: "tighter a b \<Longrightarrow> tighter b c \<Longrightarrow> tighter a c"
  by (cases a; cases b; cases c) auto

lemma opt_min_tighter [simp, intro]: "tighter (opt_min a b) a" "tighter (opt_min a b) b"
  by (cases a; cases b; simp)+

lemma opt_min_greatest: "tighter c a \<Longrightarrow> tighter c b \<Longrightarrow> tighter c (opt_min a b)"
  by (cases a; cases b; cases c) auto

lemma opt_min_None_right [simp]: "opt_min a None = a"
  by (cases a) auto

lemma opt_min_Some_iff: "opt_min a b = None \<longleftrightarrow> a = None \<and> b = None"
  by (cases a; cases b) auto

section \<open>Rounding\<close>

text \<open>
  \<open>round_half_even\<close> is \<^verbatim>\<open>ROUND_HALF_EVEN\<close> and Python's \<^verbatim>\<open>round\<close>: the nearest integer, ties to the
  even one.
\<close>

definition round_half_even :: "rat \<Rightarrow> int" where
  "round_half_even q =
     (let f = \<lfloor>q\<rfloor>; r = q - of_int f
      in if r < 1 / 2 then f else if r > 1 / 2 then f + 1 else if even f then f else f + 1)"

lemma round_half_even_int [simp]: "round_half_even (of_int i) = i"
  by (simp add: round_half_even_def)

lemma round_half_even_le_ceiling: "round_half_even q \<le> \<lceil>q\<rceil>"
proof (cases "q = of_int \<lfloor>q\<rfloor>")
  case True
  then show ?thesis by (metis ceiling_of_int order_refl round_half_even_int)
next
  case False
  have "of_int \<lfloor>q\<rfloor> \<le> q" by simp
  with False have "of_int \<lfloor>q\<rfloor> < q" by linarith
  then have "\<lfloor>q\<rfloor> + 1 \<le> \<lceil>q\<rceil>" by linarith
  then show ?thesis by (auto simp: round_half_even_def Let_def)
qed

lemma floor_le_round_half_even: "\<lfloor>q\<rfloor> \<le> round_half_even q"
  by (auto simp: round_half_even_def Let_def)

lemma round_half_even_mono: "p \<le> q \<Longrightarrow> round_half_even p \<le> round_half_even q"
proof (cases "\<lfloor>p\<rfloor> = \<lfloor>q\<rfloor>")
  case True
  assume "p \<le> q"
  then show ?thesis using True by (auto simp: round_half_even_def Let_def)
next
  case False
  assume le: "p \<le> q"
  then have "\<lfloor>p\<rfloor> \<le> \<lfloor>q\<rfloor>" by (rule floor_mono)
  with False have "\<lfloor>p\<rfloor> + 1 \<le> \<lfloor>q\<rfloor>" by linarith
  moreover have "round_half_even p \<le> \<lfloor>p\<rfloor> + 1" by (auto simp: round_half_even_def Let_def)
  ultimately show ?thesis using floor_le_round_half_even [of q] by linarith
qed

text \<open>
  \<open>fl64\<close> rounds a rational to the nearest IEEE double (53-bit significand, ties to even), the result
  of one correctly rounded float operation; below \<open>2\<^sup>-\<^sup>1\<^sup>0\<^sup>2\<^sup>2\<close> the significand shortens (subnormal
  results). A result of magnitude \<open>2\<^sup>1\<^sup>0\<^sup>2\<^sup>4\<close> or more stands for the infinity of its sign
  (\<open>finite_float\<close>).
\<close>

function bit_length :: "int \<Rightarrow> int" where
  "bit_length n = (if n \<le> 0 then 0 else 1 + bit_length (n div 2))"
  by pat_completeness auto
termination
  by (relation "measure nat") auto

declare bit_length.simps [simp del]

definition pow2 :: "int \<Rightarrow> rat" where
  "pow2 k = (if 0 \<le> k then 2 ^ nat k else 1 / 2 ^ nat (- k))"

definition fl64 :: "rat \<Rightarrow> rat" where
  "fl64 q = (if q = 0 then 0 else
     (let (n, d) = quotient_of \<bar>q\<bar>;
          k = bit_length n - bit_length d;
          e = (if pow2 k \<le> \<bar>q\<bar> then k else k - 1);
          s = pow2 (max (e - 52) (-1074))
      in sgn q * of_int (round_half_even (\<bar>q\<bar> / s)) * s))"

definition finite_float :: "rat \<Rightarrow> bool" where
  "finite_float q = (\<bar>q\<bar> < pow2 1024)"

definition pow10 :: "int \<Rightarrow> rat" where
  "pow10 k = (if 0 \<le> k then 10 ^ nat k else 1 / 10 ^ nat (- k))"

section \<open>Decimal text\<close>

definition digit_char :: "nat \<Rightarrow> char" where
  "digit_char d = char_of (48 + d)"

fun nat_digits :: "nat \<Rightarrow> string" where
  "nat_digits n = (if n < 10 then [digit_char n] else nat_digits (n div 10) @ [digit_char (n mod 10)])"

declare nat_digits.simps [simp del]

text \<open>\<^verbatim>\<open>str(i)\<close> of an integer.\<close>

definition int_text :: "int \<Rightarrow> string" where
  "int_text i = (if i < 0 then ''-'' @ nat_digits (nat (- i)) else nat_digits (nat i))"

definition is_digit :: "char \<Rightarrow> bool" where
  "is_digit c = (48 \<le> ord_of c \<and> ord_of c \<le> 57)"

definition is_hex64 :: "string \<Rightarrow> bool" where
  "is_hex64 s = (length s = 64 \<and> list_all (\<lambda>c. is_digit c \<or> 97 \<le> ord_of c \<and> ord_of c \<le> 102) s)"

definition is_upper :: "char \<Rightarrow> bool" where
  "is_upper c = (65 \<le> ord_of c \<and> ord_of c \<le> 90)"

definition is_lower :: "char \<Rightarrow> bool" where
  "is_lower c = (97 \<le> ord_of c \<and> ord_of c \<le> 122)"

definition is_alnum :: "char \<Rightarrow> bool" where
  "is_alnum c = (is_digit c \<or> is_upper c \<or> is_lower c)"

text \<open>\<^verbatim>\<open>s.split(c)\<close> for a separator of one character.\<close>

fun split_on :: "char \<Rightarrow> string \<Rightarrow> string list" where
  "split_on sep [] = [[]]"
| "split_on sep (c # cs) =
     (if c = sep then [] # split_on sep cs
      else case split_on sep cs of w # ws \<Rightarrow> (c # w) # ws | [] \<Rightarrow> [[c]])"

definition digits_value :: "string \<Rightarrow> nat" where
  "digits_value s = foldl (\<lambda>v c. 10 * v + (ord_of c - 48)) 0 s"

lemma nat_digits_nonempty [simp]: "nat_digits n \<noteq> []"
  by (subst nat_digits.simps) simp

lemma ord_digit_char [simp]: "d < 10 \<Longrightarrow> ord_of (digit_char d) = 48 + d"
  by (simp add: ord_of_def digit_char_def)

lemma digits_value_append1: "digits_value (s @ [c]) = 10 * digits_value s + (ord_of c - 48)"
  by (simp add: digits_value_def)

lemma digits_value_nat_digits [simp]: "digits_value (nat_digits n) = n"
proof (induction n rule: nat_digits.induct)
  case (1 n)
  show ?case
  proof (cases "n < 10")
    case True
    then show ?thesis by (simp add: nat_digits.simps [of n] digits_value_def)
  next
    case False
    with 1 show ?thesis by (simp add: nat_digits.simps [of n] digits_value_append1)
  qed
qed

lemma nat_digits_digits: "list_all is_digit (nat_digits n)"
proof (induction n rule: nat_digits.induct)
  case (1 n)
  then show ?case
    by (cases "n < 10") (simp_all add: nat_digits.simps [of n] is_digit_def)
qed

section \<open>Identifiers and timestamps\<close>

definition is_hex :: "char \<Rightarrow> bool" where
  "is_hex c = (is_digit c \<or> 97 \<le> ord_of c \<and> ord_of c \<le> 102 \<or> 65 \<le> ord_of c \<and> ord_of c \<le> 70)"

text \<open>
  The strings \<^verbatim>\<open>s\<close> with \<^verbatim>\<open>str(uuid.UUID(s)) == s.lower()\<close>: 8-4-4-4-12 hexadecimal digits.
\<close>

definition uuid_text :: "string \<Rightarrow> bool" where
  "uuid_text s = (map length (split_on (CHR ''-'') s) = [8, 4, 4, 4, 12] \<and>
     list_all (list_all is_hex) (split_on (CHR ''-'') s))"

definition leap_year :: "nat \<Rightarrow> bool" where
  "leap_year y = (4 dvd y \<and> (\<not> 100 dvd y \<or> 400 dvd y))"

definition month_days :: "nat \<Rightarrow> nat \<Rightarrow> nat" where
  "month_days y m = (if m = 2 then (if leap_year y then 29 else 28)
     else if m \<in> {4, 6, 9, 11} then 30 else 31)"

definition digit_field :: "nat \<Rightarrow> string \<Rightarrow> bool" where
  "digit_field n s = (length s = n \<and> list_all is_digit s)"

text \<open>
  The canonical UTC timestamps: the texts \<^verbatim>\<open>isoformat\<close> gives for an aware UTC time, that is a valid date
  and time, microseconds only when they are not zero, and the offset \<open>+00:00\<close>.
\<close>

definition utc_timestamp :: "string \<Rightarrow> bool" where
  "utc_timestamp s =
     (let y = take 4 s; mo = take 2 (drop 5 s); d = take 2 (drop 8 s); h = take 2 (drop 11 s);
          mi = take 2 (drop 14 s); se = take 2 (drop 17 s); rest = drop 19 s
      in digit_field 4 y \<and> digit_field 2 mo \<and> digit_field 2 d \<and> digit_field 2 h \<and>
         digit_field 2 mi \<and> digit_field 2 se \<and>
         s = y @ ''-'' @ mo @ ''-'' @ d @ ''T'' @ h @ '':'' @ mi @ '':'' @ se @ rest \<and>
         1 \<le> digits_value y \<and> 1 \<le> digits_value mo \<and> digits_value mo \<le> 12 \<and>
         1 \<le> digits_value d \<and> digits_value d \<le> month_days (digits_value y) (digits_value mo) \<and>
         digits_value h \<le> 23 \<and> digits_value mi \<le> 59 \<and> digits_value se \<le> 59 \<and>
         (rest = ''+00:00'' \<or>
          take 1 rest = ''.'' \<and> digit_field 6 (take 6 (drop 1 rest)) \<and>
          digits_value (take 6 (drop 1 rest)) \<noteq> 0 \<and> drop 7 rest = ''+00:00''))"

section \<open>Splitting and joining\<close>

lemma split_on_nonempty [simp]: "split_on sep s \<noteq> []"
  by (cases "(sep, s)" rule: split_on.cases) (auto split: list.splits)

lemma join_cons: "xs \<noteq> [] \<Longrightarrow> join sep (x # xs) = x @ sep @ join sep xs"
  by (cases xs) simp_all

lemma join_split_on [simp]: "join [sep] (split_on sep s) = s"
proof (induction s)
  case (Cons c s)
  obtain w ws where w: "split_on sep s = w # ws" by (cases "split_on sep s") auto
  show ?case using Cons w by (cases ws) auto
qed simp

end
