(* ===== verification/Request_Shape.thy ===== *)
theory Request_Shape
  imports Py_Prelude
begin

text \<open>
  Bounded local request characteristics (\<^verbatim>\<open>src/hormuz/work_learning.py\<close>): whether a request carries
  provider-owned state, and the fixed task hint, size bucket and flags read from its latest user
  input. The few regular expressions of the source are the word matchers below, over the same word
  and space classes Python uses for code points below 256.
\<close>

section \<open>Characters, words and leading words\<close>

text \<open>\<^verbatim>\<open>re.search(r"\b(?:w1|w2|...)\b", s)\<close>.\<close>

definition has_word :: "string list \<Rightarrow> string \<Rightarrow> bool" where
  "has_word ws s = list_ex (\<lambda>i. list_ex (\<lambda>w. starts_with w (drop i s) \<and> boundary s i
      \<and> boundary s (i + length w)) ws) [0..<Suc (length s)]"

text \<open>\<^verbatim>\<open>re.match(r"(?:please\s+)?(?:w1|w2|...)\b", s)\<close>.\<close>

definition skip_please :: "string \<Rightarrow> string" where
  "skip_please s =
     (let r = drop 6 s in
      if starts_with ''please'' s \<and> r \<noteq> [] \<and> is_space (hd r) then lstrip r else s)"

definition leads_with :: "string list \<Rightarrow> string \<Rightarrow> bool" where
  "leads_with ws s = (let r = skip_please s in
     list_ex (\<lambda>w. starts_with w r \<and> boundary r (length w)) ws)"

text \<open>\<^verbatim>\<open>xs[-n:]\<close> and \<^verbatim>\<open>s[:n]\<close> for positive \<open>n\<close>.\<close>

definition last_n :: "nat \<Rightarrow> 'a list \<Rightarrow> 'a list" where
  "last_n n xs = drop (length xs - n) xs"

section \<open>Provider state\<close>

definition state_keys :: "string list" where
  "state_keys = [''previous_response_id'', ''conversation'', ''session_id'', ''encrypted_content'']"

definition schema_keys :: "string list" where
  "schema_keys = [''tools'', ''tool_choice'', ''text'', ''response_format'', ''metadata'', ''client_metadata'']"

definition provider_kinds :: "string list" where
  "provider_kinds = [''function_call'', ''function_call_output'', ''tool_use'', ''tool_result'',
     ''computer_call'', ''computer_call_output'', ''custom_tool_call'', ''custom_tool_call_output'',
     ''tool_search_call'', ''tool_search_output'', ''reasoning'', ''item_reference'']"

definition dict_is_state :: "jdict \<Rightarrow> bool" where
  "dict_is_state d =
     (list_ex (\<lambda>k. truthy (dget d k)) state_keys
      \<or> list_ex (\<lambda>k. has_key d k \<and> \<not> is_str (dget d k)) [''role'', ''type'']
      \<or> str_in (dget d ''role'') [''assistant'', ''tool'']
      \<or> str_in (dget d ''type'') provider_kinds)"

function state_below :: "nat \<Rightarrow> json \<Rightarrow> bool" where
  "state_below depth v =
     (if depth > 40 then True
      else case v of
          JDict d \<Rightarrow> dict_is_state d \<or> list_ex (\<lambda>p. state_below (Suc depth) (snd p)) d
        | JList xs \<Rightarrow> list_ex (\<lambda>x. state_below (Suc depth) x) xs
        | _ \<Rightarrow> False)"
  by pat_completeness auto
termination
  by (relation "measure (\<lambda>(depth, v). 41 - depth)") auto

declare state_below.simps [simp del]

definition contains_provider_state :: "json \<Rightarrow> bool" where
  "contains_provider_state v = (case v of
      JDict d \<Rightarrow> state_below 0 (JDict (filter (\<lambda>(k, i). k \<notin> set schema_keys) d))
    | _ \<Rightarrow> state_below 0 v)"

section \<open>Characteristics\<close>

text \<open>The state of \<^verbatim>\<open>collect\<close>: the pieces in order and the observed size.\<close>

type_synonym pieces = "string list \<times> nat"

function collect :: "nat \<Rightarrow> json \<Rightarrow> pieces \<Rightarrow> pieces" where
  "collect depth item st =
     (if depth > 12 \<or> 32 \<le> length (fst st) then st
      else case item of
          JStr s \<Rightarrow> (fst st @ [take 8192 s], snd st + length s)
        | JList xs \<Rightarrow> fold (\<lambda>x acc. collect (Suc depth) x acc) (last_n 32 xs) st
        | JDict d \<Rightarrow>
            (if str_in (dget d ''type'') [''text'', ''input_text'']
             then collect (Suc depth) (dget d ''text'') st
             else if dget d ''role'' = JStr ''user'' then collect (Suc depth) (dget d ''content'') st
             else st)
        | _ \<Rightarrow> st)"
  by pat_completeness auto
termination
  by (relation "measure (\<lambda>(depth, item, st). 13 - depth)") auto

declare collect.simps [simp del]

definition is_user :: "json \<Rightarrow> bool" where
  "is_user v = (case v of JDict d \<Rightarrow> dget d ''role'' = JStr ''user'' | _ \<Rightarrow> False)"

definition latest_user_pieces :: "jdict \<Rightarrow> pieces" where
  "latest_user_pieces d =
     (case dget d ''messages'' of
        JList ms \<Rightarrow>
          (let users = filter is_user (last_n 64 ms)
           in if users = [] then ([], 0) else collect 0 (last users) ([], 0))
      | _ \<Rightarrow>
         (case dget d ''input'' of
            JList xs \<Rightarrow>
              (let users = filter is_user (last_n 64 xs)
               in collect 0 (if users = [] then JList xs else last users) ([], 0))
          | v \<Rightarrow> collect 0 v ([], 0)))"

definition task_hint_of :: "string \<Rightarrow> string" where
  "task_hint_of text =
     (let leading = take 512 text in
      if leads_with [''summarize'', ''summarise''] leading then ''summarization''
      else if leads_with [''translate''] leading \<and> has_word [''into'', ''to'', ''from''] leading
      then ''translation''
      else if leads_with [''extract'', ''parse''] leading
              \<and> has_word [''json'', ''fields'', ''table'', ''csv''] leading
      then ''structured_extraction''
      else if leads_with [''fix'', ''implement'', ''refactor'', ''debug'', ''add''] leading
              \<and> has_word [''code'', ''function'', ''class'', ''test'', ''tests'', ''bug'',
                   ''repository'', ''repo'', ''python'', ''typescript'', ''javascript''] text
      then ''code_change''
      else if leads_with [''review''] leading
              \<and> has_word [''code'', ''diff'', ''pull request'', ''function'', ''security'', ''bug''] text
      then ''code_review''
      else ''unknown'')"

record characteristics =
  ch_task_hint :: string
  ch_confidence :: string
  ch_input_size :: string
  ch_tools :: bool
  ch_structured_output :: bool
  ch_history :: bool

definition request_characteristics :: "jdict \<Rightarrow> characteristics" where
  "request_characteristics d =
     (let (pieces, total) = latest_user_pieces d;
          text = lower (lstrip (take 8192 (join '' '' pieces)));
          kind = task_hint_of text;
          messages = (case dget_or d ''messages'' (JList []) of JList ms \<Rightarrow> ms | _ \<Rightarrow> [])
      in \<lparr>ch_task_hint = kind,
          ch_confidence = (if kind = ''unknown'' then ''unknown'' else ''heuristic''),
          ch_input_size = (if total \<le> 1024 then ''small'' else if total \<le> 8192 then ''medium'' else ''large''),
          ch_tools = truthy (dget d ''tools''),
          ch_structured_output = (truthy (dget d ''response_format'') \<or>
             (case dget_or d ''text'' (JDict []) of JDict f \<Rightarrow> truthy (dget f ''format'') | _ \<Rightarrow> False)),
          ch_history = list_ex (\<lambda>m. case m of
               JDict md \<Rightarrow> str_in (dget md ''role'') [''assistant'', ''tool''] | _ \<Rightarrow> False) messages\<rparr>)"

section \<open>Bounds\<close>

lemma collect_bound:
  "length (fst st) \<le> 32 \<Longrightarrow> list_all (\<lambda>p. length p \<le> 8192) (fst st) \<Longrightarrow>
     length (fst (collect depth item st)) \<le> 32 \<and>
     list_all (\<lambda>p. length p \<le> 8192) (fst (collect depth item st))"
proof (induction depth item st rule: collect.induct)
  case (1 depth item st)
  show ?case
  proof (cases "depth > 12 \<or> 32 \<le> length (fst st)")
    case True
    with "1.prems" show ?thesis by (simp add: collect.simps [of depth])
  next
    case False
    let ?ok = "\<lambda>st :: pieces. length (fst st) \<le> 32 \<and> list_all (\<lambda>p. length p \<le> 8192) (fst st)"
    have fold_ok: "?ok (fold (\<lambda>x acc. collect (Suc depth) x acc) ys acc)"
      if "item = JList xs" "set ys \<subseteq> set (last_n 32 xs)" "?ok acc" for xs ys acc
      using that(2,3)
    proof (induction ys arbitrary: acc)
      case (Cons y ys)
      then have "?ok (collect (Suc depth) y acc)"
        using "1.IH"(1) [OF False that(1), of y acc] by simp
      with Cons show ?case by simp
    qed simp
    show ?thesis
    proof (cases item)
      case (JStr s)
      with False "1.prems" show ?thesis by (simp add: collect.simps [of depth])
    next
      case (JList xs)
      have "?ok (fold (\<lambda>x acc. collect (Suc depth) x acc) (last_n 32 xs) st)"
        by (rule fold_ok) (use JList "1.prems" in auto)
      with False JList show ?thesis by (simp add: collect.simps [of depth])
    next
      case (JDict d)
      with False "1.prems" "1.IH"(2,3) [OF False JDict] show ?thesis
        by (auto simp: collect.simps [of depth])
    qed (use False "1.prems" in \<open>auto simp: collect.simps [of depth]\<close>)
  qed
qed

section \<open>Properties\<close>

text \<open>\<open>nested n v w\<close>: the value \<open>w\<close> sits \<open>n\<close> containers deep inside \<open>v\<close>.\<close>

inductive nested :: "nat \<Rightarrow> json \<Rightarrow> json \<Rightarrow> bool" where
  here: "nested 0 v v"
| in_list: "x \<in> set xs \<Longrightarrow> nested n x w \<Longrightarrow> nested (Suc n) (JList xs) w"
| in_dict: "(k, x) \<in> set d \<Longrightarrow> nested n x w \<Longrightarrow> nested (Suc n) (JDict d) w"

inductive_cases nested_ListE: "nested n (JList xs) w"
inductive_cases nested_DictE: "nested n (JDict d) w"
inductive_simps nested_leaf [simp]:
  "nested n JNull w" "nested n (JBool b) w" "nested n (JInt i) w" "nested n (JFloat q) w"
  "nested n (JStr s) w"

definition state_witness :: "nat \<Rightarrow> json \<Rightarrow> bool" where
  "state_witness depth v \<longleftrightarrow> (\<exists>n w. nested n v w \<and>
     (40 < depth + n \<or> (\<exists>d. w = JDict d \<and> dict_is_state d)))"

lemma ex_nested_step:
  "(\<exists>n w. nested n (JList xs) w \<and> P n w) \<longleftrightarrow>
     P 0 (JList xs) \<or> (\<exists>x \<in> set xs. \<exists>n w. nested n x w \<and> P (Suc n) w)"
  "(\<exists>n w. nested n (JDict d) w \<and> P n w) \<longleftrightarrow>
     P 0 (JDict d) \<or> (\<exists>p \<in> set d. \<exists>n w. nested n (snd p) w \<and> P (Suc n) w)"
proof -
  show "(\<exists>n w. nested n (JList xs) w \<and> P n w) \<longleftrightarrow>
     P 0 (JList xs) \<or> (\<exists>x \<in> set xs. \<exists>n w. nested n x w \<and> P (Suc n) w)"
    by (rule iffI; elim exE conjE disjE bexE nested_ListE; blast intro: nested.intros)
  show "(\<exists>n w. nested n (JDict d) w \<and> P n w) \<longleftrightarrow>
     P 0 (JDict d) \<or> (\<exists>p \<in> set d. \<exists>n w. nested n (snd p) w \<and> P (Suc n) w)"
    by (rule iffI; elim exE conjE disjE bexE nested_DictE) (force intro: nested.intros)+
qed

lemma state_witness_here: "40 < depth \<Longrightarrow> state_witness depth v"
  unfolding state_witness_def by (intro exI [of _ 0] exI [of _ v]) (simp add: nested.here)

lemma state_witness_simps:
  assumes "\<not> 40 < depth"
  shows "state_witness depth (JList xs) \<longleftrightarrow> (\<exists>x \<in> set xs. state_witness (Suc depth) x)"
    and "state_witness depth (JDict d) \<longleftrightarrow>
       dict_is_state d \<or> (\<exists>p \<in> set d. state_witness (Suc depth) (snd p))"
  using assms by (simp_all add: state_witness_def ex_nested_step)

lemma state_below_iff: "state_below depth v = state_witness depth v"
proof (induction depth v rule: state_below.induct)
  case (1 depth v)
  show ?case
  proof (cases "40 < depth")
    case True
    then show ?thesis by (simp add: state_below.simps [of depth] state_witness_here)
  next
    case False
    show ?thesis
    proof (cases v)
      case (JList xs)
      with False "1.IH"(1) [OF False JList] show ?thesis
        by (simp add: state_below.simps [of depth] state_witness_simps [OF False] list_ex_iff)
    next
      case (JDict d)
      with False "1.IH"(2) [OF False JDict] show ?thesis
        by (simp add: state_below.simps [of depth] state_witness_simps [OF False] list_ex_iff)
    qed (use False in \<open>auto simp: state_below.simps [of depth] state_witness_def\<close>)
  qed
qed

text \<open>
  C8: A request counts as carrying provider state exactly when, outside its schema and metadata
  members, some object at any depth has a non-empty state reference, an assistant or tool role, a
  provider item type or an ill-typed role or type, or when its nesting passes the depth bound. Nothing
  nested can hide provider state from the check.
\<close>
theorem contains_provider_state_iff:
  "contains_provider_state (JDict d) \<longleftrightarrow>
     (\<exists>n w. nested n (JDict (filter (\<lambda>(k, i). k \<notin> set schema_keys) d)) w \<and>
        (40 < n \<or> (\<exists>e. w = JDict e \<and> dict_is_state e)))"
  by (simp add: contains_provider_state_def state_below_iff state_witness_def)

text \<open>
  Request characteristics are fixed labels: the task hint, confidence and size come from closed
  sets, the hint is unknown exactly when the confidence is, and at most 32 pieces of at most 8192
  characters of the input are ever inspected.
\<close>
theorem request_characteristics_bounded:
  "ch_task_hint (request_characteristics d) \<in> {''summarization'', ''translation'',
      ''structured_extraction'', ''code_change'', ''code_review'', ''unknown''} \<and>
   ch_input_size (request_characteristics d) \<in> {''small'', ''medium'', ''large''} \<and>
   (ch_task_hint (request_characteristics d) = ''unknown'' \<longleftrightarrow>
      ch_confidence (request_characteristics d) = ''unknown'') \<and>
   length (fst (latest_user_pieces d)) \<le> 32 \<and>
   list_all (\<lambda>p. length p \<le> 8192) (fst (latest_user_pieces d))"
proof -
  have start: "length (fst (collect 0 v ([], 0))) \<le> 32 \<and>
      list_all (\<lambda>p. length p \<le> 8192) (fst (collect 0 v ([], 0)))" for v
    by (rule collect_bound) simp_all
  have "length (fst (latest_user_pieces d)) \<le> 32 \<and>
      list_all (\<lambda>p. length p \<le> 8192) (fst (latest_user_pieces d))"
    unfolding latest_user_pieces_def Let_def using start by (auto split: json.split)
  moreover have "ch_task_hint (request_characteristics d) \<in> {''summarization'', ''translation'',
      ''structured_extraction'', ''code_change'', ''code_review'', ''unknown''}"
    by (simp add: request_characteristics_def Let_def task_hint_of_def split: prod.split)
  ultimately show ?thesis
    by (simp add: request_characteristics_def Let_def split: prod.split)
qed

lemma task_hint_examples:
  "task_hint_of ''please  fix the failing test'' = ''code_change''"
  "task_hint_of ''fixture for the code'' = ''unknown''"
  "task_hint_of ''translate this to french'' = ''translation''"
  by code_simp+

end
