(* ===== verification/Native_Content.thy ===== *)
theory Native_Content
  imports Py_Prelude
begin

text \<open>
  What a native Codex conversation may contain: text content and annotations
  (\<^verbatim>\<open>src/hormuz/native_codex_content.py\<close>), host-owned tool declarations
  (\<^verbatim>\<open>src/hormuz/native_codex_tools.py\<close>) and the continuation tags of its items
  (\<^verbatim>\<open>continuation_tags\<close> of \<^verbatim>\<open>src/hormuz/native_codex_state.py\<close>). Each check is a \<open>unit res\<close> whose error
  is the code the source raises.
\<close>

section \<open>Text content\<close>

definition annotation_fields :: "(string \<times> string list \<times> string list) list" where
  "annotation_fields =
     [(''url_citation'', [''url'', ''title''], [''start_index'', ''end_index'']),
      (''file_citation'', [''file_id'', ''filename''], [''index'']),
      (''container_file_citation'', [''container_id'', ''file_id'', ''filename''],
         [''start_index'', ''end_index'']),
      (''file_path'', [''file_id''], [''index''])]"

fun nonneg_int :: "json \<Rightarrow> bool" where
  "nonneg_int (JInt i) = (0 \<le> i)"
| "nonneg_int _ = False"

fun int_less :: "json \<Rightarrow> json \<Rightarrow> bool" where
  "int_less (JInt a) (JInt b) = (a < b)"
| "int_less _ _ = False"

definition annotation_ok :: "json \<Rightarrow> bool" where
  "annotation_ok a = (case a of
      JDict d \<Rightarrow>
        (case dget d ''type'' of
           JStr t \<Rightarrow>
             (case map_of annotation_fields t of
                None \<Rightarrow> False
              | Some (strings, indices) \<Rightarrow>
                  list_all (\<lambda>f. is_str (dget d f)) strings \<and>
                  list_all (\<lambda>f. nonneg_int (dget d f)) indices \<and>
                  \<not> (''end_index'' \<in> set indices
                     \<and> int_less (dget d ''end_index'') (dget d ''start_index'')))
         | _ \<Rightarrow> False)
    | _ \<Rightarrow> False)"

definition validate_annotations :: "json \<Rightarrow> unit res" where
  "validate_annotations v = (case v of
      JList xs \<Rightarrow> if list_all annotation_ok xs then Inr () else Inl ''native_annotation_invalid''
    | _ \<Rightarrow> Inl ''native_annotation_invalid'')"

definition subset_keys :: "jdict \<Rightarrow> string list \<Rightarrow> bool" where
  "subset_keys d fields = list_all (\<lambda>k. k \<in> set fields) (keys d)"

definition text_part :: "bool \<Rightarrow> json \<Rightarrow> unit res" where
  "text_part assistant p = (case p of
      JDict d \<Rightarrow>
        (case dget d ''type'' of
           JStr kind \<Rightarrow>
             (let finish = (\<lambda>fields field.
                    if \<not> subset_keys d fields \<or> \<not> is_str (dget d field)
                    then Inl ''native_content_invalid'' else Inr ())
              in if kind = ''input_text''
                 then let b = dget d ''prompt_cache_breakpoint'' in
                   if b \<noteq> JNull \<and> b \<noteq> JDict [(''mode'', JStr ''explicit'')]
                   then Inl ''native_content_invalid''
                   else finish [''type'', ''text'', ''prompt_cache_breakpoint''] ''text''
                 else if assistant \<and> kind = ''output_text''
                 then rbind (validate_annotations (dget d ''annotations'')) (\<lambda>_.
                   if dget d ''logprobs'' \<noteq> JNull \<and> \<not> is_list (dget d ''logprobs'')
                   then Inl ''native_content_invalid''
                   else finish [''type'', ''text'', ''annotations'', ''logprobs''] ''text'')
                 else if assistant \<and> kind = ''refusal''
                 then finish [''type'', ''refusal''] ''refusal''
                 else Inl ''native_content_unsupported'')
         | _ \<Rightarrow> Inl ''native_content_invalid'')
    | _ \<Rightarrow> Inl ''native_content_invalid'')"

definition validate_text_content :: "bool \<Rightarrow> json \<Rightarrow> unit res" where
  "validate_text_content assistant v = (case v of
      JStr s \<Rightarrow> Inr ()
    | JList xs \<Rightarrow> rbind (rmap_list (text_part assistant) xs) (\<lambda>_. Inr ())
    | _ \<Rightarrow> Inl ''native_content_invalid'')"

section \<open>Tools\<close>

definition named_tool :: "string list \<Rightarrow> json \<Rightarrow> string res" where
  "named_tool kinds v = (case v of
      JDict d \<Rightarrow>
        (case (dget d ''type'', dget d ''name'') of
           (JStr t, JStr n) \<Rightarrow>
             if t \<notin> set kinds \<or> \<not> len_between 1 256 n
                \<or> (dget d ''namespace'' \<noteq> JNull \<and> \<not> is_str (dget d ''namespace''))
             then Inl ''native_tool_unsupported'' else Inr t
         | _ \<Rightarrow> Inl ''native_tool_unsupported'')
    | _ \<Rightarrow> Inl ''native_tool_unsupported'')"

text \<open>Namespaces do not nest: the inner list is checked with functions and custom tools only.\<close>

definition flat_declarations :: "json \<Rightarrow> unit res" where
  "flat_declarations tools = (case tools of
      JList xs \<Rightarrow>
        if 256 < length xs then Inl ''native_tools_invalid''
        else rbind (rmap_list (named_tool [''function'', ''custom'']) xs) (\<lambda>_. Inr ())
    | _ \<Rightarrow> Inl ''native_tools_invalid'')"

definition tool_declaration :: "json \<Rightarrow> unit res" where
  "tool_declaration tool = rbind (named_tool [''function'', ''custom'', ''namespace''] tool) (\<lambda>t.
     if t = ''namespace''
     then (case tool of JDict d \<Rightarrow> flat_declarations (dget d ''tools'') | _ \<Rightarrow> Inr ())
     else Inr ())"

definition tool_declarations :: "json \<Rightarrow> unit res" where
  "tool_declarations tools = (case tools of
      JList xs \<Rightarrow>
        if 256 < length xs then Inl ''native_tools_invalid''
        else rbind (rmap_list tool_declaration xs) (\<lambda>_. Inr ())
    | _ \<Rightarrow> Inl ''native_tools_invalid'')"

definition tool_choice :: "json \<Rightarrow> unit res" where
  "tool_choice choice = (case choice of
      JNull \<Rightarrow> Inr ()
    | JStr s \<Rightarrow> if s \<in> {''auto'', ''none'', ''required''} then Inr ()
                else Inl ''native_tool_choice_unsupported''
    | JDict d \<Rightarrow>
        (case dget d ''type'' of
           JStr t \<Rightarrow>
             if t = ''allowed_tools''
             then (case dget d ''tools'' of
                 JList xs \<Rightarrow>
                   if \<not> str_in (dget d ''mode'') [''auto'', ''required''] \<or> 256 < length xs
                   then Inl ''native_tool_choice_invalid''
                   else rbind (rmap_list (named_tool [''function'', ''custom'']) xs) (\<lambda>_. Inr ())
               | _ \<Rightarrow> Inl ''native_tool_choice_invalid'')
             else rbind (named_tool [''function'', ''custom''] choice) (\<lambda>_. Inr ())
         | _ \<Rightarrow> Inl ''native_tool_choice_invalid'')
    | _ \<Rightarrow> Inl ''native_tool_choice_invalid'')"

definition validate_native_tools :: "jdict \<Rightarrow> unit res" where
  "validate_native_tools payload =
     rbind (tool_declarations (dget_or payload ''tools'' (JList []))) (\<lambda>_. tool_choice (dget payload ''tool_choice''))"

section \<open>Continuation tags\<close>

definition bounded_id :: "json \<Rightarrow> bool" where
  "bounded_id v = (case v of JStr s \<Rightarrow> len_between 1 256 s \<and> chars_between 33 126 s | _ \<Rightarrow> False)"

definition tool_execution :: "jdict \<Rightarrow> json list res" where
  "tool_execution item =
     (let namespace = dget item ''namespace''; caller = dget item ''caller''; async = dget item ''async'';
          bad = Inl ''native_tool_execution_invalid''
      in if namespace \<noteq> JNull \<and> \<not> is_str namespace \<or> async \<noteq> JNull \<and> \<not> is_bool async then bad
         else case caller of
             JNull \<Rightarrow> Inr [namespace, caller, async]
           | JDict c \<Rightarrow>
               (case dget c ''type'' of
                  JStr t \<Rightarrow>
                    if t = ''program''
                    then if set (keys c) \<noteq> {''type'', ''caller_id''} \<or> \<not> bounded_id (dget c ''caller_id'')
                         then bad else Inr [namespace, caller, async]
                    else if t = ''direct''
                    then if set (keys c) \<noteq> {''type''} then bad else Inr [namespace, caller, async]
                    else bad
                | _ \<Rightarrow> bad)
           | _ \<Rightarrow> bad)"

type_synonym tag = "string \<times> json list"

definition call_kinds :: "string list" where
  "call_kinds = [''function_call'', ''custom_tool_call'']"

definition output_kinds :: "string list" where
  "output_kinds = [''function_call_output'', ''custom_tool_call_output'']"

definition item_kinds :: "string list" where
  "item_kinds = [''message'', ''reasoning'', ''compaction''] @ call_kinds @ output_kinds"

text \<open>\<^verbatim>\<open>kind.removesuffix("_output")\<close>.\<close>

definition call_kind :: "string \<Rightarrow> string" where
  "call_kind kind = (if kind = ''function_call_output'' then ''function_call''
     else if kind = ''custom_tool_call_output'' then ''custom_tool_call'' else kind)"

definition part_kind :: "json \<Rightarrow> json" where
  "part_kind p = (case p of JDict d \<Rightarrow> dget d ''type'' | _ \<Rightarrow> JNull)"

definition produced_part :: "json \<Rightarrow> bool" where
  "produced_part p = str_in (part_kind p) [''output_text'', ''refusal'']"

text \<open>The checks of a message item.\<close>

definition message_item :: "json \<Rightarrow> jdict \<Rightarrow> unit res" where
  "message_item kind item =
     (let content = dget item ''content''; assistant = (dget item ''role'' = JStr ''assistant'')
      in rbind (validate_text_content assistant content) (\<lambda>_.
         let parts = (case content of JList ps \<Rightarrow> ps | _ \<Rightarrow> []);
             produced = assistant \<and> (has_key item ''id'' \<or> has_key item ''status''
                          \<or> is_list content \<and> list_ex produced_part parts)
         in if produced \<and> (kind \<noteq> JStr ''message'' \<or> \<not> has_key item ''id'' \<or> \<not> is_list content
                            \<or> list_ex (\<lambda>p. \<not> produced_part p) parts)
            then Inl ''native_assistant_output_invalid'' else Inr ()))"

definition typed_parts :: "string \<Rightarrow> json \<Rightarrow> bool" where
  "typed_parts part_type v = (case v of
      JList ps \<Rightarrow> list_all (\<lambda>p. case p of
          JDict d \<Rightarrow> dget d ''type'' = JStr part_type \<and> is_str (dget d ''text'') | _ \<Rightarrow> False) ps
    | _ \<Rightarrow> False)"

definition reasoning_item :: "jdict \<Rightarrow> bool" where
  "reasoning_item item = (typed_parts ''summary_text'' (dget item ''summary'')
     \<and> (dget item ''content'' = JNull \<or> typed_parts ''reasoning_text'' (dget item ''content'')))"

definition status_ok :: "json \<Rightarrow> bool" where
  "status_ok s = (s = JNull \<or> str_in s [''in_progress'', ''completed'', ''incomplete''])"

text \<open>The tags of a tool call or tool result, \<open>k\<close> being its kind.\<close>

definition tool_tags :: "string \<Rightarrow> jdict \<Rightarrow> tag list res" where
  "tool_tags k item =
     (let call = dget item ''call_id''; ck = JStr (call_kind k); status = dget item ''status''
      in if \<not> bounded_id call then Inl ''native_call_invalid''
         else rbind (tool_execution item) (\<lambda>execution.
           let context = [(''tool_namespace'', execution ! 0), (''tool_caller'', execution ! 1),
                          (''tool_name'', dget item ''name'')];
               call_tag = (''call'', [ck, call]) in
           if k \<in> set call_kinds
           then let field = (if k = ''function_call'' then ''arguments'' else ''input'') in
             if \<not> is_str (dget item ''name'') \<or> \<not> is_str (dget item field)
             then Inl ''native_call_invalid''
             else Inr (call_tag # (''tool'', [JStr k, call, dget item ''name'', dget item field,
                          JList execution, dget item ''id'', status])
                       # map (\<lambda>(f, v). (f, [ck, call, v])) context)
           else
             if \<not> (is_str (dget item ''output'') \<or> is_list (dget item ''output''))
                \<or> execution ! 2 \<noteq> JNull
                \<or> dget item ''name'' \<noteq> JNull \<and> \<not> is_str (dget item ''name'')
             then Inl ''native_tool_result_invalid''
             else rbind (validate_text_content False (dget item ''output'')) (\<lambda>_.
               Inr (call_tag # map (\<lambda>(f, v). (f, [ck, call, v]))
                                 (filter (\<lambda>(f, v). v \<noteq> JNull) context)))))"

definition state_tags :: "json \<Rightarrow> jdict \<Rightarrow> tag list res" where
  "state_tags kind item =
     (if str_in kind [''reasoning'', ''compaction'']
      then let opaque = dget item ''encrypted_content'' in
        if (opaque \<noteq> JNull \<or> kind = JStr ''compaction'')
           \<and> \<not> (case opaque of JStr s \<Rightarrow> len_between 1 (1024 * 1024) s | _ \<Rightarrow> False)
        then Inl ''native_opaque_invalid''
        else Inr [(''state'', [kind, dget item ''id'', opaque])]
      else if has_key item ''encrypted_content'' then Inl ''native_opaque_invalid''
      else Inr [])"

definition item_tag :: "json \<Rightarrow> bool \<Rightarrow> json \<Rightarrow> jdict \<Rightarrow> tag list res" where
  "item_tag kind message phase item =
     (if has_key item ''id'' \<and> \<not> (str_in kind call_kinds \<and> dget item ''id'' = JNull)
      then if \<not> bounded_id (dget item ''id'') then Inl ''native_item_invalid''
           else Inr [(''item'', [if message then JStr ''message'' else kind, dget item ''id'',
                         dget item ''status'', phase])]
      else Inr [])"

text \<open>The checks between the message checks and the tags.\<close>

definition item_checks :: "json \<Rightarrow> bool \<Rightarrow> json \<Rightarrow> jdict \<Rightarrow> unit res" where
  "item_checks kind message phase item =
     (let role = dget item ''role''; status = dget item ''status'' in
      if has_key item ''id'' \<and> (message \<and> str_in role [''user'', ''developer'', ''system'']
           \<or> str_in kind output_kinds)
      then Inl ''native_client_item_id_unsupported''
      else if phase \<noteq> JNull \<and> \<not> str_in phase [''commentary'', ''final_answer'']
      then Inl ''native_message_phase_invalid''
      else if \<not> status_ok status
           \<or> message \<and> role = JStr ''assistant'' \<and> has_key item ''id'' \<and> status = JNull
      then Inl ''native_item_invalid''
      else if str_in kind [''reasoning'', ''compaction''] \<and> \<not> has_key item ''id''
      then Inl ''native_item_invalid''
      else if kind = JStr ''reasoning'' \<and> \<not> reasoning_item item then Inl ''native_item_invalid''
      else if kind = JStr ''compaction'' \<and> \<not> has_key item ''encrypted_content''
      then Inl ''native_item_invalid''
      else Inr ())"

definition item_tags :: "jdict \<Rightarrow> tag list res" where
  "item_tags item =
     (let kind = dget item ''type''; role = dget item ''role'';
          message = (kind = JNull \<or> kind = JStr ''message'');
          phase = (if message then dget item ''phase'' else JNull)
      in if kind \<noteq> JNull \<and> \<not> is_str kind then Inl ''native_item_invalid''
         else if \<not> (kind = JNull \<or> str_in kind item_kinds) \<or> has_key item ''type'' \<and> kind = JNull
         then Inl ''native_item_unsupported''
         else if has_key item ''role'' \<and> \<not> is_str role then Inl ''native_item_invalid''
         else if has_key item ''role'' \<and> \<not> message then Inl ''native_item_invalid''
         else if message \<and> (\<not> str_in role [''user'', ''developer'', ''system'', ''assistant'']
                \<or> \<not> (is_str (dget item ''content'') \<or> is_list (dget item ''content'')))
         then Inl ''native_item_invalid''
         else rbind (if message then message_item kind item else Inr ()) (\<lambda>_.
              rbind (item_checks kind message phase item) (\<lambda>_.
              rbind (case kind of
                       JStr k \<Rightarrow> if k \<in> set call_kinds \<or> k \<in> set output_kinds
                                 then tool_tags k item else Inr []
                     | _ \<Rightarrow> Inr []) (\<lambda>tool.
              rbind (state_tags kind item) (\<lambda>state.
              rbind (item_tag kind message phase item) (\<lambda>ident.
              Inr (tool @ state @ ident)))))))"

fun tags_from :: "tag list \<Rightarrow> json list \<Rightarrow> tag list res" where
  "tags_from tags [] = Inr tags"
| "tags_from tags (JDict item # items) =
     rbind (item_tags item) (\<lambda>new.
       if 256 < length (tags @ new) then Inl ''native_continuation_oversized''
       else tags_from (tags @ new) items)"
| "tags_from tags (_ # items) = tags_from tags items"

definition continuation_tags :: "json \<Rightarrow> tag list res" where
  "continuation_tags items = (case items of JList xs \<Rightarrow> tags_from [] xs | _ \<Rightarrow> Inr [])"

section \<open>Facts\<close>

lemma tags_from_bound:
  "tags_from tags items = Inr out \<Longrightarrow> length tags \<le> 256 \<Longrightarrow> length out \<le> 256"
  by (induction tags items rule: tags_from.induct) (auto split: if_splits)

lemma tags_from_prefix:
  "tags_from tags items = Inr out \<Longrightarrow> \<exists>more. out = tags @ more"
proof (induction tags items arbitrary: out rule: tags_from.induct)
  case (2 tags item items)
  then show ?case by (fastforce split: if_splits)
qed auto

lemma tags_from_contains:
  "tags_from tags items = Inr out \<Longrightarrow> JDict item \<in> set items \<Longrightarrow>
     \<exists>new. item_tags item = Inr new \<and> set new \<subseteq> set out"
proof (induction tags items rule: tags_from.induct)
  case (2 tags item' items)
  then obtain new where new: "item_tags item' = Inr new"
    and rest: "tags_from (tags @ new) items = Inr out" by (auto split: if_splits)
  show ?case
  proof (cases "item = item'")
    case True
    with new tags_from_prefix [OF rest] show ?thesis by auto
  next
    case False
    with "2.prems" have "JDict item \<in> set items" by auto
    with "2.IH" [OF new _ rest] "2.prems"(1) new show ?thesis by (auto split: if_splits)
  qed
qed auto

text \<open>Only client-executed function and custom tools pass, alone or inside one namespace level.\<close>

lemma named_tool_kind: "named_tool kinds v = Inr t \<Longrightarrow> t \<in> set kinds \<and> part_kind v = JStr t"
  by (auto simp: named_tool_def part_kind_def split: json.splits if_splits)

section \<open>Properties\<close>

definition client_tool :: "json \<Rightarrow> bool" where
  "client_tool t \<longleftrightarrow> part_kind t \<in> {JStr ''function'', JStr ''custom''}"

lemma flat_declarations_client:
  "flat_declarations v = Inr u \<Longrightarrow> \<exists>xs. v = JList xs \<and> length xs \<le> 256 \<and> list_all client_tool xs"
  by (auto simp: flat_declarations_def rmap_list_Inr_iff client_tool_def list_all_iff list_all2_conv_all_nth
      set_conv_nth split: json.splits if_splits dest!: named_tool_kind)
     (metis named_tool_kind empty_iff insertE list.set)

text \<open>
  C9: A native request that passes the tool check declares only client-executed function and custom
  tools, directly or in a single namespace level, and at most 256 at either level: no hosted or
  provider-executed tool, and no nested namespace, is ever accepted.
\<close>
theorem native_tools_client_executed:
  assumes "validate_native_tools payload = Inr u"
  shows "\<exists>tools. dget_or payload ''tools'' (JList []) = JList tools \<and> length tools \<le> 256 \<and>
    (\<forall>t \<in> set tools. client_tool t \<or>
       (\<exists>d inner. t = JDict d \<and> dget d ''type'' = JStr ''namespace'' \<and>
          dget d ''tools'' = JList inner \<and> length inner \<le> 256 \<and> list_all client_tool inner))"
proof -
  have "tool_declarations (dget_or payload ''tools'' (JList [])) = Inr ()"
    using assms by (auto simp: validate_native_tools_def)
  then obtain tools us where tools: "dget_or payload ''tools'' (JList []) = JList tools"
      "length tools \<le> 256" "rmap_list tool_declaration tools = Inr us"
    by (auto simp: tool_declarations_def split: json.splits if_splits)
  have "client_tool t \<or> (\<exists>d inner. t = JDict d \<and> dget d ''type'' = JStr ''namespace'' \<and>
          dget d ''tools'' = JList inner \<and> length inner \<le> 256 \<and> list_all client_tool inner)"
    if "t \<in> set tools" for t
  proof -
    from that tools(3) obtain w where w: "tool_declaration t = Inr w"
      by (metis is_ok_iff is_ok_simps(1))
    then obtain k where k: "named_tool [''function'', ''custom'', ''namespace''] t = Inr k"
      by (auto simp: tool_declaration_def)
    then obtain d where d: "t = JDict d" by (auto simp: named_tool_def split: json.splits)
    from named_tool_kind [OF k] consider "client_tool t" | "k = ''namespace''"
      by (auto simp: client_tool_def)
    then show ?thesis
    proof cases
      case 2
      with w k d have "flat_declarations (dget d ''tools'') = Inr ()" by (simp add: tool_declaration_def)
      from flat_declarations_client [OF this] named_tool_kind [OF k] 2 d show ?thesis
        by (auto simp: part_kind_def)
    qed simp
  qed
  with tools(1,2) show ?thesis by blast
qed

definition example_tool :: "string \<Rightarrow> json" where
  "example_tool k = JDict [(''type'', JStr k), (''name'', JStr ''shell'')]"

definition example_tools :: jdict where
  "example_tools = [(''tools'', JList [example_tool ''function'',
     JDict [(''type'', JStr ''namespace''), (''name'', JStr ''ns''),
            (''tools'', JList [example_tool ''custom''])]])]"

theorem native_tools_client_executed_witness:
  "client_tool (example_tool ''function'') \<and> \<not> is_ok (validate_native_tools
     [(''tools'', JList [example_tool ''web_search''])])"
proof -
  have "validate_native_tools example_tools = Inr ()" by code_simp
  from native_tools_client_executed [OF this] have "client_tool (example_tool ''function'')"
    by (force simp: example_tools_def dget_or_def example_tool_def dget_def)
  moreover have "\<not> is_ok (validate_native_tools [(''tools'', JList [example_tool ''web_search''])])"
    by code_simp
  ultimately show ?thesis by blast
qed

lemma item_tags_parts:
  assumes "item_tags item = Inr new" and "dget item ''type'' = JStr k"
  shows "k \<in> set call_kinds \<or> k \<in> set output_kinds \<Longrightarrow>
           (''call'', [JStr (call_kind k), dget item ''call_id'']) \<in> set new"
    and "k \<in> {''reasoning'', ''compaction''} \<Longrightarrow>
           (''state'', [JStr k, dget item ''id'', dget item ''encrypted_content'']) \<in> set new"
proof -
  obtain tool state ident where parts: "new = tool @ state @ ident"
    and tool: "(if k \<in> set call_kinds \<or> k \<in> set output_kinds then tool_tags k item else Inr []) = Inr tool"
    and state: "state_tags (JStr k) item = Inr state"
    using assms(1) unfolding item_tags_def Let_def assms(2) if_Inl_eq_Inr rbind_Inr_iff json.case sum.inject
    by (elim conjE exE) (rule that [OF sym])
  show "k \<in> set call_kinds \<or> k \<in> set output_kinds \<Longrightarrow>
           (''call'', [JStr (call_kind k), dget item ''call_id'']) \<in> set new"
    using tool unfolding parts by (auto simp: tool_tags_def Let_def split: if_splits)
  show "k \<in> {''reasoning'', ''compaction''} \<Longrightarrow>
           (''state'', [JStr k, dget item ''id'', dget item ''encrypted_content'']) \<in> set new"
    using state unfolding parts by (auto simp: state_tags_def Let_def split: if_splits)
qed

text \<open>
  Every continuation item of an accepted conversation is tagged: a tool call or result by its call
  identifier, reasoning and compaction by their identifier and opaque content; and a conversation
  yields at most 256 tags. Continuation data cannot enter unbound.
\<close>
theorem continuation_tags_cover:
  assumes "continuation_tags (JList items) = Inr tags" and "JDict item \<in> set items"
    and "dget item ''type'' = JStr k"
  shows "length tags \<le> 256 \<and>
    (k \<in> set call_kinds \<or> k \<in> set output_kinds \<longrightarrow>
       (''call'', [JStr (call_kind k), dget item ''call_id'']) \<in> set tags) \<and>
    (k \<in> {''reasoning'', ''compaction''} \<longrightarrow>
       (''state'', [JStr k, dget item ''id'', dget item ''encrypted_content'']) \<in> set tags)"
proof -
  have from_nil: "tags_from [] items = Inr tags" using assms(1) by (simp add: continuation_tags_def)
  then have "length tags \<le> 256" by (rule tags_from_bound) simp
  moreover obtain new where "item_tags item = Inr new" "set new \<subseteq> set tags"
    using tags_from_contains [OF from_nil assms(2)] by blast
  ultimately show ?thesis using item_tags_parts assms(3) by blast
qed

definition example_items :: "json list" where
  "example_items = [JDict [(''role'', JStr ''user''), (''content'', JStr ''go'')],
     JDict [(''type'', JStr ''reasoning''), (''id'', JStr ''rs_1''), (''summary'', JList []),
            (''encrypted_content'', JStr ''blob'')],
     JDict [(''type'', JStr ''function_call''), (''call_id'', JStr ''c1''), (''name'', JStr ''shell''),
            (''arguments'', JStr ''{}'')]]"

definition example_tags :: "tag list" where
  "example_tags = (case continuation_tags (JList example_items) of Inr t \<Rightarrow> t | Inl _ \<Rightarrow> [])"

lemma example_tags_ok: "continuation_tags (JList example_items) = Inr example_tags"
  by code_simp

theorem continuation_tags_cover_witness:
  "(''call'', [JStr ''function_call'', JStr ''c1'']) \<in> set example_tags"
proof -
  let ?item = "[(''type'', JStr ''function_call''), (''call_id'', JStr ''c1''),
     (''name'', JStr ''shell''), (''arguments'', JStr ''{}'')]"
  have "JDict ?item \<in> set example_items" "dget ?item ''type'' = JStr ''function_call''"
    by (simp_all add: example_items_def dget_def)
  from continuation_tags_cover [OF example_tags_ok this] show ?thesis
    by (simp add: call_kinds_def call_kind_def dget_def)
qed

end
