(* ===== verification/Native_State.thy ===== *)
theory Native_State
  imports Native_Content
begin

text \<open>
  Process-scoped native execution state (\<^verbatim>\<open>NativeCodexState\<close> of
  \<^verbatim>\<open>src/hormuz/native_codex_state.py\<close>): which continuation tags a conversation may replay, the
  one-request-at-a-time lease of a conversation, and the observation counters of each owner. Every
  method runs under the object's lock and is one step here. The keyed digest of a conversation's facts
  is the argument \<open>bind\<close>, that of a tag within a conversation the argument \<open>mac\<close>, a fresh random
  lease the argument \<open>fresh\<close>; the monotonic clock is the argument \<open>now\<close>, in seconds.
\<close>

record counters =
  cn_requests :: int
  cn_active :: int
  cn_succeeded :: int
  cn_failed :: int
  cn_outcome_unknown :: int
  cn_observed_input_tokens :: int
  cn_observed_output_tokens :: int
  cn_observed_usage_requests :: int
  cn_usage_unknown_requests :: int

definition zero_counters :: counters where
  "zero_counters = \<lparr>cn_requests = 0, cn_active = 0, cn_succeeded = 0, cn_failed = 0,
     cn_outcome_unknown = 0, cn_observed_input_tokens = 0, cn_observed_output_tokens = 0,
     cn_observed_usage_requests = 0, cn_usage_unknown_requests = 0\<rparr>"

type_synonym owner = "string \<times> string \<times> string"

record native_binding =
  nb_digest :: string
  nb_identified :: bool

record native_state =
  ns_generation :: string
  ns_counts :: "(owner \<times> counters) list"
  ns_affinity :: "(string \<times> rat) list"
  ns_active :: "string list"

definition empty_native_state :: "string \<Rightarrow> native_state" where
  "empty_native_state generation =
     \<lparr>ns_generation = generation, ns_counts = [], ns_affinity = [], ns_active = []\<rparr>"

section \<open>Conversation binding\<close>

record binding_facts =
  bf_organization :: string
  bf_team :: string
  bf_actor :: string
  bf_generation :: string
  bf_model :: string
  bf_authorization :: string
  bf_account :: json
  bf_identifiers :: "json list"
  bf_session_headers :: "(string \<times> json) list"

definition binding_of :: "(binding_facts \<Rightarrow> string) \<Rightarrow> string \<times> string \<times> string \<Rightarrow> string \<Rightarrow> string
    \<Rightarrow> string \<Rightarrow> json \<Rightarrow> jdict \<Rightarrow> (string \<times> json) list \<Rightarrow> native_binding" where
  "binding_of bind identity generation model authorization account value session_headers =
     (let metadata = (case dget_or value ''client_metadata'' (JDict []) of JDict m \<Rightarrow> m | _ \<Rightarrow> []);
          identifiers = [dget metadata ''thread_id'', dget metadata ''session_id'',
                         dget value ''prompt_cache_key'']
      in \<lparr>nb_digest = bind
            \<lparr>bf_organization = fst identity, bf_team = fst (snd identity), bf_actor = snd (snd identity),
             bf_generation = generation, bf_model = model, bf_authorization = authorization,
             bf_account = account, bf_identifiers = identifiers, bf_session_headers = session_headers\<rparr>,
          nb_identified = list_ex (\<lambda>v. v \<noteq> JNull) (identifiers @ map snd session_headers)\<rparr>)"

section \<open>Affinity\<close>

type_synonym tag_mac = "string \<Rightarrow> tag \<Rightarrow> string"

definition tag_keys :: "tag_mac \<Rightarrow> native_binding \<Rightarrow> json \<Rightarrow> string list res" where
  "tag_keys mac b items =
     rbind (continuation_tags items) (\<lambda>tags. Inr (map (mac (nb_digest b)) tags))"

definition live_key :: "(string \<times> rat) list \<Rightarrow> rat \<Rightarrow> string \<Rightarrow> bool" where
  "live_key aff now k = ((case map_of aff k of None \<Rightarrow> 0 | Some deadline \<Rightarrow> deadline) > now)"

definition permits :: "tag_mac \<Rightarrow> native_state \<Rightarrow> rat \<Rightarrow> native_binding \<Rightarrow> json \<Rightarrow> bool res" where
  "permits mac s now b items =
     rbind (tag_keys mac b items) (\<lambda>ks. Inr (list_all (live_key (ns_affinity s) now) ks))"

definition refresh_key :: "rat \<Rightarrow> string \<Rightarrow> (string \<times> rat) list \<Rightarrow> (string \<times> rat) list" where
  "refresh_key now k aff = dict_del k aff @ [(k, now + 900)]"

text \<open>Dropping the oldest entries until at most 1024 are left.\<close>

definition evict :: "'a list \<Rightarrow> 'a list" where
  "evict aff = drop (length aff - 1024) aff"

definition remember :: "tag_mac \<Rightarrow> native_state \<Rightarrow> rat \<Rightarrow> native_binding \<Rightarrow> json \<Rightarrow> native_state res" where
  "remember mac s now b items =
     rbind (tag_keys mac b items) (\<lambda>ks.
       let live = filter (\<lambda>(k, deadline). now < deadline) (ns_affinity s)
       in Inr (s\<lparr>ns_affinity := evict (fold (refresh_key now) ks live)\<rparr>))"

section \<open>Requests\<close>

definition counters_of :: "native_state \<Rightarrow> owner \<Rightarrow> counters" where
  "counters_of s w = (case map_of (ns_counts s) w of None \<Rightarrow> zero_counters | Some c \<Rightarrow> c)"

definition put_counters :: "owner \<Rightarrow> counters \<Rightarrow> native_state \<Rightarrow> native_state" where
  "put_counters w c s = s\<lparr>ns_counts := dict_set w c (ns_counts s)\<rparr>"

definition lease_of :: "string \<Rightarrow> native_binding \<Rightarrow> json \<Rightarrow> string res" where
  "lease_of fresh b items =
     (if nb_identified b then Inr (nb_digest b)
      else rbind (continuation_tags items) (\<lambda>tags.
        Inr (if tags \<noteq> [] then nb_digest b else fresh)))"

definition native_begin :: "string \<Rightarrow> native_state \<Rightarrow> owner \<Rightarrow> native_binding \<Rightarrow> json
    \<Rightarrow> (string \<times> native_state) res" where
  "native_begin fresh s w b items =
     rbind (lease_of fresh b items) (\<lambda>lease.
       if lease \<in> set (ns_active s) then Inl ''NativeConversationBusy''
       else let c = counters_of s w in
         Inr (lease, put_counters w (c\<lparr>cn_requests := cn_requests c + 1, cn_active := cn_active c + 1\<rparr>)
                (s\<lparr>ns_active := lease # ns_active s\<rparr>)))"

datatype native_outcome = Succeeded | Failed | Outcome_Unknown

record native_usage =
  nu_evidence_complete :: bool
  nu_input_tokens :: int
  nu_output_tokens :: int

definition count_outcome :: "native_outcome \<Rightarrow> counters \<Rightarrow> counters" where
  "count_outcome out c = (case out of
      Succeeded \<Rightarrow> c\<lparr>cn_succeeded := cn_succeeded c + 1\<rparr>
    | Failed \<Rightarrow> c\<lparr>cn_failed := cn_failed c + 1\<rparr>
    | Outcome_Unknown \<Rightarrow> c\<lparr>cn_outcome_unknown := cn_outcome_unknown c + 1\<rparr>)"

definition count_usage :: "native_usage \<Rightarrow> counters \<Rightarrow> counters" where
  "count_usage u c =
     (if nu_evidence_complete u
      then c\<lparr>cn_observed_usage_requests := cn_observed_usage_requests c + 1,
             cn_observed_input_tokens := cn_observed_input_tokens c + nu_input_tokens u,
             cn_observed_output_tokens := cn_observed_output_tokens c + nu_output_tokens u\<rparr>
      else c\<lparr>cn_usage_unknown_requests := cn_usage_unknown_requests c + 1\<rparr>)"

definition native_finish :: "native_state \<Rightarrow> owner \<Rightarrow> string \<Rightarrow> native_outcome \<Rightarrow> native_usage
    \<Rightarrow> native_state" where
  "native_finish s w lease out u =
     (let c = counters_of s w;
          c' = count_usage u (count_outcome out (c\<lparr>cn_active := cn_active c - 1\<rparr>))
      in put_counters w c' (s\<lparr>ns_active := filter (\<lambda>l. l \<noteq> lease) (ns_active s)\<rparr>))"

text \<open>
  The receipt \<^verbatim>\<open>view\<close> publishes (its fixed members left out) and the consistency check its contract
  makes (\<^verbatim>\<open>validate_status\<close> of \<^verbatim>\<open>src/hormuz/_contract_schemas/native_codex.py\<close>).
\<close>

definition view :: "native_state \<Rightarrow> owner \<Rightarrow> bool \<Rightarrow> string \<times> bool \<times> counters" where
  "view s w enabled = (ns_generation s, enabled, counters_of s w)"

definition settled :: "counters \<Rightarrow> int" where
  "settled c = cn_succeeded c + cn_failed c + cn_outcome_unknown c"

definition status_valid :: "string \<times> bool \<times> counters \<Rightarrow> bool" where
  "status_valid = (\<lambda>(generation, enabled, c). is_hex64 generation \<and>
     0 \<le> cn_requests c \<and> 0 \<le> cn_active c \<and> 0 \<le> cn_succeeded c \<and> 0 \<le> cn_failed c \<and>
     0 \<le> cn_outcome_unknown c \<and> 0 \<le> cn_observed_input_tokens c \<and> 0 \<le> cn_observed_output_tokens c \<and>
     0 \<le> cn_observed_usage_requests c \<and> 0 \<le> cn_usage_unknown_requests c \<and>
     cn_requests c = cn_active c + settled c \<and>
     cn_observed_usage_requests c + cn_usage_unknown_requests c = settled c \<and>
     \<not> (\<not> enabled \<and> cn_requests c \<noteq> 0) \<and>
     \<not> (cn_observed_usage_requests c = 0 \<and>
        (cn_observed_input_tokens c \<noteq> 0 \<or> cn_observed_output_tokens c \<noteq> 0)))"

section \<open>Runs\<close>

text \<open>
  The steps of a process: any interleaving of beginnings, endings and remembered outputs. The first
  component records the requests in flight, by owner and lease; an ending is of one of them, as every
  dispatch ends, in its \<^verbatim>\<open>finally\<close> clause, exactly the lease it began.
\<close>

type_synonym native_sys = "(owner \<times> string) list \<times> native_state"

inductive native_step :: "tag_mac \<Rightarrow> native_sys \<Rightarrow> native_sys \<Rightarrow> bool" for mac where
  begins: "native_begin fresh s w b items = Inr (lease, s') \<Longrightarrow>
     native_step mac (flight, s) ((w, lease) # flight, s')"
| ends: "(w, lease) \<in> set flight \<Longrightarrow>
     0 \<le> nu_input_tokens u \<Longrightarrow> 0 \<le> nu_output_tokens u \<Longrightarrow>
     native_step mac (flight, s) (remove1 (w, lease) flight, native_finish s w lease out u)"
| remembers: "remember mac s now b items = Inr s' \<Longrightarrow> native_step mac (flight, s) (flight, s')"

inductive_cases native_stepE: "native_step mac (flight, s) sys'"

inductive native_reachable :: "tag_mac \<Rightarrow> string \<Rightarrow> native_sys \<Rightarrow> bool" for mac generation where
  start: "native_reachable mac generation ([], empty_native_state generation)"
| step: "native_reachable mac generation sys \<Longrightarrow> native_step mac sys sys' \<Longrightarrow>
     native_reachable mac generation sys'"

definition in_flight :: "owner \<Rightarrow> (owner \<times> string) list \<Rightarrow> int" where
  "in_flight w flight = int (length (filter (\<lambda>p. fst p = w) flight))"

definition counters_consistent :: "counters \<Rightarrow> int \<Rightarrow> bool" where
  "counters_consistent c n \<longleftrightarrow>
     0 \<le> cn_succeeded c \<and> 0 \<le> cn_failed c \<and> 0 \<le> cn_outcome_unknown c \<and>
     0 \<le> cn_observed_input_tokens c \<and> 0 \<le> cn_observed_output_tokens c \<and>
     0 \<le> cn_observed_usage_requests c \<and> 0 \<le> cn_usage_unknown_requests c \<and>
     cn_active c = n \<and> cn_requests c = n + settled c \<and>
     cn_observed_usage_requests c + cn_usage_unknown_requests c = settled c \<and>
     (cn_observed_usage_requests c = 0 \<longrightarrow>
        cn_observed_input_tokens c = 0 \<and> cn_observed_output_tokens c = 0)"

definition native_inv :: "string \<Rightarrow> native_sys \<Rightarrow> bool" where
  "native_inv generation = (\<lambda>(flight, s).
     ns_generation s = generation \<and>
     (\<forall>w. counters_consistent (counters_of s w) (in_flight w flight)) \<and>
     distinct (map snd flight) \<and> set (ns_active s) = snd ` set flight)"

lemma native_invI:
  "ns_generation s = generation \<Longrightarrow>
     (\<And>w. counters_consistent (counters_of s w) (in_flight w flight)) \<Longrightarrow>
     distinct (map snd flight) \<Longrightarrow> set (ns_active s) = snd ` set flight \<Longrightarrow>
     native_inv generation (flight, s)"
  by (simp add: native_inv_def del: split_paired_All)

lemma native_invD:
  assumes "native_inv generation (flight, s)"
  shows "ns_generation s = generation" "counters_consistent (counters_of s w) (in_flight w flight)"
    "distinct (map snd flight)" "set (ns_active s) = snd ` set flight"
  using assms by (simp_all add: native_inv_def del: split_paired_All)

lemma counters_of_put [simp]:
  "counters_of (put_counters w c s) w' = (if w' = w then c else counters_of s w')"
  by (simp add: counters_of_def put_counters_def)

lemma put_counters_fields [simp]:
  "ns_active (put_counters w c s) = ns_active s" "ns_affinity (put_counters w c s) = ns_affinity s"
  "ns_generation (put_counters w c s) = ns_generation s"
  by (simp_all add: put_counters_def)

lemma counters_of_update [simp]:
  "counters_of (s\<lparr>ns_active := a\<rparr>) w = counters_of s w"
  "counters_of (s\<lparr>ns_affinity := f\<rparr>) w = counters_of s w"
  by (simp_all add: counters_of_def)

lemma in_flight_simps [simp]:
  "in_flight w [] = 0"
  "in_flight w ((w', l) # flight) = (if w' = w then in_flight w flight + 1 else in_flight w flight)"
  by (simp_all add: in_flight_def)

lemma in_flight_remove1:
  "(w', l) \<in> set flight \<Longrightarrow>
     in_flight w (remove1 (w', l) flight) = (if w' = w then in_flight w flight - 1 else in_flight w flight)"
proof (induction flight)
  case (Cons p flight)
  then show ?case by (cases p; cases "p = (w', l)") auto
qed simp

lemma consistent_begin:
  "counters_consistent c n \<Longrightarrow>
     counters_consistent (c\<lparr>cn_requests := cn_requests c + 1, cn_active := cn_active c + 1\<rparr>) (n + 1)"
  by (simp add: counters_consistent_def settled_def)

lemma consistent_finish:
  assumes "counters_consistent c n" "0 \<le> nu_input_tokens u" "0 \<le> nu_output_tokens u"
  shows "counters_consistent
     (count_usage u (count_outcome out (c\<lparr>cn_active := cn_active c - 1\<rparr>))) (n - 1)"
  using assms
  by (cases out) (auto simp: counters_consistent_def settled_def count_usage_def count_outcome_def)

lemma native_begin_inv [router_invs]:
  assumes "native_inv generation (flight, s)" and "native_begin fresh s w b items = Inr (lease, s')"
  shows "native_inv generation ((w, lease) # flight, s')"
proof -
  have con: "counters_consistent (counters_of s v) (in_flight v flight)" for v
    using assms(1) by (rule native_invD)
  have fresh: "lease \<notin> set (ns_active s)" and
    s': "s' = put_counters w ((counters_of s w)\<lparr>cn_requests := cn_requests (counters_of s w) + 1,
           cn_active := cn_active (counters_of s w) + 1\<rparr>) (s\<lparr>ns_active := lease # ns_active s\<rparr>)"
    using assms(2) by (auto simp: native_begin_def Let_def split: if_splits)
  have "counters_consistent (counters_of s' v) (in_flight v ((w, lease) # flight))" for v
    using con [of v] consistent_begin [OF con [of w]] by (cases "v = w") (simp_all add: s')
  then show ?thesis
    using native_invD [OF assms(1)] fresh by (intro native_invI) (simp_all add: s')
qed

lemma leases_after_removal:
  assumes "distinct (map snd flight)" "(w, lease) \<in> set flight"
  shows "snd ` (set flight - {(w, lease)}) = snd ` set flight - {lease}"
proof -
  have "inj_on snd (set flight)" using assms(1) by (simp add: distinct_map)
  then have "snd ` (set flight - {(w, lease)}) = snd ` set flight - snd ` {(w, lease)}"
    using assms(2) by (intro inj_on_image_set_diff [of _ "set flight"]) auto
  then show ?thesis by simp
qed

lemma distinct_after_removal:
  "distinct (map snd flight) \<Longrightarrow> distinct (map snd (remove1 p flight))"
proof (induction flight)
  case (Cons q flight)
  then show ?case using set_remove1_subset [of p flight] by auto
qed simp

lemma finish_counters:
  "counters_of (native_finish s w lease out u) v =
     (if v = w then count_usage u (count_outcome out
         ((counters_of s w)\<lparr>cn_active := cn_active (counters_of s w) - 1\<rparr>))
      else counters_of s v)"
  by (simp add: native_finish_def Let_def)

lemma finish_fields:
  "ns_active (native_finish s w lease out u) = filter (\<lambda>l. l \<noteq> lease) (ns_active s)"
  "ns_generation (native_finish s w lease out u) = ns_generation s"
  "ns_affinity (native_finish s w lease out u) = ns_affinity s"
  by (simp_all add: native_finish_def Let_def)

lemma native_finish_inv [router_invs]:
  assumes inv: "native_inv generation (flight, s)" and mem: "(w, lease) \<in> set flight"
    and u: "0 \<le> nu_input_tokens u" "0 \<le> nu_output_tokens u"
  shows "native_inv generation (remove1 (w, lease) flight, native_finish s w lease out u)"
proof -
  have dist: "distinct (map snd flight)" and act: "set (ns_active s) = snd ` set flight"
    and gen: "ns_generation s = generation"
    and con: "counters_consistent (counters_of s v) (in_flight v flight)" for v
    using native_invD [OF inv] by simp_all
  have rem: "set (remove1 (w, lease) flight) = set flight - {(w, lease)}"
    using dist by (simp add: distinct_map)
  have "counters_consistent (counters_of (native_finish s w lease out u) v)
      (in_flight v (remove1 (w, lease) flight))" for v
    using con [of v] consistent_finish [OF con [of w] u, of out]
    by (cases "v = w") (simp_all add: finish_counters in_flight_remove1 [OF mem])
  moreover have "set (ns_active (native_finish s w lease out u)) = snd ` set (remove1 (w, lease) flight)"
    unfolding rem leases_after_removal [OF dist mem] act [symmetric] by (auto simp: finish_fields)
  ultimately show ?thesis
    using gen distinct_after_removal [OF dist] by (intro native_invI) (simp_all add: finish_fields)
qed

lemma remember_inv [router_invs]:
  assumes inv: "native_inv generation (flight, s)" and "remember mac s now b items = Inr s'"
  shows "native_inv generation (flight, s')"
proof -
  obtain aff where s': "s' = s\<lparr>ns_affinity := aff\<rparr>"
    using assms(2) by (auto simp: remember_def Let_def)
  from native_invD [OF inv] show ?thesis
    unfolding s' by (intro native_invI) simp_all
qed

lemma native_step_inv:
  "native_step mac sys sys' \<Longrightarrow> native_inv generation sys \<Longrightarrow> native_inv generation sys'"
  by (induction rule: native_step.induct) (auto intro: router_invs)

lemma native_reachable_inv: "native_reachable mac generation sys \<Longrightarrow> native_inv generation sys"
proof (induction rule: native_reachable.induct)
  case start
  show ?case
    by (simp add: native_inv_def empty_native_state_def counters_of_def zero_counters_def
        counters_consistent_def settled_def)
next
  case (step sys sys')
  then show ?case by (blast intro: native_step_inv)
qed

section \<open>Remembered continuations\<close>

lemma tag_keys_ok:
  "tag_keys mac b items = Inr ks \<longleftrightarrow>
     (\<exists>tags. continuation_tags items = Inr tags \<and> ks = map (mac (nb_digest b)) tags)"
  by (auto simp: tag_keys_def)

lemma continuation_tags_bound: "continuation_tags items = Inr tags \<Longrightarrow> length tags \<le> 256"
  by (auto simp: continuation_tags_def split: json.splits dest: tags_from_bound)

lemma tag_keys_bound: "tag_keys mac b items = Inr ks \<Longrightarrow> length ks \<le> 256"
  by (auto simp: tag_keys_ok dest: continuation_tags_bound)

lemma map_of_refresh:
  "map_of (refresh_key now k aff) k' = (if k' = k then Some (now + 900) else map_of aff k')"
  by (auto simp: refresh_key_def map_add_def map_of_dict_del split: option.splits)

lemma length_dict_del: "length (dict_del k d) \<le> length d"
  by (simp add: dict_del_def)

lemma set_dict_del: "set (dict_del k d) \<subseteq> set d"
  by (auto simp: dict_del_def)

lemma keys_append: "keys (xs @ ys) = keys xs @ keys ys" "keys [(k, v)] = [k]"
  by (simp_all add: keys_def)

lemma dict_del_append: "dict_del k (xs @ ys) = dict_del k xs @ dict_del k ys"
  by (simp add: dict_del_def)

text \<open>Refreshing keys moves them, with their new deadline, behind the entries that stay.\<close>

lemma fold_refresh:
  obtains kept new where "fold (refresh_key now) ks aff = kept @ new" "set kept \<subseteq> set aff"
    "set (keys kept) \<inter> set ks = {}" "set (keys new) = set ks" "length new \<le> length ks"
    "snd ` set new \<subseteq> {now + 900}"
proof -
  have "\<exists>kept new. fold (refresh_key now) ks aff = kept @ new \<and> set kept \<subseteq> set aff \<and>
      set (keys kept) \<inter> set ks = {} \<and> set (keys new) = set ks \<and> length new \<le> length ks \<and>
      snd ` set new \<subseteq> {now + 900}"
  proof (induction ks rule: rev_induct)
    case Nil
    show ?case by (rule exI [of _ aff], rule exI [of _ "[]"]) (simp add: keys_def)
  next
    case (snoc k ks)
    then obtain kept new where ih: "fold (refresh_key now) ks aff = kept @ new" "set kept \<subseteq> set aff"
      "set (keys kept) \<inter> set ks = {}" "set (keys new) = set ks" "length new \<le> length ks"
      "snd ` set new \<subseteq> {now + 900}" by blast
    have "fold (refresh_key now) (ks @ [k]) aff
        = dict_del k kept @ (dict_del k new @ [(k, now + 900)])"
      by (simp add: ih(1) refresh_key_def dict_del_append)
    moreover have "set (keys (dict_del k new @ [(k, now + 900)])) = set (ks @ [k])"
      using ih(4) by (simp add: keys_append insert_Diff_if)
    moreover have "length (dict_del k new @ [(k, now + 900)]) \<le> length (ks @ [k])"
      using ih(5) length_dict_del [of k new] by simp
    moreover have "set (dict_del k kept) \<subseteq> set aff"
      using ih(2) set_dict_del [of k kept] by (rule order_trans [rotated])
    moreover have "set (keys (dict_del k kept)) \<inter> set (ks @ [k]) = {}" using ih(3) by auto
    moreover have "snd ` set (dict_del k new @ [(k, now + 900)]) \<subseteq> {now + 900}"
      using ih(6) set_dict_del [of k new] by auto
    ultimately show ?case by blast
  qed
  then show ?thesis using that by blast
qed

lemma map_of_all_same:
  "snd ` set d \<subseteq> {v} \<Longrightarrow> map_of d k = (if k \<in> set (keys d) then Some v else None)"
proof (induction d)
  case (Cons p d)
  then show ?case by (cases p) (auto simp: keys_def)
qed (simp add: keys_def)

lemma evict_append:
  "length new \<le> 1024 \<Longrightarrow> \<exists>n. evict (kept @ new) = drop n kept @ new"
  by (rule exI [of _ "length kept + length new - 1024"]) (simp add: evict_def)

lemma set_keys_mono: "set xs \<subseteq> set ys \<Longrightarrow> set (keys xs) \<subseteq> set (keys ys)"
  by (auto simp: keys_def)

lemma remember_affinity:
  assumes "remember mac s now b items = Inr s'" and "tag_keys mac b items = Inr ks"
  obtains kept new where "ns_affinity s' = kept @ new"
    "set kept \<subseteq> {(k, d) \<in> set (ns_affinity s). now < d}"
    "set (keys kept) \<inter> set ks = {}" "set (keys new) = set ks" "snd ` set new \<subseteq> {now + 900}"
proof -
  let ?live = "filter (\<lambda>(k, d). now < d) (ns_affinity s)"
  obtain kept new where f: "fold (refresh_key now) ks ?live = kept @ new" "set kept \<subseteq> set ?live"
    "set (keys kept) \<inter> set ks = {}" "set (keys new) = set ks" "length new \<le> length ks"
    "snd ` set new \<subseteq> {now + 900}" by (rule fold_refresh)
  have "length new \<le> 1024" using f(5) tag_keys_bound [OF assms(2)] by simp
  then obtain n where n: "evict (kept @ new) = drop n kept @ new" using evict_append by blast
  have "set (drop n kept) \<subseteq> set kept" by (rule set_drop_subset)
  moreover have "ns_affinity s' = drop n kept @ new"
    using assms f(1) n by (auto simp: remember_def Let_def)
  ultimately show ?thesis
    using f set_keys_mono [of "drop n kept" kept] by (intro that [of "drop n kept" new]) auto
qed

lemma map_of_remembered:
  assumes "remember mac s now b items = Inr s'" and "tag_keys mac b items = Inr ks" and "k \<in> set ks"
  shows "map_of (ns_affinity s') k = Some (now + 900)"
proof -
  obtain kept new where r: "ns_affinity s' = kept @ new" "set (keys kept) \<inter> set ks = {}"
    "set (keys new) = set ks" "snd ` set new \<subseteq> {now + 900}"
    using remember_affinity [OF assms(1,2)] by metis
  then have "map_of kept k = None" using assms(3) by (auto simp: map_of_eq_None_iff keys_def)
  moreover have "map_of new k = Some (now + 900)" using map_of_all_same [OF r(4)] r(3) assms(3) by simp
  ultimately show ?thesis by (simp add: r(1) map_add_def)
qed


definition example_mac :: tag_mac where
  "example_mac digest tag = digest @ fst tag"

definition example_turn :: json where
  "example_turn = JList [JDict [(''type'', JStr ''reasoning''), (''id'', JStr ''rs_1''),
     (''summary'', JList []), (''encrypted_content'', JStr ''opaque'')]]"

definition example_binding :: "string \<Rightarrow> native_binding" where
  "example_binding d = \<lparr>nb_digest = d, nb_identified = True\<rparr>"

definition right_of :: "'a res \<Rightarrow> 'a \<Rightarrow> 'a" where
  "right_of r d = (case r of Inr x \<Rightarrow> x | Inl _ \<Rightarrow> d)"

lemma example_turn_tags:
  "continuation_tags example_turn = Inr (right_of (continuation_tags example_turn) [])"
  "right_of (continuation_tags example_turn) [] \<noteq> []"
  by code_simp+

lemma example_remember:
  "remember example_mac (empty_native_state ''g'') 5 (example_binding ''d'') example_turn
     = Inr (right_of (remember example_mac (empty_native_state ''g'') 5 (example_binding ''d'') example_turn)
         (empty_native_state ''g''))"
  by code_simp


definition affinity_inv :: "native_state \<Rightarrow> bool" where
  "affinity_inv s \<longleftrightarrow> distinct (keys (ns_affinity s)) \<and> length (ns_affinity s) \<le> 1024"

lemma distinct_keys_refresh:
  "distinct (keys aff) \<Longrightarrow> distinct (keys (fold (refresh_key now) ks aff))"
proof (induction ks arbitrary: aff)
  case (Cons k ks)
  have "distinct (keys (refresh_key now k aff))"
    using Cons.prems by (simp add: refresh_key_def keys_append)
  then show ?case using Cons.IH by simp
qed simp

lemma distinct_keys_sub:
  "distinct (keys d) \<Longrightarrow> distinct (keys (filter P d))" "distinct (keys d) \<Longrightarrow> distinct (keys (drop n d))"
  by (simp_all add: keys_def distinct_map_filter drop_map [symmetric])

lemma remember_affinity_inv:
  "affinity_inv s \<Longrightarrow> remember mac s now b items = Inr s' \<Longrightarrow> affinity_inv s'"
  by (auto simp: affinity_inv_def remember_def Let_def evict_def
      intro!: distinct_keys_sub distinct_keys_refresh)

lemma begin_affinity: "native_begin fresh s w b items = Inr (lease, s') \<Longrightarrow> ns_affinity s' = ns_affinity s"
  by (auto simp: native_begin_def Let_def split: if_splits)

lemma native_step_affinity: "native_step mac sys sys' \<Longrightarrow> affinity_inv (snd sys) \<Longrightarrow> affinity_inv (snd sys')"
proof (induction rule: native_step.induct)
  case (begins fresh s w b items lease s' flight)
  then show ?case by (simp add: affinity_inv_def begin_affinity)
next
  case (ends w lease flight u s out)
  then show ?case by (simp add: affinity_inv_def finish_fields)
next
  case (remembers s now b items s' flight)
  then show ?case using remember_affinity_inv by simp
qed

lemma native_reachable_affinity: "native_reachable mac generation sys \<Longrightarrow> affinity_inv (snd sys)"
proof (induction rule: native_reachable.induct)
  case start
  show ?case by (simp add: affinity_inv_def empty_native_state_def keys_def)
qed (blast intro: native_step_affinity)

text \<open>
  C10: In every state a process reaches, whatever the interleaving of requests, the receipt published
  for any owner satisfies the contract it is validated against: no negative counter, every request
  active or settled, every settled request with known or unknown usage, and no observed tokens without
  an observed request; and the affinity store holds at most 1024 keys.
\<close>
theorem native_status_always_valid:
  assumes "native_reachable mac generation (flight, s)" and "is_hex64 generation"
  shows "status_valid (view s w True) \<and> cn_active (counters_of s w) = in_flight w flight \<and>
     length (ns_affinity s) \<le> 1024"
proof -
  have "counters_consistent (counters_of s w) (in_flight w flight)" "ns_generation s = generation"
    using native_invD [OF native_reachable_inv [OF assms(1)]] by simp_all
  moreover have "0 \<le> in_flight w flight" by (simp add: in_flight_def)
  moreover have "affinity_inv s" using native_reachable_affinity [OF assms(1)] by simp
  ultimately show ?thesis
    using assms(2) by (auto simp: status_valid_def view_def counters_consistent_def settled_def
        affinity_inv_def)
qed

definition example_generation :: string where
  "example_generation = replicate 64 (CHR ''a'')"

definition example_owner :: owner where
  "example_owner = (''org'', ''team'', ''actor'')"

definition example_began :: "string \<times> native_state" where
  "example_began = right_of (native_begin ''fresh'' (empty_native_state example_generation) example_owner
     (example_binding ''d'') example_turn) (''d'', empty_native_state example_generation)"

lemma example_began_ok:
  "native_begin ''fresh'' (empty_native_state example_generation) example_owner
     (example_binding ''d'') example_turn = Inr (''d'', snd example_began)"
  by (simp add: native_begin_def lease_of_def example_binding_def empty_native_state_def
      example_began_def right_of_def Let_def)

lemma example_reachable:
  "native_reachable example_mac example_generation ([(example_owner, ''d'')], snd example_began)"
  by (rule native_reachable.step [OF native_reachable.start begins [OF example_began_ok]])

theorem native_status_always_valid_witness:
  "status_valid (view (snd example_began) example_owner True) \<and>
     cn_active (counters_of (snd example_began) example_owner) = 1"
proof -
  have "is_hex64 example_generation" by code_simp
  from native_status_always_valid [OF example_reachable this, of example_owner] show ?thesis by simp
qed

text \<open>
  C12: While a request of an identified conversation is in flight, another request of the same
  conversation is refused as busy, whoever sends it; ending the request in flight frees the
  conversation, so the next one begins with the conversation's own lease.
\<close>
theorem conversation_serialized:
  assumes "native_reachable mac generation (flight, s)" and "nb_identified b"
    and "(w, nb_digest b) \<in> set flight"
  shows "native_begin fresh s w' b items = Inl ''NativeConversationBusy'' \<and>
     (\<exists>s'. native_begin fresh (native_finish s w (nb_digest b) out u) w' b items = Inr (nb_digest b, s'))"
proof -
  have "set (ns_active s) = snd ` set flight"
    using native_invD [OF native_reachable_inv [OF assms(1)]] by simp
  then have "nb_digest b \<in> set (ns_active s)" using assms(3) by force
  moreover have "nb_digest b \<notin> set (ns_active (native_finish s w (nb_digest b) out u))"
    by (simp add: finish_fields)
  ultimately show ?thesis using assms(2) by (simp add: native_begin_def lease_of_def Let_def)
qed

definition example_usage :: native_usage where
  "example_usage = \<lparr>nu_evidence_complete = True, nu_input_tokens = 7, nu_output_tokens = 3\<rparr>"

theorem conversation_serialized_witness:
  "native_begin ''f'' (snd example_began) (''o'', ''t'', ''b'') (example_binding ''d'') JNull
     = Inl ''NativeConversationBusy''"
  using conversation_serialized [OF example_reachable, of "example_binding ''d''" example_owner "''f''"
      "(''o'', ''t'', ''b'')" JNull Succeeded example_usage]
  by (simp add: example_binding_def)

text \<open>
  C13: When the tag digests of two conversations never collide, remembering the output of one
  conversation never opens a replay for another: whatever another conversation may replay afterwards, it
  could replay before.
\<close>
theorem remember_isolates:
  assumes "native_reachable mac generation (flight, s)" and "remember mac s now b items = Inr s'"
    and "\<And>tag tag'. mac (nb_digest b) tag \<noteq> mac (nb_digest b') tag'"
    and "permits mac s' later b' items' = Inr True" and "0 \<le> later"
  shows "permits mac s later b' items' = Inr True"
proof -
  obtain ks where ks: "tag_keys mac b items = Inr ks"
    using assms(2) by (auto simp: remember_def)
  obtain kept new where r: "ns_affinity s' = kept @ new"
    "set kept \<subseteq> {(k, d) \<in> set (ns_affinity s). now < d}" "set (keys new) = set ks"
    by (rule remember_affinity [OF assms(2) ks])
  obtain tags' where ks': "tag_keys mac b' items' = Inr (map (mac (nb_digest b')) tags')"
    and live: "list_all (live_key (ns_affinity s') later) (map (mac (nb_digest b')) tags')"
    using assms(4) by (auto simp: permits_def tag_keys_def)
  have dist: "distinct (keys (ns_affinity s))"
    using native_reachable_affinity [OF assms(1)] by (simp add: affinity_inv_def)
  have "live_key (ns_affinity s) later k" if k: "k \<in> set (map (mac (nb_digest b')) tags')" for k
  proof -
    have "k \<notin> set (keys new)"
      using k ks assms(3) r(3) by (auto simp: tag_keys_ok) (metis assms(3))
    then have new: "map_of new k = None" by (auto simp: map_of_eq_None_iff keys_def)
    have "live_key (ns_affinity s') later k" using live k by (auto simp: list_all_iff)
    then obtain d where d: "map_of kept k = Some d" "later < d"
      using new assms(5) by (auto simp: live_key_def r(1) map_add_def split: option.splits)
    then have "(k, d) \<in> set (ns_affinity s)" using r(2) by (auto dest: map_of_SomeD)
    then have "map_of (ns_affinity s) k = Some d"
      using dist by (simp add: keys_def map_of_is_SomeI)
    then show ?thesis using d(2) by (simp add: live_key_def)
  qed
  then show ?thesis by (simp add: permits_def ks' list_all_iff)
qed

definition example_after :: native_state where
  "example_after = right_of (remember example_mac (snd example_began) 4 (example_binding ''e'')
     example_turn) (snd example_began)"

definition example_later :: native_state where
  "example_later = right_of (remember example_mac example_after 5 (example_binding ''d'')
     example_turn) example_after"

lemma example_after_ok:
  "remember example_mac (snd example_began) 4 (example_binding ''e'') example_turn = Inr example_after"
  "remember example_mac example_after 5 (example_binding ''d'') example_turn = Inr example_later"
  "permits example_mac example_later 6 (example_binding ''e'') example_turn = Inr True"
  by code_simp+

theorem remember_isolates_witness:
  "permits example_mac example_after 6 (example_binding ''e'') example_turn = Inr True"
proof -
  have "native_reachable example_mac example_generation ([(example_owner, ''d'')], example_after)"
    by (rule native_reachable.step [OF example_reachable remembers [OF example_after_ok(1)]])
  from remember_isolates [OF this example_after_ok(2) _ example_after_ok(3)] show ?thesis
    by (simp add: example_mac_def example_binding_def)
qed

end
