(* ===== verification/Json_Text.thy ===== *)
theory Json_Text
  imports Py_Prelude
begin

text \<open>
  JSON text as Python's \<^verbatim>\<open>json\<close> module writes and reads it, and the strict codecs the router builds on
  it: \<^verbatim>\<open>canonical_json\<close>, \<^verbatim>\<open>strict_json_loads\<close> and \<^verbatim>\<open>validate_tree\<close> of
  \<^verbatim>\<open>src/hormuz/compaction_formats.py\<close>, \<^verbatim>\<open>canonical_json_bytes\<close> of \<^verbatim>\<open>src/hormuz/audit_chain.py\<close>,
  \<^verbatim>\<open>_strict_json_loads\<close> of \<^verbatim>\<open>src/hormuz/usage.py\<close>. The writer uses the compact separators; \<open>ascii\<close>
  is \<^verbatim>\<open>ensure_ascii\<close> and \<open>canon\<close> is \<^verbatim>\<open>sort_keys\<close>. The reader rejects repeated members and non-finite
  constants, as the hooks the router passes do. Text is Latin-1: an escape that denotes a character
  above U+00FF is outside the model and read as malformed.
\<close>

section \<open>Writing\<close>

definition hex_char :: "nat \<Rightarrow> char" where
  "hex_char n = (if n < 10 then char_of (48 + n) else char_of (87 + n))"

definition escape_u :: "nat \<Rightarrow> string" where
  "escape_u n = [CHR 0x5C, CHR ''u'', CHR ''0'', CHR ''0'', hex_char (n div 16), hex_char (n mod 16)]"

definition escape_char :: "bool \<Rightarrow> char \<Rightarrow> string" where
  "escape_char ascii c =
     (if c = CHR 0x22 then [CHR 0x5C, CHR 0x22]
      else if c = CHR 0x5C then [CHR 0x5C, CHR 0x5C]
      else if c = CHR 0x0A then [CHR 0x5C, CHR ''n'']
      else if c = CHR 0x0D then [CHR 0x5C, CHR ''r'']
      else if c = CHR 0x09 then [CHR 0x5C, CHR ''t'']
      else if c = CHR 0x0C then [CHR 0x5C, CHR ''f'']
      else if c = CHR 0x08 then [CHR 0x5C, CHR ''b'']
      else if ord_of c < 32 \<or> ascii \<and> 126 < ord_of c then escape_u (ord_of c)
      else [c])"

definition quote :: "bool \<Rightarrow> string \<Rightarrow> string" where
  "quote ascii s = CHR 0x22 # concat (map (escape_char ascii) s) @ [CHR 0x22]"

text \<open>
  \<^verbatim>\<open>repr\<close> of a float: the fewest significant digits that round back to it, in positional notation
  for exponents from -4 to 15 and in scientific notation otherwise.
\<close>

primrec leading_zeros :: "nat \<Rightarrow> rat \<Rightarrow> nat" where
  "leading_zeros 0 q = 0"
| "leading_zeros (Suc n) q = (if 1 \<le> q * 10 then 0 else Suc (leading_zeros n (q * 10)))"

definition decimal_point :: "rat \<Rightarrow> int" where
  "decimal_point q = (if 1 \<le> q then int (length (nat_digits (nat \<lfloor>q\<rfloor>))) else - int (leading_zeros 400 q))"

primrec shortest_digits :: "nat \<Rightarrow> nat \<Rightarrow> rat \<Rightarrow> int \<times> int" where
  "shortest_digits 0 n q = (round_half_even (q / pow10 (decimal_point q - 17)), decimal_point q - 17)"
| "shortest_digits (Suc fuel) n q =
     (let e = decimal_point q - int n; m = round_half_even (q / pow10 e)
      in if fl64 (of_int m * pow10 e) = q then (m, e) else shortest_digits fuel (Suc n) q)"

definition strip_zeros :: "string \<Rightarrow> string" where
  "strip_zeros s = rev (dropWhile (\<lambda>c. c = CHR ''0'') (rev s))"

definition magnitude_text :: "rat \<Rightarrow> string" where
  "magnitude_text q =
     (let (m, e) = shortest_digits 16 1 q;
          all = nat_digits (nat m);
          point = int (length all) + e;
          ds = strip_zeros all
      in if -4 < point \<and> point \<le> 16
         then if point \<le> 0 then ''0.'' @ replicate (nat (- point)) (CHR ''0'') @ ds
              else if int (length ds) \<le> point
              then ds @ replicate (nat point - length ds) (CHR ''0'') @ ''.0''
              else take (nat point) ds @ ''.'' @ drop (nat point) ds
         else (if length ds = 1 then ds else take 1 ds @ ''.'' @ drop 1 ds) @ ''e'' @
              (if point - 1 < 0 then ''-'' else ''+'') @
              (let x = nat_digits (nat \<bar>point - 1\<bar>) in if length x < 2 then CHR ''0'' # x else x))"

definition float_text :: "rat \<Rightarrow> string" where
  "float_text q = (if q = 0 then ''0.0'' else if q < 0 then CHR ''-'' # magnitude_text (- q)
     else magnitude_text q)"

fun dump :: "bool \<Rightarrow> json \<Rightarrow> string"
and dump_items :: "bool \<Rightarrow> json list \<Rightarrow> string"
and dump_members :: "bool \<Rightarrow> jdict \<Rightarrow> string" where
  "dump a JNull = ''null''"
| "dump a (JBool b) = (if b then ''true'' else ''false'')"
| "dump a (JInt i) = int_text i"
| "dump a (JFloat q) = float_text q"
| "dump a (JStr s) = quote a s"
| "dump a (JList xs) = (case xs of [] \<Rightarrow> ''[]'' | y # ys \<Rightarrow> CHR ''['' # dump a y @ dump_items a ys)"
| "dump a (JDict d) = (case d of [] \<Rightarrow> ''{}''
     | (k, v) # ms \<Rightarrow> CHR ''{'' # quote a k @ CHR '':'' # dump a v @ dump_members a ms)"
| "dump_items a [] = '']''"
| "dump_items a (x # xs) = CHR '','' # dump a x @ dump_items a xs"
| "dump_members a [] = ''}''"
| "dump_members a ((k, v) # ms) = CHR '','' # quote a k @ CHR '':'' # dump a v @ dump_members a ms"

text \<open>\<^verbatim>\<open>sort_keys\<close>: the members of every object in the order of their names.\<close>

fun canon :: "json \<Rightarrow> json" where
  "canon (JList xs) = JList (map canon xs)"
| "canon (JDict d) = JDict (sort_key fst (map (\<lambda>(k, v). (k, canon v)) d))"
| "canon v = v"

section \<open>Reading\<close>

definition simple_escape :: "char \<Rightarrow> char option" where
  "simple_escape c =
     (if c = CHR 0x22 then Some (CHR 0x22) else if c = CHR 0x5C then Some (CHR 0x5C)
      else if c = CHR ''/'' then Some (CHR ''/'') else if c = CHR ''b'' then Some (CHR 0x08)
      else if c = CHR ''f'' then Some (CHR 0x0C) else if c = CHR ''n'' then Some (CHR 0x0A)
      else if c = CHR ''r'' then Some (CHR 0x0D) else if c = CHR ''t'' then Some (CHR 0x09)
      else None)"

definition hex_value :: "char \<Rightarrow> nat option" where
  "hex_value c = (let n = ord_of c in
     if 48 \<le> n \<and> n \<le> 57 then Some (n - 48)
     else if 97 \<le> n \<and> n \<le> 102 then Some (n - 87)
     else if 65 \<le> n \<and> n \<le> 70 then Some (n - 55) else None)"

definition hex4 :: "char \<Rightarrow> char \<Rightarrow> char \<Rightarrow> char \<Rightarrow> char option" where
  "hex4 a b c d = (case (hex_value a, hex_value b, hex_value c, hex_value d) of
      (Some h, Some i, Some j, Some k) \<Rightarrow>
        if h = 0 \<and> i = 0 then Some (char_of (16 * j + k)) else None
    | _ \<Rightarrow> None)"

definition push_char :: "char \<Rightarrow> (string \<times> string) option \<Rightarrow> (string \<times> string) option" where
  "push_char c r = map_option (\<lambda>(s, rest). (c # s, rest)) r"

fun parse_chars :: "string \<Rightarrow> (string \<times> string) option" where
  "parse_chars [] = None"
| "parse_chars (c # cs) =
     (if c = CHR 0x22 then Some ([], cs)
      else if c = CHR 0x5C then
        (case cs of [] \<Rightarrow> None
         | e # cs' \<Rightarrow>
            (case simple_escape e of
               Some d \<Rightarrow> push_char d (parse_chars cs')
             | None \<Rightarrow>
                if e = CHR ''u'' then
                  (case cs' of
                     h # i # j # k # rest \<Rightarrow>
                       (case hex4 h i j k of
                          Some d \<Rightarrow> push_char d (parse_chars rest) | None \<Rightarrow> None)
                   | _ \<Rightarrow> None)
                else None))
      else if ord_of c < 32 then None
      else push_char c (parse_chars cs))"

definition json_space :: "char \<Rightarrow> bool" where
  "json_space c = (c = CHR '' '' \<or> c = CHR 0x09 \<or> c = CHR 0x0A \<or> c = CHR 0x0D)"

definition skip_ws :: "string \<Rightarrow> string" where
  "skip_ws s = dropWhile json_space s"

definition digit_run :: "string \<Rightarrow> string \<times> string" where
  "digit_run s = (takeWhile is_digit s, dropWhile is_digit s)"

definition number_fraction :: "string \<Rightarrow> string \<times> string" where
  "number_fraction s = (case s of
      c # cs \<Rightarrow> if c = CHR ''.'' \<and> fst (digit_run cs) \<noteq> [] then digit_run cs else ([], s)
    | [] \<Rightarrow> ([], s))"

definition number_exponent :: "string \<Rightarrow> (int \<times> string) option" where
  "number_exponent s = (case s of
      c # cs \<Rightarrow>
        if c = CHR ''e'' \<or> c = CHR ''E'' then
          (let negative = (case cs of d # _ \<Rightarrow> d = CHR ''-'' | [] \<Rightarrow> False);
               body = (case cs of d # ds \<Rightarrow> if d = CHR ''-'' \<or> d = CHR ''+'' then ds else cs | [] \<Rightarrow> cs);
               (ds, rest) = digit_run body;
               n = int (digits_value ds)
           in if ds = [] then None else Some (if negative then - n else n, rest))
        else None
    | [] \<Rightarrow> None)"

text \<open>Python converts at most 4300 decimal digits to an \<^verbatim>\<open>int\<close>.\<close>

definition parse_number :: "string \<Rightarrow> (json \<times> string) option" where
  "parse_number s =
     (let negative = (case s of c # _ \<Rightarrow> c = CHR ''-'' | [] \<Rightarrow> False);
          s1 = (if negative then tl s else s)
      in case s1 of [] \<Rightarrow> None
         | c # cs \<Rightarrow>
            if \<not> is_digit c then None else
            (let (ip, s2) = (if c = CHR ''0'' then ([c], cs) else digit_run s1);
                 (fp, s3) = number_fraction s2;
                 expo = number_exponent s3
             in if fp = [] \<and> expo = None
                then if 4300 < length ip then None
                     else Some (JInt (if negative then - int (digits_value ip) else int (digits_value ip)), s2)
                else let q = of_nat (digits_value (ip @ fp)) *
                         pow10 ((case expo of Some (x, _) \<Rightarrow> x | None \<Rightarrow> 0) - int (length fp))
                     in Some (JFloat (fl64 (if negative then - q else q)),
                              case expo of Some (_, rest) \<Rightarrow> rest | None \<Rightarrow> s3)))"

definition strip_prefix :: "string \<Rightarrow> string \<Rightarrow> string option" where
  "strip_prefix p s = (if take (length p) s = p then Some (drop (length p) s) else None)"

definition unique_object :: "jdict \<Rightarrow> json option" where
  "unique_object d = (if distinct (keys d) then Some (JDict d) else None)"

fun parse_value :: "nat \<Rightarrow> string \<Rightarrow> (json \<times> string) option"
and parse_items :: "nat \<Rightarrow> string \<Rightarrow> (json list \<times> string) option"
and parse_members :: "nat \<Rightarrow> string \<Rightarrow> (jdict \<times> string) option" where
  "parse_value 0 s = None"
| "parse_value (Suc n) s = (case s of
      [] \<Rightarrow> None
    | c # cs \<Rightarrow>
        if c = CHR 0x22 then map_option (\<lambda>(t, rest). (JStr t, rest)) (parse_chars cs)
        else if c = CHR ''['' then
          (case skip_ws cs of
             [] \<Rightarrow> None
           | d # ds \<Rightarrow> if d = CHR '']'' then Some (JList [], ds)
                      else map_option (\<lambda>(xs, rest). (JList xs, rest)) (parse_items n (d # ds)))
        else if c = CHR ''{'' then
          (case skip_ws cs of
             [] \<Rightarrow> None
           | d # ds \<Rightarrow> if d = CHR ''}'' then Some (JDict [], ds)
                      else (case parse_members n (d # ds) of
                              Some (m, rest) \<Rightarrow> map_option (\<lambda>v. (v, rest)) (unique_object m)
                            | None \<Rightarrow> None))
        else (case strip_prefix ''null'' s of Some rest \<Rightarrow> Some (JNull, rest) | None \<Rightarrow>
             (case strip_prefix ''true'' s of Some rest \<Rightarrow> Some (JBool True, rest) | None \<Rightarrow>
             (case strip_prefix ''false'' s of Some rest \<Rightarrow> Some (JBool False, rest) | None \<Rightarrow>
               parse_number s))))"
| "parse_items 0 s = None"
| "parse_items (Suc n) s = (case parse_value n s of
      None \<Rightarrow> None
    | Some (v, rest) \<Rightarrow>
        (case skip_ws rest of
           [] \<Rightarrow> None
         | d # ds \<Rightarrow>
            if d = CHR '']'' then Some ([v], ds)
            else if d = CHR '','' then
              map_option (\<lambda>(xs, rest'). (v # xs, rest')) (parse_items n (skip_ws ds))
            else None))"
| "parse_members 0 s = None"
| "parse_members (Suc n) s = (case s of
      [] \<Rightarrow> None
    | q # cs \<Rightarrow>
        if q \<noteq> CHR 0x22 then None else
        (case parse_chars cs of
           None \<Rightarrow> None
         | Some (k, rest) \<Rightarrow>
            (case skip_ws rest of
               [] \<Rightarrow> None
             | d # ds \<Rightarrow>
                if d \<noteq> CHR '':'' then None else
                (case parse_value n (skip_ws ds) of
                   None \<Rightarrow> None
                 | Some (v, rest') \<Rightarrow>
                    (case skip_ws rest' of
                       [] \<Rightarrow> None
                     | e # es \<Rightarrow>
                        if e = CHR ''}'' then Some ([(k, v)], es)
                        else if e = CHR '','' then
                          map_option (\<lambda>(m, rest''). ((k, v) # m, rest'')) (parse_members n (skip_ws es))
                        else None)))))"

text \<open>The recursion spends one unit of fuel per value or member, so the length of the text is enough.\<close>

definition loads :: "string \<Rightarrow> json option" where
  "loads s = (case parse_value (Suc (2 * length s)) (skip_ws s) of
      Some (v, rest) \<Rightarrow> if skip_ws rest = [] then Some v else None
    | None \<Rightarrow> None)"

section \<open>The reader inverts the writer\<close>

lemma hex_value_hex_char [simp]: "n < 16 \<Longrightarrow> hex_value (hex_char n) = Some n"
  by (auto simp: hex_char_def hex_value_def ord_of_def Let_def)

lemma ord_of_less [simp]: "ord_of c < 256"
  by (simp add: ord_of_def)

lemma char_of_ord_of [simp]: "char_of (ord_of c) = c"
  by (simp add: ord_of_def)

lemma hex4_ord [simp]:
  "hex4 (CHR ''0'') (CHR ''0'') (hex_char (ord_of c div 16)) (hex_char (ord_of c mod 16)) = Some c"
proof -
  have "ord_of c div 16 < 16" using ord_of_less [of c] by linarith
  moreover have "hex_value (CHR ''0'') = Some 0" by code_simp
  ultimately show ?thesis by (simp add: hex4_def)
qed

lemma parse_escaped: "parse_chars (escape_char a c @ t) = push_char c (parse_chars t)"
  by (auto simp: escape_char_def escape_u_def simple_escape_def)

lemma parse_quoted: "parse_chars (concat (map (escape_char a) s) @ CHR 0x22 # rest) = Some (s, rest)"
  by (induction s) (simp_all add: parse_escaped push_char_def)

definition stops :: "string \<Rightarrow> bool" where
  "stops s = (s = [] \<or> hd s \<in> set ('',]}'' @ [CHR '' '', CHR 0x09, CHR 0x0A, CHR 0x0D]))"

lemma stops_simps [simp]:
  "stops []" "stops (CHR '','' # s)" "stops (CHR '']'' # s)" "stops (CHR ''}'' # s)"
  by (simp_all add: stops_def)

lemma stops_number:
  assumes "stops s"
  shows "takeWhile is_digit s = []" "dropWhile is_digit s = s" "number_fraction s = ([], s)"
    "number_exponent s = None"
proof -
  have "s = [] \<or> (\<exists>c cs. s = c # cs \<and> \<not> is_digit c \<and> c \<noteq> CHR ''.'' \<and> c \<noteq> CHR ''e'' \<and> c \<noteq> CHR ''E'')"
    using assms by (cases s) (auto simp: stops_def is_digit_def ord_of_def)
  then show "takeWhile is_digit s = []" "dropWhile is_digit s = s" "number_fraction s = ([], s)"
    "number_exponent s = None"
    by (auto simp: number_fraction_def number_exponent_def)
qed

lemma digit_run_append:
  assumes "list_all is_digit ds" and "stops s"
  shows "digit_run (ds @ s) = (ds, s)"
  using assms stops_number(1,2) [OF assms(2)]
  by (simp add: digit_run_def takeWhile_append2 dropWhile_append2 list_all_iff)

lemma nat_digits_zero [simp]: "nat_digits 0 = ''0''"
  by code_simp

lemma hd_nat_digits: "0 < n \<Longrightarrow> hd (nat_digits n) \<noteq> CHR ''0'' \<and> is_digit (hd (nat_digits n))"
proof (induction n rule: nat_digits.induct)
  case (1 n)
  show ?case
  proof (cases "n < 10")
    case True
    have "ord_of (digit_char n) = 48 + n" using True by simp
    moreover have "ord_of (CHR ''0'') = 48" by code_simp
    ultimately have "digit_char n \<noteq> CHR ''0''" using 1(2) by force
    then show ?thesis using True by (simp add: nat_digits.simps [of n] is_digit_def)
  next
    case False
    then show ?thesis using 1 by (simp add: nat_digits.simps [of n])
  qed
qed

lemma digit_not_minus: "is_digit c \<Longrightarrow> c \<noteq> CHR ''-''"
  by (auto simp: is_digit_def ord_of_def)

lemma parse_digits:
  assumes "stops rest" and "length (nat_digits n) \<le> 4300"
  shows "(let s1 = nat_digits n @ rest in case s1 of [] \<Rightarrow> None | c # cs \<Rightarrow>
     if \<not> is_digit c then None else
       Some (if c = CHR ''0'' then ([c], cs) else digit_run s1)) = Some (nat_digits n, rest)"
proof (cases "n = 0")
  case True
  have "is_digit (CHR ''0'')" by code_simp
  then show ?thesis using True by simp
next
  case False
  obtain c cs where c: "nat_digits n = c # cs" by (cases "nat_digits n") auto
  have "c \<noteq> CHR ''0'' \<and> is_digit c" using hd_nat_digits [of n] False c by simp
  moreover have "digit_run (c # cs @ rest) = (c # cs, rest)"
    using digit_run_append [OF nat_digits_digits assms(1), of n] c by simp
  ultimately show ?thesis by (simp add: c)
qed

definition int_ok :: "int \<Rightarrow> bool" where
  "int_ok i = (length (nat_digits (nat \<bar>i\<bar>)) \<le> 4300)"

lemma parse_number_digits:
  assumes "stops rest" and "length (nat_digits n) \<le> 4300"
  shows "parse_number (nat_digits n @ rest) = Some (JInt (int n), rest)"
    "parse_number (CHR ''-'' # nat_digits n @ rest) = Some (JInt (- int n), rest)"
proof -
  obtain c cs where c: "nat_digits n = c # cs" by (cases "nat_digits n") auto
  have dig: "is_digit c" using nat_digits_digits [of n] c by simp
  have run: "(if c = CHR ''0'' then ([c], cs @ rest) else digit_run (c # cs @ rest)) = (c # cs, rest)"
    using parse_digits [OF assms] dig by (simp add: c)
  have val: "digits_value (c # cs) = n" using digits_value_nat_digits [of n] by (simp add: c)
  have len: "\<not> 4300 < length (c # cs)" using assms(2) by (simp add: c)
  show "parse_number (nat_digits n @ rest) = Some (JInt (int n), rest)"
    using dig digit_not_minus [OF dig] run val len stops_number(3,4) [OF assms(1)]
    by (simp add: parse_number_def c)
  show "parse_number (CHR ''-'' # nat_digits n @ rest) = Some (JInt (- int n), rest)"
    using dig run val len stops_number(3,4) [OF assms(1)]
    by (simp add: parse_number_def c)
qed

lemma parse_int_text:
  "stops rest \<Longrightarrow> int_ok i \<Longrightarrow> parse_number (int_text i @ rest) = Some (JInt i, rest)"
  using parse_number_digits [of rest "nat \<bar>i\<bar>"] by (auto simp: int_text_def int_ok_def)

text \<open>The values whose text is read back: no floats, distinct member names, integers Python reads.\<close>

fun plain :: "json \<Rightarrow> bool" where
  "plain (JFloat q) = False"
| "plain (JInt i) = int_ok i"
| "plain (JList xs) = list_all plain xs"
| "plain (JDict d) = (distinct (keys d) \<and> list_all (\<lambda>(k, v). plain v) d)"
| "plain v = True"

definition opener :: "char \<Rightarrow> bool" where
  "opener c = (\<not> json_space c \<and> c \<noteq> CHR '']'' \<and> c \<noteq> CHR ''}'')"

lemma opener_digit: "is_digit c \<Longrightarrow> opener c"
  by (auto simp: opener_def json_space_def is_digit_def ord_of_def)

lemma opener_minus: "opener (CHR ''-'')"
  by (simp add: opener_def json_space_def)

lemma int_text_head: "\<exists>c cs. int_text i = c # cs \<and> (c = CHR ''-'' \<or> is_digit c)"
proof -
  obtain c cs where "nat_digits (nat i) = c # cs" by (cases "nat_digits (nat i)") auto
  then show ?thesis using nat_digits_digits [of "nat i"] by (auto simp: int_text_def)
qed

lemma dump_head:
  assumes "plain v"
  shows "\<exists>c cs. dump a v = c # cs \<and> opener c"
proof (cases v)
  case (JInt i)
  then show ?thesis
    using int_text_head [of i] opener_digit opener_minus by auto
next
  case (JDict d)
  then show ?thesis by (cases d) (auto simp: opener_def json_space_def)
qed (use assms in \<open>auto simp: opener_def json_space_def quote_def split: list.splits\<close>)

lemma skip_ws_simps [simp]: "skip_ws [] = []" "\<not> json_space c \<Longrightarrow> skip_ws (c # cs) = c # cs"
  by (simp_all add: skip_ws_def)

lemma not_space [simp]:
  "\<not> json_space (CHR '','')" "\<not> json_space (CHR '']'')" "\<not> json_space (CHR ''}'')"
  "\<not> json_space (CHR '':'')" "\<not> json_space (CHR 0x22)" "\<not> json_space (CHR ''['')" "\<not> json_space (CHR ''{'')"
  by (simp_all add: json_space_def)

lemma skip_ws_dump [simp]: "plain v \<Longrightarrow> skip_ws (dump a v @ rest) = dump a v @ rest"
  using dump_head [of v a] by (auto simp: opener_def)

lemma dump_items_stops [simp]: "stops (dump_items a xs @ rest)"
  by (cases xs) simp_all

lemma dump_members_stops [simp]: "stops (dump_members a d @ rest)"
  by (cases d) (auto simp: split: prod.splits)

lemma parse_value_number:
  assumes "c = CHR ''-'' \<or> is_digit c"
  shows "parse_value (Suc n) (c # cs) = parse_number (c # cs)"
proof -
  have "c \<noteq> CHR 0x22 \<and> c \<noteq> CHR ''['' \<and> c \<noteq> CHR ''{'' \<and> c \<noteq> CHR ''n'' \<and> c \<noteq> CHR ''t'' \<and> c \<noteq> CHR ''f''"
    using assms by (auto simp: is_digit_def ord_of_def)
  then show ?thesis by (simp add: strip_prefix_def)
qed

lemma parse_value_int:
  assumes "stops rest" and "int_ok i"
  shows "parse_value (Suc n) (int_text i @ rest) = Some (JInt i, rest)"
proof -
  obtain c cs where c: "int_text i = c # cs" "c = CHR ''-'' \<or> is_digit c"
    using int_text_head by blast
  show ?thesis
    using parse_value_number [OF c(2), of n "cs @ rest"] parse_int_text [OF assms] by (simp add: c(1))
qed

lemma unique_objectI: "distinct (keys d) \<Longrightarrow> unique_object d = Some (JDict d)"
  by (simp add: unique_object_def)

lemma parse_dump:
  "plain v \<Longrightarrow> 2 * length (dump a v) \<le> n \<Longrightarrow> stops rest \<Longrightarrow>
     parse_value n (dump a v @ rest) = Some (v, rest)"
  "list_all plain (x # xs) \<Longrightarrow> 2 * (length (dump a x) + length (dump_items a xs)) < n \<Longrightarrow>
     parse_items n (dump a x @ dump_items a xs @ rest) = Some (x # xs, rest)"
  "list_all (\<lambda>(k, v). plain v) ((k, u) # d) \<Longrightarrow>
     2 * (length (quote a k) + length (dump a u) + length (dump_members a d)) < n \<Longrightarrow>
     parse_members n (quote a k @ CHR '':'' # dump a u @ dump_members a d @ rest) = Some ((k, u) # d, rest)"
proof (induction n arbitrary: v rest x xs k u d)
  case 0
  {
    case 1
    then show ?case using dump_head [of v a] by auto
  next
    case 2
    then show ?case by simp
  next
    case 3
    then show ?case by simp
  }
next
  case (Suc n)
  {
    case 1
    show ?case
    proof (cases v)
      case (JInt i)
      then show ?thesis using 1 parse_value_int by simp
    next
      case (JList xs)
      show ?thesis
      proof (cases xs)
        case Nil
        then show ?thesis using JList by simp
      next
        case (Cons y ys)
        obtain c cs where c: "dump a y = c # cs" "opener c"
          using dump_head [of y a] 1 JList Cons by auto
        have "parse_items n (dump a y @ dump_items a ys @ rest) = Some (y # ys, rest)"
          using 1 JList Cons by (intro Suc.IH(2)) auto
        then show ?thesis using JList Cons c by (auto simp: opener_def)
      qed
    next
      case (JDict d)
      show ?thesis
      proof (cases d)
        case Nil
        then show ?thesis using JDict by simp
      next
        case (Cons p ms)
        obtain k u where p: "p = (k, u)" by (cases p)
        have "parse_members n (quote a k @ CHR '':'' # dump a u @ dump_members a ms @ rest)
            = Some ((k, u) # ms, rest)"
          using 1 JDict Cons p by (intro Suc.IH(3)) auto
        then show ?thesis
          using 1 JDict Cons p by (simp add: quote_def unique_objectI)
      qed
    next
      case (JStr s)
      then show ?thesis by (simp add: quote_def parse_quoted)
    qed (use 1 in \<open>auto simp: strip_prefix_def\<close>)
  next
    case 2
    have x: "parse_value n (dump a x @ dump_items a xs @ rest) = Some (x, dump_items a xs @ rest)"
      using 2 by (intro Suc.IH(1)) auto
    show ?case
    proof (cases xs)
      case Nil
      then show ?thesis using x by simp
    next
      case (Cons y ys)
      have "parse_items n (dump a y @ dump_items a ys @ rest) = Some (y # ys, rest)"
        using 2 Cons by (intro Suc.IH(2)) auto
      then show ?thesis using x 2 Cons by simp
    qed
  next
    case 3
    have u: "parse_value n (dump a u @ dump_members a d @ rest) = Some (u, dump_members a d @ rest)"
      using 3 by (intro Suc.IH(1)) auto
    have k: "parse_chars (concat (map (escape_char a) k) @ CHR 0x22 # t) = Some (k, t)" for t
      by (rule parse_quoted)
    have plain_u: "plain u" using 3 by simp
    show ?case
    proof (cases d)
      case Nil
      then show ?thesis using u k plain_u by (simp add: quote_def)
    next
      case (Cons p ms)
      obtain k' u' where p: "p = (k', u')" by (cases p)
      have "parse_members n (quote a k' @ CHR '':'' # dump a u' @ dump_members a ms @ rest)
          = Some ((k', u') # ms, rest)"
        using 3 Cons p by (intro Suc.IH(3)) auto
      moreover have "skip_ws (quote a k' @ t) = quote a k' @ t" for t
        by (simp add: quote_def)
      ultimately show ?thesis using u k plain_u Cons p by (simp add: quote_def)
    qed
  }
qed

lemma loads_dump: "plain v \<Longrightarrow> loads (dump a v) = Some v"
  using parse_dump(1) [of v a "Suc (2 * length (dump a v))" "[]"] skip_ws_dump [of v a "[]"]
  by (simp add: loads_def)

section \<open>Canonical text\<close>

fun finite_tree :: "json \<Rightarrow> bool" where
  "finite_tree (JFloat q) = finite_float q"
| "finite_tree (JInt i) = int_ok i"
| "finite_tree (JList xs) = list_all finite_tree xs"
| "finite_tree (JDict d) = list_all (\<lambda>(k, v). finite_tree v) d"
| "finite_tree v = True"

text \<open>
  \<^verbatim>\<open>canonical_json_text\<close>: sorted members, compact separators, characters as they are; a value with a
  non-finite float, or with an integer of more than 4300 digits (which \<^verbatim>\<open>json.dumps\<close> cannot write), is
  refused with the caller's code. The bytes are the UTF-8 encoding of the text.
\<close>

definition canonical_json_text :: "string \<Rightarrow> json \<Rightarrow> string res" where
  "canonical_json_text code v = (if finite_tree v then Inr (dump False (canon v)) else Inl code)"

definition utf8_char :: "char \<Rightarrow> string" where
  "utf8_char c = (let n = ord_of c in
     if n < 128 then [c] else [char_of (192 + n div 64), char_of (128 + n mod 64)])"

definition utf8_encode :: "string \<Rightarrow> string" where
  "utf8_encode s = concat (map utf8_char s)"

definition canonical_json_bytes :: "string \<Rightarrow> json \<Rightarrow> string res" where
  "canonical_json_bytes code v = rbind (canonical_json_text code v) (\<lambda>t. Inr (utf8_encode t))"

text \<open>\<^verbatim>\<open>canonical_json\<close> of the compaction formats keeps the members in their order.\<close>

definition canonical_json :: "json \<Rightarrow> string" where
  "canonical_json v = dump False v"

text \<open>Two values are the same when they differ in the order of object members only.\<close>

inductive same_json :: "json \<Rightarrow> json \<Rightarrow> bool" where
  same_refl: "same_json v v"
| same_list: "list_all2 same_json xs ys \<Longrightarrow> same_json (JList xs) (JList ys)"
| same_dict: "set (keys d) = set (keys e) \<Longrightarrow>
     (\<And>k x y. map_of d k = Some x \<Longrightarrow> map_of e k = Some y \<Longrightarrow> same_json x y) \<Longrightarrow>
     same_json (JDict d) (JDict e)"

lemma keys_map_snd [simp]: "keys (map (\<lambda>(k, v). (k, f v)) d) = keys d"
  by (simp add: keys_def case_prod_unfold comp_def)

lemma set_sorted_members: "set (sort_key fst d) = set d" by simp

lemma distinct_keys_set_map_of:
  "distinct (keys d) \<Longrightarrow> (k, v) \<in> set d \<longleftrightarrow> map_of d k = Some v"
  by (simp add: keys_def)

lemma map_of_map_snd: "map_of (map (\<lambda>(k, v). (k, f v)) d) k = map_option f (map_of d k)"
  by (simp add: map_of_map)

lemma distinct_keys_sort [simp]: "distinct (keys (sort_key f d)) = distinct (keys d)"
  by (simp add: keys_def distinct_map)

lemma option_eq_SomeI: "(\<And>v. a = Some v \<longleftrightarrow> b = Some v) \<Longrightarrow> a = b"
  by (cases b) (metis not_Some_eq, simp)

lemma map_of_sort_key:
  fixes d :: "(string \<times> 'v) list"
  assumes "distinct (keys d)"
  shows "map_of (sort_key fst d) = map_of d"
proof (rule ext)
  fix k
  have "map_of (sort_key fst d) k = Some v \<longleftrightarrow> map_of d k = Some v" for v
    using distinct_keys_set_map_of [of d k v] distinct_keys_set_map_of [of "sort_key fst d" k v] assms
    by simp
  then show "map_of (sort_key fst d) k = map_of d k" by (rule option_eq_SomeI)
qed

lemma sort_members_eq_iff:
  fixes d e :: "(string \<times> 'v) list"
  assumes "distinct (keys d)" and "distinct (keys e)"
  shows "sort_key fst d = sort_key fst e \<longleftrightarrow> map_of d = map_of e"
proof
  assume "sort_key fst d = sort_key fst e"
  then show "map_of d = map_of e" using map_of_sort_key [OF assms(1)] map_of_sort_key [OF assms(2)] by simp
next
  assume eq: "map_of d = map_of e"
  have "set d = set e"
    using eq distinct_keys_set_map_of [OF assms(1)] distinct_keys_set_map_of [OF assms(2)] by auto
  moreover have "inj_on fst (set d)" using assms(1) by (simp add: keys_def distinct_map)
  ultimately show "sort_key fst d = sort_key fst e"
    using assms by (intro map_sorted_distinct_set_unique [of fst]) (auto simp: keys_def distinct_map)
qed

lemma canon_dict_eq_iff:
  assumes "distinct (keys d)" and "distinct (keys e)"
  shows "canon (JDict d) = canon (JDict e) \<longleftrightarrow>
     set (keys d) = set (keys e) \<and>
     (\<forall>k x y. map_of d k = Some x \<longrightarrow> map_of e k = Some y \<longrightarrow> canon x = canon y)"
proof -
  have "canon (JDict d) = canon (JDict e) \<longleftrightarrow>
      (\<forall>k. map_option canon (map_of d k) = map_option canon (map_of e k))"
    using assms sort_members_eq_iff [of "map (\<lambda>(k, v). (k, canon v)) d" "map (\<lambda>(k, v). (k, canon v)) e"]
    by (simp add: fun_eq_iff map_of_map_snd del: map_of_map)
  also have "\<dots> \<longleftrightarrow> set (keys d) = set (keys e) \<and>
     (\<forall>k x y. map_of d k = Some x \<longrightarrow> map_of e k = Some y \<longrightarrow> canon x = canon y)"
  proof
    assume l: "\<forall>k. map_option canon (map_of d k) = map_option canon (map_of e k)"
    then have "\<forall>k. map_of d k = None \<longleftrightarrow> map_of e k = None" by (metis option.map_disc_iff)
    then have "set (keys d) = set (keys e)" by (auto simp: keys_def map_of_eq_None_iff)
    then show "set (keys d) = set (keys e) \<and>
     (\<forall>k x y. map_of d k = Some x \<longrightarrow> map_of e k = Some y \<longrightarrow> canon x = canon y)"
      using l by (metis option.map(2) option.inject)
  next
    assume r: "set (keys d) = set (keys e) \<and>
     (\<forall>k x y. map_of d k = Some x \<longrightarrow> map_of e k = Some y \<longrightarrow> canon x = canon y)"
    then have none: "map_of d k = None \<longleftrightarrow> map_of e k = None" for k
      by (auto simp: keys_def map_of_eq_None_iff)
    have "map_option canon (map_of d k) = map_option canon (map_of e k)" for k
      using r none [of k] by (cases "map_of d k"; cases "map_of e k") auto
    then show "\<forall>k. map_option canon (map_of d k) = map_option canon (map_of e k)" by blast
  qed
  finally show ?thesis .
qed

lemma same_json_canon: "same_json v w \<Longrightarrow> plain v \<Longrightarrow> plain w \<Longrightarrow> canon v = canon w"
proof (induction rule: same_json.induct)
  case (same_list xs ys)
  then have "list_all2 (\<lambda>x y. canon x = canon y) xs ys"
    by (auto simp: list_all2_conv_all_nth list_all_iff)
  then show ?case by (simp add: list_all2_conv_all_nth list_eq_iff_nth_eq)
next
  case (same_dict d e)
  have "canon x = canon y" if "map_of d k = Some x" "map_of e k = Some y" for k x y
    using same_dict.IH [OF that] same_dict.prems that by (auto simp: list_all_iff dest!: map_of_SomeD)
  then show ?case using same_dict canon_dict_eq_iff [of d e] by simp
qed simp

lemma canon_same_json: "plain v \<Longrightarrow> plain w \<Longrightarrow> canon v = canon w \<Longrightarrow> same_json v w"
proof (induction v arbitrary: w)
  case (JList xs)
  obtain ys where w: "w = JList ys" using JList.prems(3) by (cases w) auto
  have "list_all2 same_json xs ys"
    using JList w by (auto simp: list_all2_conv_all_nth list_all_iff list_eq_iff_nth_eq)
  then show ?case by (simp add: w same_list)
next
  case (JDict d)
  obtain e where w: "w = JDict e" using JDict.prems(3) by (cases w) auto
  have eq: "set (keys d) = set (keys e)" and
    can: "\<And>k x y. map_of d k = Some x \<Longrightarrow> map_of e k = Some y \<Longrightarrow> canon x = canon y"
    using JDict.prems canon_dict_eq_iff [of d e] by (auto simp: w simp del: canon.simps)
  show ?case
    unfolding w
  proof (rule same_dict [OF eq])
    fix k x y
    assume xy: "map_of d k = Some x" "map_of e k = Some y"
    then have "(k, x) \<in> set d" "(k, y) \<in> set e" by (auto dest: map_of_SomeD)
    then show "same_json x y"
      using JDict.prems can [OF xy] w by (intro JDict.IH [of "(k, x)"]) (auto simp: list_all_iff)
  qed
next
  case JNull
  then show ?case by (cases w) (auto intro: same_refl)
next
  case (JBool b)
  then show ?case by (cases w) (auto intro: same_refl)
next
  case (JInt i)
  then show ?case by (cases w) (auto intro: same_refl)
next
  case (JStr s)
  then show ?case by (cases w) (auto intro: same_refl)
qed simp

lemma plain_canon: "plain v \<Longrightarrow> plain (canon v)"
  by (induction v) (auto simp: list_all_iff)

lemma canon_canon: "plain v \<Longrightarrow> canon (canon v) = canon v"
proof (induction v)
  case (JList xs)
  then show ?case by (simp add: list_all_iff)
next
  case (JDict d)
  have dist: "distinct (keys d)" using JDict.prems by simp
  have "map_of (map (\<lambda>(k, v). (k, canon v)) (sort_key fst (map (\<lambda>(k, v). (k, canon v)) d)))
      = map_of (map (\<lambda>(k, v). (k, canon v)) d)"
  proof (rule ext)
    fix k
    have "map_of (sort_key fst (map (\<lambda>(k, v). (k, canon v)) d)) = map_of (map (\<lambda>(k, v). (k, canon v)) d)"
      using dist by (intro map_of_sort_key) simp
    moreover have "map_option canon (map_option canon (map_of d k)) = map_option canon (map_of d k)"
      using JDict by (cases "map_of d k") (auto simp: list_all_iff dest!: map_of_SomeD)
    ultimately show "map_of (map (\<lambda>(k, v). (k, canon v)) (sort_key fst (map (\<lambda>(k, v). (k, canon v)) d))) k
      = map_of (map (\<lambda>(k, v). (k, canon v)) d) k"
      by (simp add: map_of_map_snd del: map_of_map)
  qed
  then show ?case using dist by (simp add: sort_members_eq_iff)
qed simp_all

lemma plain_finite: "plain v \<Longrightarrow> finite_tree v"
  by (induction v) (auto simp: list_all_iff)

lemma dump_canon_eq_iff: "plain v \<Longrightarrow> plain w \<Longrightarrow>
    dump a (canon v) = dump a (canon w) \<longleftrightarrow> same_json v w"
  using loads_dump [OF plain_canon, of v a] loads_dump [OF plain_canon, of w a]
    canon_same_json [of v w] same_json_canon [of v w] by (metis option.inject)

text \<open>
  C20: The canonical text of a float-free value reads back as that value with its members sorted, and two
  such values have the same canonical text exactly when they differ in the order of object members only:
  a digest of the text binds the whole value and nothing else.
\<close>
theorem canonical_text_binds_value:
  assumes "plain v" and "plain w"
  shows "canonical_json_text code v = Inr (dump False (canon v)) \<and>
     loads (dump False (canon v)) = Some (canon v) \<and> same_json v (canon v) \<and>
     (canonical_json_text code v = canonical_json_text code w \<longleftrightarrow> same_json v w)"
  using assms canon_same_json [OF assms(1) plain_canon [OF assms(1)]] canon_canon [OF assms(1)]
    loads_dump [OF plain_canon [OF assms(1)]]
  by (simp add: canonical_json_text_def plain_finite dump_canon_eq_iff)

definition example_record :: json where
  "example_record = JDict [(''b'', JList [JInt 1, JNull]), (''a'', JStr ''x'')]"

theorem canonical_text_binds_value_witness:
  "canonical_json_text ''e'' example_record = canonical_json_text ''e''
     (JDict [(''a'', JStr ''x''), (''b'', JList [JInt 1, JNull])])"
proof -
  have p: "plain example_record" "plain (canon example_record)" by code_simp+
  have "canon example_record = JDict [(''a'', JStr ''x''), (''b'', JList [JInt 1, JNull])]"
    by code_simp
  moreover from canonical_text_binds_value [OF p, of "''e''"]
  have "canonical_json_text ''e'' example_record = canonical_json_text ''e'' (canon example_record)"
    by blast
  ultimately show ?thesis by simp
qed

section \<open>Strict reading\<close>

text \<open>
  \<^verbatim>\<open>validate_tree\<close>: a worklist with the last pushed node on top counts nodes against 50000 and depths
  against 32.
\<close>

fun children :: "json \<Rightarrow> json list" where
  "children (JList xs) = xs"
| "children (JDict d) = map snd d"
| "children v = []"

fun node_count :: "json \<Rightarrow> nat" where
  "node_count (JList xs) = Suc (sum_list (map node_count xs))"
| "node_count (JDict d) = Suc (sum_list (map (\<lambda>(k, v). node_count v) d))"
| "node_count v = 1"

fun tree_depth :: "json \<Rightarrow> nat" where
  "tree_depth (JList xs) = fold max (map (\<lambda>x. Suc (tree_depth x)) xs) 0"
| "tree_depth (JDict d) = fold max (map (\<lambda>(k, v). Suc (tree_depth v)) d) 0"
| "tree_depth v = 0"

definition pending_nodes :: "(json \<times> nat) list \<Rightarrow> nat" where
  "pending_nodes ps = sum_list (map (node_count \<circ> fst) ps)"

lemma node_count_children: "node_count v = Suc (sum_list (map node_count (children v)))"
  by (cases v) (simp_all add: comp_def case_prod_unfold)

lemma pending_push:
  "pending_nodes (rev (map (\<lambda>c. (c, k)) cs) @ ps) = sum_list (map node_count cs) + pending_nodes ps"
  by (induction cs) (simp_all add: pending_nodes_def)

function validate_from :: "nat \<Rightarrow> nat \<Rightarrow> nat \<Rightarrow> (json \<times> nat) list \<Rightarrow> unit res" where
  "validate_from max_depth max_nodes nodes [] = Inr ()"
| "validate_from max_depth max_nodes nodes ((item, depth) # pending) =
     (if max_nodes < Suc nodes then Inl ''node_limit_exceeded''
      else if max_depth < depth then Inl ''depth_limit_exceeded''
      else validate_from max_depth max_nodes (Suc nodes)
             (rev (map (\<lambda>c. (c, Suc depth)) (children item)) @ pending))"
  by pat_completeness auto
termination
  by (relation "measure (\<lambda>(_, _, _, pending). pending_nodes pending)")
    (auto simp: pending_push, simp add: pending_nodes_def node_count_children)

definition validate_tree :: "json \<Rightarrow> unit res" where
  "validate_tree v = validate_from 32 50000 0 [(v, 0)]"

text \<open>
  \<^verbatim>\<open>strict_json_loads\<close> of the compaction formats and \<^verbatim>\<open>_strict_json_loads\<close> of the usage parser; the
  latter lets a number beyond the double range through as an infinite float.
\<close>

definition strict_json_loads :: "string \<Rightarrow> json res" where
  "strict_json_loads s = (case loads s of
      None \<Rightarrow> Inl ''invalid_json''
    | Some v \<Rightarrow> if \<not> finite_tree v then Inl ''invalid_json''
                else rbind (validate_tree v) (\<lambda>_. Inr v))"

text \<open>Bytes to text: the UTF-8 decoder, for characters up to U+00FF.\<close>

fun utf8_decode :: "string \<Rightarrow> string option" where
  "utf8_decode [] = Some []"
| "utf8_decode (b # bs) =
     (if ord_of b < 128 then map_option ((#) b) (utf8_decode bs)
      else if ord_of b \<in> {194, 195} then
        (case bs of
           c # cs \<Rightarrow> if 128 \<le> ord_of c \<and> ord_of c < 192
                    then map_option ((#) (char_of (64 * (ord_of b - 192) + (ord_of c - 128)))) (utf8_decode cs)
                    else None
         | [] \<Rightarrow> None)
      else None)"

lemma utf8_decode_encode [simp]: "utf8_decode (utf8_encode s) = Some s"
proof (induction s)
  case (Cons c s)
  show ?case
  proof (cases "ord_of c < 128")
    case True
    then show ?thesis using Cons by (simp add: utf8_encode_def utf8_char_def)
  next
    case False
    have small: "ord_of c < 256" by simp
    then have d: "ord_of c div 64 = 2 \<or> ord_of c div 64 = 3" using False by linarith
    have m: "ord_of c mod 64 < 64" by simp
    have "ord_of (char_of (192 + ord_of c div 64) :: char) = 192 + ord_of c div 64"
      "ord_of (char_of (128 + ord_of c mod 64) :: char) = 128 + ord_of c mod 64"
      using d m by (auto simp: ord_of_def)
    then show ?thesis using Cons False d m by (auto simp: utf8_encode_def utf8_char_def Let_def)
  qed
qed (simp add: utf8_encode_def)

text \<open>The worklist accepts a value exactly when it has at most 50000 nodes and nests at most 32 deep.\<close>

lemma fold_max_le_iff: "fold max xs (a :: nat) \<le> n \<longleftrightarrow> a \<le> n \<and> (\<forall>x \<in> set xs. x \<le> n)"
  by (induction xs arbitrary: a) auto

lemma tree_depth_children: "tree_depth v \<le> n \<longleftrightarrow> (\<forall>c \<in> set (children v). Suc (tree_depth c) \<le> n)"
  by (cases v) (auto simp: fold_max_le_iff)

lemma validate_from_iff:
  "nodes \<le> mn \<Longrightarrow> validate_from md mn nodes ps = Inr () \<longleftrightarrow>
     nodes + pending_nodes ps \<le> mn \<and> list_all (\<lambda>(v, d). d + tree_depth v \<le> md) ps"
proof (induction md mn nodes ps rule: validate_from.induct)
  case (1 md mn nodes)
  then show ?case by (simp add: pending_nodes_def)
next
  case (2 md mn nodes item depth pending)
  have depth_iff: "depth + tree_depth item \<le> md \<longleftrightarrow>
      depth \<le> md \<and> (\<forall>c \<in> set (children item). Suc depth + tree_depth c \<le> md)"
    using tree_depth_children [of item "md - depth"] by (cases "depth \<le> md") (auto simp: le_diff_conv2)
  have count: "pending_nodes ((item, depth) # pending)
      = Suc (sum_list (map node_count (children item)) + pending_nodes pending)"
    by (simp add: pending_nodes_def node_count_children)
  show ?case
  proof (cases "Suc nodes \<le> mn \<and> depth \<le> md")
    case True
    have "validate_from md mn nodes ((item, depth) # pending) = Inr () \<longleftrightarrow>
        Suc nodes + (sum_list (map node_count (children item)) + pending_nodes pending) \<le> mn \<and>
        (\<forall>c \<in> set (children item). Suc depth + tree_depth c \<le> md) \<and>
        list_all (\<lambda>(v, d). d + tree_depth v \<le> md) pending"
      using 2 True by (simp add: pending_push list_all_iff ball_Un)
    then show ?thesis using True count depth_iff by simp
  next
    case False
    then show ?thesis using count depth_iff by auto
  qed
qed

text \<open>
  C21: The worklist check of a decoded value agrees with the recursive reading of its bounds: it accepts
  exactly the values of at most 50000 nodes nested at most 32 deep.
\<close>
theorem validate_tree_iff:
  "is_ok (validate_tree v) = (node_count v \<le> 50000 \<and> tree_depth v \<le> 32)"
  using validate_from_iff [where nodes = 0 and mn = 50000 and md = 32 and ps = "[(v, 0)]"]
  by (simp add: is_ok_iff validate_tree_def pending_nodes_def del: validate_from.simps)

fun wf_json :: "json \<Rightarrow> bool" where
  "wf_json (JList xs) = list_all wf_json xs"
| "wf_json (JDict d) = (distinct (keys d) \<and> list_all (\<lambda>(k, v). wf_json v) d)"
| "wf_json v = True"

lemma parse_number_wf: "parse_number s = Some (v, rest) \<Longrightarrow> wf_json v"
  by (auto simp: parse_number_def Let_def split: list.splits if_splits prod.splits)

lemma parse_wf:
  "parse_value n s = Some (v, rest) \<Longrightarrow> wf_json v"
  "parse_items n s = Some (xs, rest) \<Longrightarrow> list_all wf_json xs"
  "parse_members n s = Some (d, rest) \<Longrightarrow> list_all (\<lambda>(k, v). wf_json v) d"
proof (induction n arbitrary: s v xs d rest)
  case (Suc n)
  {
    case 1
    then show ?case
      using Suc.IH(2,3) by (auto simp: unique_object_def dest: parse_number_wf
          split: list.splits if_splits option.splits)
  next
    case 2
    then show ?case
      using Suc.IH(1,2) by (auto split: list.splits if_splits option.splits)
  next
    case 3
    then show ?case
      using Suc.IH(1,3) by (auto split: list.splits if_splits option.splits)
  }
qed simp_all

text \<open>
  C22: What the strict decoder returns is well formed: no object has a repeated member name, every float
  is finite, and the value has at most 50000 nodes nested at most 32 deep; and a float-free value within
  these bounds is always read back from its canonical text.
\<close>
theorem strict_json_loads_sound:
  "(strict_json_loads s = Inr v \<longrightarrow>
      wf_json v \<and> finite_tree v \<and> node_count v \<le> 50000 \<and> tree_depth v \<le> 32) \<and>
   (plain w \<and> node_count w \<le> 50000 \<and> tree_depth w \<le> 32 \<longrightarrow>
      strict_json_loads (canonical_json w) = Inr w)"
proof -
  have loads_wf: "wf_json u" if "loads s = Some u" for u
    using that by (auto simp: loads_def simp del: parse_value.simps dest: parse_wf split: option.splits if_splits)
  have tree: "validate_tree u = Inr () \<longleftrightarrow> node_count u \<le> 50000 \<and> tree_depth u \<le> 32" for u
    using validate_from_iff [where nodes = 0 and mn = 50000 and md = 32 and ps = "[(u, 0)]"]
    by (simp add: validate_tree_def pending_nodes_def del: validate_from.simps)
  show ?thesis
    using loads_wf tree loads_dump [of w False] plain_finite [of w]
    by (auto simp: strict_json_loads_def canonical_json_def split: option.splits)
qed

theorem strict_json_loads_sound_witness:
  "strict_json_loads (canonical_json example_record) = Inr example_record \<and> wf_json example_record"
proof -
  have "plain example_record" "node_count example_record \<le> 50000" "tree_depth example_record \<le> 32"
    by code_simp+
  then show ?thesis
    using strict_json_loads_sound [of "canonical_json example_record" example_record example_record] by blast
qed

end
