(* ===== verification/Finance_Values.thy ===== *)
theory Finance_Values
  imports Py_Prelude
begin

text \<open>
  Exact accounting values (\<^verbatim>\<open>src/hormuz/finance_values.py\<close>): canonical decimal text, currency codes and
  provider amounts. A finite \<^verbatim>\<open>Decimal\<close> is its sign, coefficient and exponent; arithmetic under
  \<^verbatim>\<open>exact_context\<close> raises as soon as the exact result has more than 96 digits.
\<close>

section \<open>Decimals\<close>

datatype decimal = Dec (dec_neg: bool) (dec_coef: nat) (dec_exp: int)

fun dec_value :: "decimal \<Rightarrow> rat" where
  "dec_value (Dec s c e) = (if s then - 1 else 1) * of_nat c * pow10 e"

definition digit_count :: "nat \<Rightarrow> nat" where
  "digit_count n = length (nat_digits n)"

text \<open>
  The argument of \<^verbatim>\<open>decimal_text\<close>: a string, a finite \<^verbatim>\<open>Decimal\<close>, a \<^verbatim>\<open>Decimal\<close> that is infinite or not a
  number, or something else.
\<close>

datatype amount_arg = Text string | Exact decimal | Nonfinite | Other_Value

definition amount_error :: string where
  "amount_error = ''finance_invalid_amount''"

text \<open>
  The lexemes \<^verbatim>\<open>_DECIMAL\<close> and \<^verbatim>\<open>_OPENAI_PROVIDER_DECIMAL\<close> match: sign, integer part of at most 18 digits
  without leading zeros, and a fraction of at least one digit, at most \<open>frac_max\<close> if that is given.
\<close>

definition unsigned_part :: "string \<Rightarrow> string" where
  "unsigned_part s = (case s of c # cs \<Rightarrow> if c = CHR ''-'' then cs else s | [] \<Rightarrow> [])"

definition int_part :: "string \<Rightarrow> string" where
  "int_part s = takeWhile is_digit (unsigned_part s)"

definition frac_part :: "string \<Rightarrow> string" where
  "frac_part s = tl (dropWhile is_digit (unsigned_part s))"

definition decimal_shape :: "nat option \<Rightarrow> string \<Rightarrow> bool" where
  "decimal_shape frac_max s =
     (let ip = int_part s; rest = dropWhile is_digit (unsigned_part s); fp = frac_part s
      in ip \<noteq> [] \<and> (ip = ''0'' \<or> hd ip \<noteq> CHR ''0'' \<and> length ip \<le> 18) \<and>
         (rest = [] \<or> hd rest = CHR ''.'' \<and> fp \<noteq> [] \<and> list_all is_digit fp \<and>
            (case frac_max of None \<Rightarrow> True | Some m \<Rightarrow> length fp \<le> m)))"

definition decimal_of_text :: "string \<Rightarrow> decimal" where
  "decimal_of_text s = Dec (s \<noteq> [] \<and> hd s = CHR ''-'')
     (digits_value (int_part s @ frac_part s)) (- int (length (frac_part s)))"

text \<open>Removing the trailing zero digits of a coefficient that is not zero.\<close>

function trim :: "nat \<Rightarrow> int \<Rightarrow> nat \<times> int" where
  "trim c e = (if c = 0 \<or> c mod 10 \<noteq> 0 then (c, e) else trim (c div 10) (e + 1))"
  by pat_completeness auto
termination
  by (relation "measure fst") auto

declare trim.simps [simp del]

text \<open>\<^verbatim>\<open>format(d, "f")\<close>.\<close>

definition format_f :: "bool \<Rightarrow> nat \<Rightarrow> int \<Rightarrow> string" where
  "format_f s c e =
     (if s then ''-'' else []) @
     (let ds = nat_digits c; n = length ds; k = nat (- e)
      in if 0 \<le> e then ds @ replicate (nat e) (CHR ''0'')
         else if k < n then take (n - k) ds @ CHR ''.'' # drop (n - k) ds
         else ''0.'' @ replicate (k - n) (CHR ''0'') @ ds)"

definition rstrip_char :: "char \<Rightarrow> string \<Rightarrow> string" where
  "rstrip_char x s = rev (dropWhile (\<lambda>c. c = x) (rev s))"

definition drop_zero_fraction :: "string \<Rightarrow> string" where
  "drop_zero_fraction s =
     (if CHR ''.'' \<in> set s then rstrip_char (CHR ''.'') (rstrip_char (CHR ''0'') s) else s)"

section \<open>Canonical text\<close>

definition text_of_decimal :: "decimal \<Rightarrow> string res" where
  "text_of_decimal d = (case d of Dec s c e \<Rightarrow>
     if c = 0 then Inr ''0''
     else if 128 < digit_count c then Inl amount_error
     else (case trim c e of (c', e') \<Rightarrow>
       if e' < -18 \<or> 18 < int (digit_count c') + e' then Inl amount_error
       else Inr (drop_zero_fraction (format_f s c' e'))))"

definition decimal_text :: "amount_arg \<Rightarrow> string res" where
  "decimal_text v = (case v of
      Text s \<Rightarrow> if decimal_shape (Some 18) s then text_of_decimal (decimal_of_text s) else Inl amount_error
    | Exact d \<Rightarrow> text_of_decimal d
    | Nonfinite \<Rightarrow> Inl amount_error
    | Other_Value \<Rightarrow> Inl amount_error)"

definition provider_text_of_decimal :: "decimal \<Rightarrow> string res" where
  "provider_text_of_decimal d = (case d of Dec s c e \<Rightarrow>
     if 128 < digit_count c then Inl amount_error
     else if c = 0 then Inr ''0''
     else (case trim c e of (c', e') \<Rightarrow>
       if e' < -36 \<or> 18 < int (digit_count c') + e' \<or> 54 < digit_count c' then Inl amount_error
       else Inr (format_f s c' e')))"

definition openai_provider_decimal_text :: "amount_arg \<Rightarrow> string res" where
  "openai_provider_decimal_text v = (case v of
      Text s \<Rightarrow> if length s \<le> 128 \<and> decimal_shape None s then provider_text_of_decimal (decimal_of_text s)
                else Inl amount_error
    | Exact d \<Rightarrow> provider_text_of_decimal d
    | Nonfinite \<Rightarrow> Inl amount_error
    | Other_Value \<Rightarrow> Inl amount_error)"

section \<open>Currencies and provider amounts\<close>

definition upper_char :: "char \<Rightarrow> char" where
  "upper_char c = (if is_lower c then char_of (ord_of c - 32) else c)"

definition currency_code :: "json \<Rightarrow> string res" where
  "currency_code v = (case v of
      JStr s \<Rightarrow> if length s = 3 \<and> list_all (\<lambda>c. is_upper c \<or> is_lower c) s
                then Inr (map upper_char s) else Inl amount_error
    | _ \<Rightarrow> Inl amount_error)"

record provider_amount =
  pa_amount :: string
  pa_currency :: string
  pa_native_amount :: string
  pa_native_currency :: json
  pa_native_unit :: string

text \<open>
  Division by a power of ten under the exact context: the coefficient keeps its digits. Canonical
  amounts have at most 36 digits, far below the 96 the context traps at.
\<close>

definition divide_hundred :: "decimal \<Rightarrow> decimal" where
  "divide_hundred d = (case d of Dec s c e \<Rightarrow> Dec s c (e - 2))"

definition validate_amount :: "provider_amount \<Rightarrow> unit res" where
  "validate_amount p =
     rbind (decimal_text (Text (pa_amount p))) (\<lambda>a.
     rbind (if pa_amount p \<noteq> a then Inl amount_error else decimal_text (Text (pa_native_amount p))) (\<lambda>n.
     rbind (if pa_native_amount p \<noteq> n then Inl amount_error else currency_code (pa_native_currency p)) (\<lambda>c.
       if pa_currency p \<noteq> c then Inl amount_error
       else if pa_native_unit p = ''major_currency'' then
         if pa_amount p \<noteq> pa_native_amount p then Inl amount_error else Inr ()
       else if pa_native_unit p = ''fractional_cent'' \<and> pa_currency p = ''USD'' then
         rbind (decimal_text (Exact (divide_hundred (decimal_of_text (pa_native_amount p))))) (\<lambda>x.
           if pa_amount p \<noteq> x then Inl amount_error else Inr ())
       else Inl amount_error)))"

definition make_amount :: "provider_amount \<Rightarrow> provider_amount res" where
  "make_amount p = rbind (validate_amount p) (\<lambda>_. Inr p)"

text \<open>An OpenAI value is a \<^verbatim>\<open>Decimal\<close> or an \<^verbatim>\<open>int\<close>, an Anthropic value a string.\<close>

datatype provider_value = Of_Int int | Of_Arg amount_arg

definition int_decimal :: "int \<Rightarrow> decimal" where
  "int_decimal i = Dec (i < 0) (nat \<bar>i\<bar>) 0"

definition provider_amount_of :: "string \<Rightarrow> provider_value \<Rightarrow> json \<Rightarrow> provider_amount res" where
  "provider_amount_of provider value currency = rbind (currency_code currency) (\<lambda>code.
     if provider = ''openai'' then
       rbind (case value of
           Of_Int i \<Rightarrow> if \<bar>i\<bar> < 10 ^ 18 then decimal_text (Exact (int_decimal i)) else Inl amount_error
         | Of_Arg (Exact d) \<Rightarrow> decimal_text (Exact d)
         | Of_Arg _ \<Rightarrow> Inl amount_error) (\<lambda>native.
         make_amount \<lparr>pa_amount = native, pa_currency = code, pa_native_amount = native,
           pa_native_currency = currency, pa_native_unit = ''major_currency''\<rparr>)
     else if provider = ''anthropic'' then
       (case value of
          Of_Arg (Text s) \<Rightarrow>
            if code \<noteq> ''USD'' then Inl amount_error
            else rbind (decimal_text (Text s)) (\<lambda>native.
              rbind (decimal_text (Exact (divide_hundred (decimal_of_text native)))) (\<lambda>amount.
                make_amount \<lparr>pa_amount = amount, pa_currency = code, pa_native_amount = native,
                  pa_native_currency = currency, pa_native_unit = ''fractional_cent''\<rparr>))
        | _ \<Rightarrow> Inl amount_error)
     else Inl ''finance_unsupported_provider'')"

section \<open>Facts\<close>

lemma pow10_pos [simp]: "0 < pow10 e"
  by (simp add: pow10_def)

lemma pow10_Suc: "pow10 (e + 1) = 10 * pow10 e"
proof (cases "0 \<le> e")
  case True
  then show ?thesis by (simp add: pow10_def nat_add_distrib)
next
  case False
  then obtain n where n: "e = - int (Suc n)" by (metis negD not_le_imp_less)
  then show ?thesis by (cases n) (simp_all add: pow10_def nat_add_distrib)
qed

lemma pow10_add_nat: "pow10 (e + int n) = 10 ^ n * pow10 e"
proof (induction n)
  case (Suc n)
  have "pow10 (e + int (Suc n)) = pow10 ((e + int n) + 1)" by (simp add: ac_simps)
  then show ?case using Suc by (simp add: pow10_Suc)
qed simp

lemma trim_spec:
  "trim c e = (c', e') \<Longrightarrow> c \<noteq> 0 \<Longrightarrow>
     c' mod 10 \<noteq> 0 \<and> of_nat c' * pow10 e' = of_nat c * pow10 e \<and> e \<le> e'"
proof (induction c e rule: trim.induct)
  case (1 c e)
  show ?case
  proof (cases "c mod 10 = 0")
    case True
    then have c: "c = 10 * (c div 10)" "c div 10 \<noteq> 0" using 1(3) by auto
    have "c' mod 10 \<noteq> 0 \<and> of_nat c' * pow10 e' = of_nat (c div 10) * pow10 (e + 1) \<and> e + 1 \<le> e'"
      using 1 True c(2) by (simp add: trim.simps [of c e])
    moreover have "of_nat (c div 10) * pow10 (e + 1) = of_nat c * pow10 e"
      by (subst (2) c(1)) (simp add: pow10_Suc)
    ultimately show ?thesis by simp
  next
    case False
    then show ?thesis using 1(2) by (simp add: trim.simps [of c e])
  qed
qed

text \<open>A positive value has one coefficient without a trailing zero digit.\<close>

lemma trimmed_unique:
  assumes "of_nat c * pow10 e = of_nat c' * pow10 e'" and "c mod 10 \<noteq> 0" "c' mod 10 \<noteq> 0"
  shows "c = c' \<and> e = e'"
proof -
  have key: "c = c' \<and> e = e'" if eq: "of_nat c * pow10 e = of_nat c' * pow10 (e + int n)"
    "e' = e + int n" "c mod 10 \<noteq> 0" for c c' :: nat and e e' n
  proof -
    have "(of_nat c :: rat) = of_nat (c' * 10 ^ n)"
      using eq(1) by (simp add: pow10_add_nat) (metis (no_types, lifting) less_irrefl
          mult.left_commute mult.commute mult_cancel_right pow10_pos)
    then have "c = c' * 10 ^ n" using of_nat_eq_iff by blast
    then show ?thesis using eq(2,3) by (cases n) auto
  qed
  show ?thesis
  proof (cases "e \<le> e'")
    case True
    then show ?thesis using assms key [of c e c' "nat (e' - e)" e'] by simp
  next
    case False
    then show ?thesis using assms key [of c' e' c "nat (e - e')" e] by auto
  qed
qed

lemma digits_value_append:
  "digits_value (xs @ ys) = digits_value xs * 10 ^ length ys + digits_value ys"
proof (induction ys rule: rev_induct)
  case (snoc y ys)
  then show ?case using digits_value_append1 [of "xs @ ys" y] digits_value_append1 [of ys y]
    by (simp add: algebra_simps)
qed (simp add: digits_value_def)

lemma digits_value_zeros [simp]: "digits_value (replicate n (CHR ''0'')) = 0"
proof (induction n)
  case (Suc n)
  have "digits_value (CHR ''0'' # replicate n (CHR ''0'')) = digits_value (replicate n (CHR ''0'') @ [CHR ''0''])"
    by (simp add: replicate_append_same)
  then show ?case using Suc digits_value_append1 by (simp add: ord_of_def)
qed (simp add: digits_value_def)

lemma zero_digit [simp]: "is_digit (CHR ''0'')" "\<not> is_digit (CHR ''.'')" "\<not> is_digit (CHR ''-'')"
  by code_simp+

lemma hd_digits_nonzero: "n \<noteq> 0 \<Longrightarrow> hd (nat_digits n) \<noteq> CHR ''0''"
proof (induction n rule: nat_digits.induct)
  case (1 n)
  show ?case
  proof (cases "n < 10")
    case True
    have "ord_of (digit_char n) \<noteq> ord_of (CHR ''0'')" using True 1(2) by (simp add: ord_of_def digit_char_def)
    then show ?thesis using True by (metis list.sel(1) nat_digits.simps)
  next
    case False
    then show ?thesis using 1 by (simp add: nat_digits.simps [of n])
  qed
qed

lemma lexeme_parts:
  fixes s :: bool
  assumes ip: "ip \<noteq> []" "list_all is_digit ip" and fp: "list_all is_digit fp"
  defines "t \<equiv> (if s then ''-'' else []) @ ip @ (if fp = [] then [] else CHR ''.'' # fp)"
  shows "int_part t = ip" "frac_part t = fp"
    "dropWhile is_digit (unsigned_part t) = (if fp = [] then [] else CHR ''.'' # fp)"
    "t \<noteq> [] \<and> hd t = CHR ''-'' \<longleftrightarrow> s"
proof -
  obtain c cs where c: "ip = c # cs" "is_digit c" "list_all is_digit cs" using ip by (cases ip) auto
  then have minus: "c \<noteq> CHR ''-''" by (auto simp: is_digit_def ord_of_def)
  then have u: "unsigned_part t = ip @ (if fp = [] then [] else CHR ''.'' # fp)"
    by (simp add: t_def unsigned_part_def c(1))
  have run: "takeWhile is_digit (ip @ (if fp = [] then [] else CHR ''.'' # fp)) = ip"
    "dropWhile is_digit (ip @ (if fp = [] then [] else CHR ''.'' # fp))
      = (if fp = [] then [] else CHR ''.'' # fp)"
    using ip(2) by (simp_all add: takeWhile_append2 dropWhile_append2 list_all_iff)
  show "int_part t = ip" "frac_part t = fp"
    "dropWhile is_digit (unsigned_part t) = (if fp = [] then [] else CHR ''.'' # fp)"
    by (simp_all add: int_part_def frac_part_def u run)
  show "t \<noteq> [] \<and> hd t = CHR ''-'' \<longleftrightarrow> s"
    using minus by (simp add: t_def c(1))
qed

text \<open>The parts of a formatted coefficient.\<close>

lemma format_parts:
  assumes "c \<noteq> 0"
  obtains ip fp where "format_f s c e = (if s then ''-'' else []) @ ip @ (if fp = [] then [] else CHR ''.'' # fp)"
    "ip \<noteq> []" "list_all is_digit ip" "list_all is_digit fp"
    "ip = ''0'' \<or> hd ip \<noteq> CHR ''0''" "length ip = nat (max 1 (int (digit_count c) + e))"
    "length fp = nat (- e)" "of_nat (digits_value (ip @ fp)) * pow10 (- int (length fp)) = of_nat c * pow10 e"
    "fp \<noteq> [] \<Longrightarrow> last fp = last (nat_digits c)"
proof -
  let ?ds = "nat_digits c" let ?n = "length ?ds" let ?k = "nat (- e)"
  have dig: "list_all is_digit ?ds" by (rule nat_digits_digits)
  have n: "0 < ?n" by simp
  show thesis
  proof (cases "0 \<le> e")
    case True
    have v: "digits_value (?ds @ replicate (nat e) (CHR ''0'')) = c * 10 ^ nat e"
      by (simp add: digits_value_append)
    have "1 \<le> int ?n + e" using n True by linarith
    then have l: "nat (max 1 (int ?n + e)) = ?n + nat e"
      using True by (simp only: max_absorb2 nat_add_distrib nat_int of_nat_0_le_iff)
    show thesis
      by (rule that [of "?ds @ replicate (nat e) (CHR ''0'')" "[]"])
        (use True dig l v hd_digits_nonzero [OF assms] in
          \<open>auto simp: format_f_def Let_def digit_count_def list_all_iff pow10_def hd_append\<close>)
  next
    case False
    then have k: "- int ?k = e" "0 < ?k" by auto
    have pow: "pow10 (- int ?k) = pow10 e" using k(1) by simp
    show thesis
    proof (cases "?k < ?n")
      case True
      have "hd (take (?n - ?k) ?ds) = hd ?ds" using True n by (cases ?ds; cases "?n - ?k") auto
      moreover have "last (drop (?n - ?k) ?ds) = last ?ds" using k(2) by (simp add: last_drop)
      ultimately show thesis
        by (intro that [of "take (?n - ?k) ?ds" "drop (?n - ?k) ?ds"])
          (use False True dig k pow hd_digits_nonzero [OF assms] in
            \<open>auto simp: format_f_def Let_def digit_count_def list_all_iff dest: in_set_takeD in_set_dropD\<close>)
    next
      case False
      have "digits_value (''0'' @ replicate (?k - ?n) (CHR ''0'') @ ?ds) = c"
        using digits_value_zeros [of "Suc (?k - ?n)"]
        by (simp add: digits_value_append [of "CHR ''0'' # replicate (?k - ?n) (CHR ''0'')", simplified])
      then show thesis
        by (intro that [of "''0''" "replicate (?k - ?n) (CHR ''0'') @ ?ds"])
          (use False \<open>\<not> 0 \<le> e\<close> dig k pow in \<open>auto simp: format_f_def Let_def digit_count_def list_all_iff\<close>)
    qed
  qed
qed

lemma last_nat_digits: "last (nat_digits n) = digit_char (n mod 10)"
  by (subst nat_digits.simps) simp

lemma digit_char_zero: "d < 10 \<Longrightarrow> digit_char d = CHR ''0'' \<longleftrightarrow> d = 0"
proof
  assume "d < 10" "digit_char d = CHR ''0''"
  then have "48 + d = ord_of (CHR ''0'')" by (metis ord_digit_char)
  then show "d = 0" by (simp add: ord_of_def)
next
  assume "d = 0"
  moreover have "char_of (48 :: nat) = CHR ''0''" by code_simp
  ultimately show "digit_char d = CHR ''0''" by (simp add: digit_char_def)
qed

lemma rstrip_char_id: "s = [] \<or> last s \<noteq> x \<Longrightarrow> rstrip_char x s = s"
  by (cases s rule: rev_cases) (simp_all add: rstrip_char_def)

text \<open>
  The text of a trimmed coefficient within the bounds: it is an admitted lexeme, denotes the value, and
  the removal of zeros at its end changes nothing.
\<close>

lemma format_trimmed:
  assumes c: "c mod 10 \<noteq> 0" and e: "- int m \<le> e" "int (digit_count c) + e \<le> 18" and "1 \<le> m"
  shows "drop_zero_fraction (format_f s c e) = format_f s c e"
    "decimal_shape (Some m) (format_f s c e)" "decimal_shape None (format_f s c e)"
    "dec_neg (decimal_of_text (format_f s c e)) = s"
    "dec_value (decimal_of_text (format_f s c e)) = dec_value (Dec s c e)"
    "0 < dec_coef (decimal_of_text (format_f s c e))"
    "- int m \<le> dec_exp (decimal_of_text (format_f s c e))"
proof -
  have c0: "c \<noteq> 0" using c by auto
  obtain ip fp where f: "format_f s c e = (if s then ''-'' else []) @ ip @ (if fp = [] then [] else CHR ''.'' # fp)"
    "ip \<noteq> []" "list_all is_digit ip" "list_all is_digit fp" "ip = ''0'' \<or> hd ip \<noteq> CHR ''0''"
    "length ip = nat (max 1 (int (digit_count c) + e))" "length fp = nat (- e)"
    "of_nat (digits_value (ip @ fp)) * pow10 (- int (length fp)) = of_nat c * pow10 e"
    "fp \<noteq> [] \<Longrightarrow> last fp = last (nat_digits c)"
    by (rule format_parts [OF c0, of s e]) blast
  note parts = lexeme_parts [OF f(2-4), of s, folded f(1)]
  have len: "length ip \<le> 18" using f(6) e(2) by auto
  have flen: "length fp \<le> m" using f(7) e(1) by linarith
  show "decimal_shape (Some m) (format_f s c e)" "decimal_shape None (format_f s c e)"
    using f(2-5) parts len flen by (auto simp: decimal_shape_def Let_def)
  show neg: "dec_neg (decimal_of_text (format_f s c e)) = s"
    using parts(4) by (simp add: decimal_of_text_def)
  show v: "dec_value (decimal_of_text (format_f s c e)) = dec_value (Dec s c e)"
    using parts(1,2,4) f(8) by (simp add: decimal_of_text_def)
  show "0 < dec_coef (decimal_of_text (format_f s c e))"
  proof (rule ccontr)
    assume "\<not> 0 < dec_coef (decimal_of_text (format_f s c e))"
    then have "digits_value (ip @ fp) = 0" using parts(1,2) by (simp add: decimal_of_text_def)
    then show False using f(8) c0 by (simp add: less_imp_neq [OF pow10_pos, symmetric])
  qed
  show "- int m \<le> dec_exp (decimal_of_text (format_f s c e))"
    using parts(2) flen by (simp add: decimal_of_text_def)
  show "drop_zero_fraction (format_f s c e) = format_f s c e"
  proof (cases "fp = []")
    case True
    have "CHR ''.'' \<notin> set ip" using f(3) by (auto simp: list_all_iff)
    then show ?thesis using True f(1) by (auto simp: drop_zero_fraction_def)
  next
    case False
    then have last: "last (format_f s c e) = digit_char (c mod 10)"
      using f(1,9) by (simp add: last_nat_digits)
    then have "last (format_f s c e) \<noteq> CHR ''0''" using c by (simp add: digit_char_zero)
    moreover have "last (format_f s c e) \<noteq> CHR ''.''"
      using f(1,4) False by (auto simp: list_all_iff dest!: last_in_set)
    ultimately show ?thesis by (simp add: drop_zero_fraction_def rstrip_char_id)
  qed
qed

lemma text_of_decimal_cases:
  assumes "text_of_decimal (Dec s c e) = Inr t"
  obtains "c = 0" "t = ''0''"
  | c' e' where "c \<noteq> 0" "trim c e = (c', e')" "c' mod 10 \<noteq> 0" "-18 \<le> e'" "int (digit_count c') + e' \<le> 18"
      "of_nat c' * pow10 e' = of_nat c * pow10 e" "t = format_f s c' e'"
proof (cases "c = 0")
  case True
  then show ?thesis using assms that(1) by (simp add: text_of_decimal_def)
next
  case False
  obtain c' e' where t: "trim c e = (c', e')" by (cases "trim c e")
  then have spec: "c' mod 10 \<noteq> 0" "of_nat c' * pow10 e' = of_nat c * pow10 e"
    using trim_spec False by auto
  then have b: "-18 \<le> e'" "int (digit_count c') + e' \<le> 18" "t = drop_zero_fraction (format_f s c' e')"
    using assms False t by (auto simp: text_of_decimal_def split: if_splits)
  then show ?thesis
    using that(2) [OF False t spec(1) b(1,2) spec(2)] format_trimmed(1) [OF spec(1), of 18 e' s] by simp
qed

lemma zero_lexeme:
  "decimal_shape m ''0''" "decimal_of_text ''0'' = Dec False 0 0" "dec_value (decimal_of_text ''0'') = 0"
proof -
  show d: "decimal_of_text ''0'' = Dec False 0 0" by code_simp
  have "int_part ''0'' = ''0''" "dropWhile is_digit (unsigned_part ''0'') = []" by code_simp+
  then show "decimal_shape m ''0''" by (simp add: decimal_shape_def)
  show "dec_value (decimal_of_text ''0'') = 0" by (simp add: d)
qed

lemma dec_value_zero_iff: "dec_value (Dec s c e) = 0 \<longleftrightarrow> c = 0"
  using pow10_pos [of e] by (auto simp del: pow10_pos)

lemma text_denotes:
  assumes "text_of_decimal d = Inr t"
  shows "decimal_shape (Some 18) t" "dec_value (decimal_of_text t) = dec_value d"
proof -
  obtain s c e where d: "d = Dec s c e" by (cases d)
  from assms [unfolded d] have "decimal_shape (Some 18) t \<and> dec_value (decimal_of_text t) = dec_value d"
  proof (cases rule: text_of_decimal_cases)
    case 1
    then show ?thesis using zero_lexeme dec_value_zero_iff [of s c e] by (simp add: d)
  next
    case (2 c' e')
    then show ?thesis
      using format_trimmed(2,5) [of c' 18 e' s] by (simp add: d mult.assoc)
  qed
  then show "decimal_shape (Some 18) t" "dec_value (decimal_of_text t) = dec_value d" by auto
qed

lemma text_determined:
  assumes "text_of_decimal d = Inr t" "text_of_decimal d' = Inr t'" and "dec_value d = dec_value d'"
  shows "t = t'"
proof -
  obtain s c e where d: "d = Dec s c e" by (cases d)
  obtain s' c' e' where d': "d' = Dec s' c' e'" by (cases d')
  have zero: "c = 0 \<longleftrightarrow> c' = 0"
    using assms(3) dec_value_zero_iff [of s c e] dec_value_zero_iff [of s' c' e'] by (simp add: d d')
  show ?thesis
  proof (cases "c = 0")
    case True
    then show ?thesis using assms zero by (simp add: d d' text_of_decimal_def)
  next
    case False
    then have pos: "0 < of_nat c * pow10 e" "0 < of_nat c' * pow10 e'" using zero by simp_all
    then have sign: "s = s'" and mag: "of_nat c * pow10 e = of_nat c' * pow10 e'"
      using assms(3) by (auto simp: d d' mult.assoc split: if_splits)
    obtain a b where ab: "trim c e = (a, b)" "a mod 10 \<noteq> 0" "of_nat a * pow10 b = of_nat c * pow10 e"
      "t = format_f s a b"
      using assms(1) False by (auto simp: d elim!: text_of_decimal_cases)
    obtain a' b' where ab': "trim c' e' = (a', b')" "a' mod 10 \<noteq> 0"
      "of_nat a' * pow10 b' = of_nat c' * pow10 e'" "t' = format_f s' a' b'"
      using assms(2) False zero by (auto simp: d' elim!: text_of_decimal_cases)
    have "a = a' \<and> b = b'" using trimmed_unique [of a b a' b'] ab ab' mag by simp
    then show ?thesis using ab(4) ab'(4) sign by simp
  qed
qed

lemma trim_trimmed: "c mod 10 \<noteq> 0 \<Longrightarrow> trim c e = (c, e)"
  by (simp add: trim.simps [of c e])


lemma digits_value_less: "list_all is_digit ds \<Longrightarrow> digits_value ds < 10 ^ length ds"
proof (induction ds rule: rev_induct)
  case (snoc d ds)
  then have "ord_of d - 48 < 10" "digits_value ds < 10 ^ length ds" by (auto simp: is_digit_def)
  then show ?case by (simp add: digits_value_append1)
qed (simp add: digits_value_def)

lemma digit_count_le: "n < 10 ^ k \<Longrightarrow> 0 < k \<Longrightarrow> digit_count n \<le> k"
proof (induction n arbitrary: k rule: nat_digits.induct)
  case (1 n)
  show ?case
  proof (cases "n < 10")
    case True
    then show ?thesis using 1(3) by (simp add: digit_count_def nat_digits.simps [of n])
  next
    case False
    then obtain j where j: "k = Suc j" "0 < j" using 1(2,3) by (cases k; cases "k - 1") auto
    then have "n div 10 < 10 ^ j" using 1(2) by (simp add: less_mult_imp_div_less mult.commute)
    then show ?thesis using 1(1) [OF False] j False by (simp add: digit_count_def nat_digits.simps [of n])
  qed
qed

lemma lexeme_digit_count:
  assumes "decimal_shape (Some m) t" and "m \<le> 100"
  shows "digit_count (dec_coef (decimal_of_text t)) \<le> 128"
proof -
  let ?ds = "int_part t @ frac_part t"
  have ip: "int_part t \<noteq> []" "length (int_part t) \<le> 18" "list_all is_digit (int_part t)"
    using assms(1) by (auto simp: decimal_shape_def Let_def int_part_def list_all_iff dest: set_takeWhileD)
  have fp: "list_all is_digit (frac_part t)" "length (frac_part t) \<le> m"
    using assms(1) by (cases "dropWhile is_digit (unsigned_part t)";
        auto simp: decimal_shape_def Let_def frac_part_def simp del: dropWhile_eq_Nil_conv)+
  have "digits_value ?ds < 10 ^ length ?ds" using ip fp by (intro digits_value_less) simp
  moreover have "0 < length ?ds" using ip(1) by simp
  ultimately have "digit_count (digits_value ?ds) \<le> length ?ds" by (rule digit_count_le)
  then show ?thesis using ip(2) fp(2) assms(2) by (simp add: decimal_of_text_def)
qed

lemma text_idempotent:
  assumes "text_of_decimal d = Inr t"
  shows "decimal_text (Text t) = Inr t"
proof -
  obtain s c e where d: "d = Dec s c e" by (cases d)
  have shape: "decimal_shape (Some 18) t" and val: "dec_value (decimal_of_text t) = dec_value d"
    using text_denotes [OF assms] by auto
  obtain s' k x where t: "decimal_of_text t = Dec s' k x" by (cases "decimal_of_text t")
  have few: "digit_count k \<le> 128" using lexeme_digit_count [OF shape] t by simp
  have "\<exists>u. text_of_decimal (decimal_of_text t) = Inr u"
  proof (cases "k = 0")
    case True
    then show ?thesis by (simp add: t text_of_decimal_def)
  next
    case False
    then have c: "c \<noteq> 0" using val dec_value_zero_iff [of s c e] dec_value_zero_iff [of s' k x] by (simp add: t d)
    obtain a b where ab: "trim c e = (a, b)" "a mod 10 \<noteq> 0" "-18 \<le> b" "int (digit_count a) + b \<le> 18"
      "of_nat a * pow10 b = of_nat c * pow10 e"
      using assms c by (auto simp: d elim!: text_of_decimal_cases)
    obtain k' x' where kx: "trim k x = (k', x')" by (cases "trim k x")
    have pos: "0 < of_nat c * pow10 e" "0 < of_nat k * pow10 x" using False c by simp_all
    then have "of_nat k * pow10 x = of_nat c * pow10 e"
      using val by (auto simp: t d mult.assoc split: if_splits)
    then have "k' = a \<and> x' = b"
      using trim_spec [OF kx False] ab(2,5) trimmed_unique [of k' x' a b] by simp
    then show ?thesis using few kx ab(3,4) False by (simp add: t text_of_decimal_def)
  qed
  then obtain u where u: "text_of_decimal (decimal_of_text t) = Inr u" by blast
  then have "u = t" using text_determined [OF u assms val] by simp
  then show ?thesis using u shape by (simp add: decimal_text_def)
qed

fun arg_value :: "amount_arg \<Rightarrow> rat" where
  "arg_value (Text s) = dec_value (decimal_of_text s)"
| "arg_value (Exact d) = dec_value d"
| "arg_value _ = 0"

lemma decimal_text_source:
  "decimal_text v = Inr t \<Longrightarrow> \<exists>d. text_of_decimal d = Inr t \<and> arg_value v = dec_value d"
  by (cases v) (auto simp: decimal_text_def)

text \<open>
  C23: Canonical money text is exact and unique: the text denotes the value it was made from, canonical
  text is left as it is, and two accepted amounts have the same text exactly when they are equal, however
  they were written.
\<close>
theorem decimal_text_canonical:
  assumes "decimal_text v = Inr t" and "decimal_text w = Inr u"
  shows "decimal_text (Text t) = Inr t \<and> arg_value (Text t) = arg_value v \<and>
     (t = u \<longleftrightarrow> arg_value v = arg_value w)"
proof -
  obtain d where d: "text_of_decimal d = Inr t" "arg_value v = dec_value d"
    using decimal_text_source [OF assms(1)] by blast
  obtain d' where d': "text_of_decimal d' = Inr u" "arg_value w = dec_value d'"
    using decimal_text_source [OF assms(2)] by blast
  show ?thesis
    using text_idempotent [OF d(1)] text_denotes(2) [OF d(1)] text_denotes(2) [OF d'(1)]
      text_determined [OF d(1) d'(1)] d(2) d'(2) by auto
qed

theorem decimal_text_canonical_witness:
  "decimal_text (Text ''-12.50'') = Inr ''-12.5'' \<and>
   decimal_text (Text ''-12.5'') = Inr ''-12.5'' \<and> arg_value (Text ''-12.50'') = arg_value (Exact (Dec True 125 (-1)))"
proof -
  have "decimal_text (Text ''-12.50'') = Inr ''-12.5''" "decimal_text (Exact (Dec True 125 (-1))) = Inr ''-12.5''"
    by code_simp+
  from decimal_text_canonical [OF this] this show ?thesis by simp
qed

lemma divide_hundred_value: "dec_value (divide_hundred d) * 100 = dec_value d"
proof (cases d)
  case (Dec s c e)
  have "pow10 e = 100 * pow10 (e - 2)" using pow10_add_nat [of "e - 2" 2] by simp
  then show ?thesis by (simp add: Dec divide_hundred_def)
qed



end
