(* ===== verification/Finance_Attempts.thy ===== *)
theory Finance_Attempts
  imports Json_Text Finance_Values
begin

text \<open>
  Finance evidence of one provider attempt (\<^verbatim>\<open>src/hormuz/finance_attempts.py\<close>): the accumulator of
  provider-native usage, its normalisation and validation, the configured-route estimate, and the event
  record that binds them. SHA-256 is the argument \<open>sha\<close>, from the bytes to the hexadecimal digest.
\<close>

definition max_integer :: int where
  "max_integer = 9223372036854775807"

definition evidence_error :: string where
  "evidence_error = ''finance_attempt_evidence_invalid''"

datatype protocol = OpenAI | Anthropic

definition profile :: "protocol \<Rightarrow> string" where
  "profile p = (case p of OpenAI \<Rightarrow> ''openai.responses.usage.v1'' | Anthropic \<Rightarrow> ''anthropic.messages.usage.v1'')"

definition required_paths :: "protocol \<Rightarrow> string list" where
  "required_paths p = (case p of
      OpenAI \<Rightarrow> [''input_tokens'', ''output_tokens'', ''total_tokens'']
    | Anthropic \<Rightarrow> [''input_tokens'', ''output_tokens''])"

definition integer_paths :: "protocol \<Rightarrow> string list" where
  "integer_paths p = (case p of
      OpenAI \<Rightarrow> [''input_tokens'', ''input_tokens_details.cached_tokens'',
        ''input_tokens_details.cache_write_tokens'', ''output_tokens'',
        ''output_tokens_details.reasoning_tokens'', ''total_tokens'']
    | Anthropic \<Rightarrow> [''input_tokens'', ''cache_read_input_tokens'', ''cache_creation_input_tokens'',
        ''cache_creation.ephemeral_5m_input_tokens'', ''cache_creation.ephemeral_1h_input_tokens'',
        ''output_tokens'', ''output_tokens_details.thinking_tokens'',
        ''server_tool_use.web_search_requests'', ''server_tool_use.web_fetch_requests''])"

text \<open>A dimension and the values it may take; \<open>None\<close> allows any identifier.\<close>

definition dimension_paths :: "protocol \<Rightarrow> (string \<times> string list option) list" where
  "dimension_paths p = (case p of
      OpenAI \<Rightarrow> [(''service_tier'', Some [''default'', ''flex'', ''priority'', ''ultrafast''])]
    | Anthropic \<Rightarrow> [(''service_tier'', Some [''standard'', ''priority'', ''batch'']), (''inference_geo'', None)])"

definition unknown_reasons :: "string list" where
  "unknown_reasons = [''stale_pending'', ''provider_transport_ambiguous'', ''provider_stream_interrupted'']"

definition observation_reasons :: "string list" where
  "observation_reasons = unknown_reasons @
     [''provider_usage_absent'', ''provider_usage_incomplete'', ''provider_usage_invalid'']"

definition estimate_reasons :: "string list" where
  "estimate_reasons = [''estimated'', ''missing_native_usage'', ''invalid_native_usage'',
     ''estimate_outside_precision'', ''attempt_outcome_unknown'']"

section \<open>Bounded values\<close>

definition identifier_char :: "char \<Rightarrow> bool" where
  "identifier_char c = (is_alnum c \<or> c \<in> set ''._:-'')"

definition identifier_text :: "string \<Rightarrow> bool" where
  "identifier_text s = (s \<noteq> [] \<and> length s \<le> 128 \<and> is_alnum (hd s) \<and> list_all identifier_char (tl s))"

definition ident :: "json \<Rightarrow> string res" where
  "ident v = (case v of JStr s \<Rightarrow> if identifier_text s then Inr s else Inl evidence_error
    | _ \<Rightarrow> Inl evidence_error)"

definition uuid_ident :: "json \<Rightarrow> string res" where
  "uuid_ident v = (case v of JStr s \<Rightarrow> if length s \<le> 128 \<and> uuid_text s then Inr s else Inl evidence_error
    | _ \<Rightarrow> Inl evidence_error)"

definition organization_text :: "json \<Rightarrow> string res" where
  "organization_text v = (case v of
      JStr s \<Rightarrow> if len_between 1 128 s \<and> list_all (\<lambda>c. c \<notin> {CHR 0x00, CHR 0x0D, CHR 0x0A}) s
                then Inr s else Inl evidence_error
    | _ \<Rightarrow> Inl evidence_error)"

definition timestamp_text :: "json \<Rightarrow> string res" where
  "timestamp_text v = (case v of JStr s \<Rightarrow> if length s \<le> 40 \<and> utc_timestamp s then Inr s else Inl evidence_error
    | _ \<Rightarrow> Inl evidence_error)"

definition in_counter_range :: "int \<Rightarrow> bool" where
  "in_counter_range i = (0 \<le> i \<and> i \<le> max_integer)"

fun counter_ok :: "bool \<Rightarrow> json \<Rightarrow> bool" where
  "counter_ok optional JNull = optional"
| "counter_ok optional (JInt i) = in_counter_range i"
| "counter_ok optional v = False"

text \<open>\<^verbatim>\<open>v == 1\<close>: the Python values equal to one.\<close>

fun equals_one :: "json \<Rightarrow> bool" where
  "equals_one (JInt i) = (i = 1)"
| "equals_one (JBool b) = b"
| "equals_one (JFloat q) = (q = 1)"
| "equals_one v = False"

section \<open>Normalised usage\<close>

record normalized_usage =
  nz_input :: "int option"
  nz_output :: "int option"
  nz_cache_read :: "int option"
  nz_cache_write :: "int option"
  nz_cache_5m :: "int option"
  nz_cache_1h :: "int option"
  nz_reasoning :: "int option"
  nz_total :: "int option"
  nz_billable_input :: "int option"
  nz_billable_output :: "int option"
  nz_server_tools :: "int option"
  nz_service_tier :: "string option"
  nz_inference_geo :: "string option"

definition int_value :: "jdict \<Rightarrow> string \<Rightarrow> int option" where
  "int_value values name = (case map_of values name of Some (JInt i) \<Rightarrow> Some i | _ \<Rightarrow> None)"

definition string_value :: "jdict \<Rightarrow> string \<Rightarrow> string option" where
  "string_value values name = (case map_of values name of Some (JStr s) \<Rightarrow> Some s | _ \<Rightarrow> None)"

definition checked_sum :: "int option list \<Rightarrow> int option" where
  "checked_sum vs = (if None \<in> set vs then None
     else let total = sum_list (map the vs) in if total \<le> max_integer then Some total else None)"

definition above :: "int option \<Rightarrow> int \<Rightarrow> bool" where
  "above v bound = (case v of Some i \<Rightarrow> bound < i | None \<Rightarrow> False)"

definition unless_above :: "int \<Rightarrow> int option \<Rightarrow> int option" where
  "unless_above bound v = (if above v bound then None else v)"

definition normalize_native_values :: "protocol \<Rightarrow> jdict \<Rightarrow> normalized_usage \<times> bool" where
  "normalize_native_values p values =
     (let inp = int_value values ''input_tokens'';
          out = int_value values ''output_tokens'';
          read0 = int_value values (case p of OpenAI \<Rightarrow> ''input_tokens_details.cached_tokens''
                                            | Anthropic \<Rightarrow> ''cache_read_input_tokens'');
          write0 = int_value values (case p of OpenAI \<Rightarrow> ''input_tokens_details.cache_write_tokens''
                                             | Anthropic \<Rightarrow> ''cache_creation_input_tokens'');
          m5 = int_value values ''cache_creation.ephemeral_5m_input_tokens'';
          h1 = int_value values ''cache_creation.ephemeral_1h_input_tokens'';
          reasoning = int_value values (case p of OpenAI \<Rightarrow> ''output_tokens_details.reasoning_tokens''
                                                | Anthropic \<Rightarrow> ''output_tokens_details.thinking_tokens'');
          (total, read, write, cache5, cache1, invalid1) =
            (case p of
               OpenAI \<Rightarrow>
                 let total0 = int_value values ''total_tokens'';
                     wrong = (case (total0, inp, out) of
                         (Some t, Some i, Some j) \<Rightarrow> t \<noteq> i + j | _ \<Rightarrow> False);
                     over = (case inp of Some i \<Rightarrow> above read0 i \<or> above write0 i | None \<Rightarrow> False)
                 in (if wrong then None else total0,
                     if over then unless_above (the inp) read0 else read0,
                     if over then unless_above (the inp) write0 else write0,
                     m5, h1, wrong \<or> over)
             | Anthropic \<Rightarrow>
                 let total0 = checked_sum [inp, read0, write0, out];
                     overflow = (None \<notin> {inp, read0, write0, out} \<and> total0 = None);
                     both = (m5 \<noteq> None \<and> h1 \<noteq> None \<and> write0 \<noteq> None);
                     split = (both \<and> the m5 + the h1 \<noteq> the write0);
                     over = (\<not> both \<and> write0 \<noteq> None \<and> (above m5 (the write0) \<or> above h1 (the write0)))
                 in (total0, read0, write0,
                     if split then None else if over then unless_above (the write0) m5 else m5,
                     if split then None else if over then unless_above (the write0) h1 else h1,
                     overflow \<or> split \<or> over));
          search = int_value values ''server_tool_use.web_search_requests'';
          fetch = int_value values ''server_tool_use.web_fetch_requests'';
          tools = checked_sum [search, fetch]
      in (\<lparr>nz_input = inp, nz_output = out, nz_cache_read = read, nz_cache_write = write,
           nz_cache_5m = cache5, nz_cache_1h = cache1, nz_reasoning = reasoning, nz_total = total,
           nz_billable_input = None, nz_billable_output = None, nz_server_tools = tools,
           nz_service_tier = string_value values ''service_tier'',
           nz_inference_geo = string_value values ''inference_geo''\<rparr>,
          invalid1 \<or> (search \<noteq> None \<and> fetch \<noteq> None \<and> tools = None)))"

section \<open>Native payload\<close>

fun put_path :: "string list \<Rightarrow> json \<Rightarrow> jdict \<Rightarrow> jdict res" where
  "put_path [] v d = Inl evidence_error"
| "put_path [m] v d = Inr (dict_set m v d)"
| "put_path (m # ms) v d =
     (case map_of d m of
        None \<Rightarrow> rbind (put_path ms v []) (\<lambda>c. Inr (dict_set m (JDict c) d))
      | Some (JDict c) \<Rightarrow> rbind (put_path ms v c) (\<lambda>c'. Inr (dict_set m (JDict c') d))
      | Some _ \<Rightarrow> Inl evidence_error)"

fun nest :: "jdict \<Rightarrow> jdict \<Rightarrow> jdict res" where
  "nest [] tree = Inr tree"
| "nest ((path, v) # ps) tree = rbind (put_path (split_on (CHR ''.'') path) v tree) (nest ps)"

definition native_payload :: "jdict \<Rightarrow> string res" where
  "native_payload values = rbind (nest (sort_key fst values) []) (\<lambda>tree.
     let payload = dump True (canon (JDict tree))
     in if len_between 1 16384 payload then Inr payload else Inl evidence_error)"

text \<open>The validator's walk over a decoded payload, with the values found so far.\<close>

definition leaf_paths :: "protocol \<Rightarrow> string list" where
  "leaf_paths p = integer_paths p @ keys (dimension_paths p)"

definition container_paths :: "protocol \<Rightarrow> string list" where
  "container_paths p = concat (map (\<lambda>path.
     let ws = split_on (CHR ''.'') path in map (\<lambda>n. join ''.'' (take n ws)) [1..<length ws]) (leaf_paths p))"

definition extend_path :: "string \<Rightarrow> string \<Rightarrow> string" where
  "extend_path prefix m = (if prefix = [] then m else prefix @ ''.'' @ m)"

definition dimension_ok :: "string list option \<Rightarrow> json \<Rightarrow> bool" where
  "dimension_ok allowed v = (case v of
      JStr s \<Rightarrow> identifier_text s \<and> (case allowed of None \<Rightarrow> True | Some xs \<Rightarrow> s \<in> set xs)
    | _ \<Rightarrow> False)"

fun walk_node :: "protocol \<Rightarrow> string \<Rightarrow> json \<Rightarrow> jdict \<Rightarrow> jdict res"
and walk_members :: "protocol \<Rightarrow> string \<Rightarrow> jdict \<Rightarrow> jdict \<Rightarrow> jdict res" where
  "walk_node p prefix (JDict d) values =
     (if d = [] then Inl evidence_error else walk_members p prefix d values)"
| "walk_node p prefix v values = Inl evidence_error"
| "walk_members p prefix [] values = Inr values"
| "walk_members p prefix ((m, item) # ms) values =
     (let path = extend_path prefix m in
        rbind (if path \<in> set (integer_paths p) then
                 (case item of JInt i \<Rightarrow> if in_counter_range i then Inr (dict_set path item values)
                                         else Inl evidence_error
                  | _ \<Rightarrow> Inl evidence_error)
               else (case map_of (dimension_paths p) path of
                   Some allowed \<Rightarrow> if dimension_ok allowed item then Inr (dict_set path item values)
                                   else Inl evidence_error
                 | None \<Rightarrow> if path \<in> set (container_paths p) then walk_node p path item values
                           else Inl evidence_error))
              (\<lambda>values'. walk_members p prefix ms values'))"

definition payload_values :: "protocol \<Rightarrow> json \<Rightarrow> jdict res" where
  "payload_values p payload = walk_node p [] payload []"

section \<open>Observations\<close>

text \<open>
  The members of an observation arrive from stored rows too, so they are Python values; the eleven
  counters and two dimensions are the last member.
\<close>

record native_observation =
  no_schema_id :: json
  no_schema_version :: json
  no_state :: json
  no_reason :: json
  no_payload :: json
  no_digest :: json
  no_counters :: "json list"
  no_dimensions :: "json list"

definition opt_int :: "int option \<Rightarrow> json" where
  "opt_int v = (case v of None \<Rightarrow> JNull | Some i \<Rightarrow> JInt i)"

definition opt_str :: "string option \<Rightarrow> json" where
  "opt_str v = (case v of None \<Rightarrow> JNull | Some s \<Rightarrow> JStr s)"

definition usage_counters :: "normalized_usage \<Rightarrow> json list" where
  "usage_counters u = map opt_int [nz_input u, nz_output u, nz_cache_read u, nz_cache_write u, nz_cache_5m u,
     nz_cache_1h u, nz_reasoning u, nz_total u, nz_billable_input u, nz_billable_output u, nz_server_tools u]"

definition usage_dimensions :: "normalized_usage \<Rightarrow> json list" where
  "usage_dimensions u = map opt_str [nz_service_tier u, nz_inference_geo u]"

definition protocol_of_profile :: "json \<Rightarrow> protocol option" where
  "protocol_of_profile v = (if v = JStr (profile OpenAI) then Some OpenAI
     else if v = JStr (profile Anthropic) then Some Anthropic else None)"

definition payload_evidence_ok :: "(string \<Rightarrow> string) \<Rightarrow> protocol \<Rightarrow> native_observation \<Rightarrow> bool" where
  "payload_evidence_ok sha p ob =
     (case no_payload ob of
        JStr text \<Rightarrow>
          let bytes = utf8_encode text in
          len_between 1 16384 bytes \<and>
          (case loads text of
             None \<Rightarrow> False
           | Some parsed \<Rightarrow>
              (case payload_values p parsed of
                 Inl _ \<Rightarrow> False
               | Inr values \<Rightarrow>
                   let (u, invalid) = normalize_native_values p values;
                       present = list_all (\<lambda>path. has_key values path) (required_paths p)
                   in dump True (canon parsed) = text \<and>
                      no_digest ob = JStr (sha bytes) \<and> is_hex64 (sha bytes) \<and>
                      no_counters ob = usage_counters u \<and> no_dimensions ob = usage_dimensions u \<and>
                      (no_state ob = JStr ''complete'' \<longrightarrow> present \<and> \<not> invalid) \<and>
                      (no_reason ob = JStr ''provider_usage_incomplete'' \<longrightarrow> \<not> present \<and> \<not> invalid)))
      | _ \<Rightarrow> False)"

definition validate_observation :: "(string \<Rightarrow> string) \<Rightarrow> native_observation \<Rightarrow> unit res" where
  "validate_observation sha ob =
     (case protocol_of_profile (no_schema_id ob) of
        None \<Rightarrow> Inl evidence_error
      | Some p \<Rightarrow>
         if \<not> equals_one (no_schema_version ob)
            \<or> \<not> str_in (no_state ob) [''complete'', ''partial'', ''absent'']
            \<or> \<not> list_all (counter_ok True) (no_counters ob)
            \<or> \<not> list_all (\<lambda>v. v = JNull \<or> is_ok (ident v)) (no_dimensions ob)
            \<or> (if no_state ob = JStr ''complete'' then no_reason ob \<noteq> JNull \<or> no_payload ob = JNull
               else \<not> str_in (no_reason ob) observation_reasons)
            \<or> no_state ob = JStr ''partial'' \<and> no_reason ob = JStr ''provider_usage_absent''
            \<or> no_state ob = JStr ''absent'' \<and> no_reason ob = JStr ''provider_usage_incomplete''
         then Inl evidence_error
         else if no_state ob = JStr ''absent'' then
           if no_payload ob \<noteq> JNull \<or> no_digest ob \<noteq> JNull
              \<or> \<not> list_all (\<lambda>v. v = JNull) (no_counters ob @ no_dimensions ob)
           then Inl evidence_error else Inr ()
         else if payload_evidence_ok sha p ob then Inr () else Inl evidence_error)"

text \<open>Every construction of an observation validates it.\<close>

definition make_observation :: "(string \<Rightarrow> string) \<Rightarrow> native_observation \<Rightarrow> native_observation res" where
  "make_observation sha ob = rbind (validate_observation sha ob) (\<lambda>_. Inr ob)"

definition absent_observation :: "(string \<Rightarrow> string) \<Rightarrow> protocol \<Rightarrow> string \<Rightarrow> native_observation res" where
  "absent_observation sha p reason = make_observation sha
     \<lparr>no_schema_id = JStr (profile p), no_schema_version = JInt 1, no_state = JStr ''absent'',
      no_reason = JStr reason, no_payload = JNull, no_digest = JNull,
      no_counters = replicate 11 JNull, no_dimensions = replicate 2 JNull\<rparr>"

definition unknown_observation :: "(string \<Rightarrow> string) \<Rightarrow> protocol \<Rightarrow> native_observation option \<Rightarrow> string
    \<Rightarrow> native_observation res" where
  "unknown_observation sha p ob reason =
     (if reason \<notin> set unknown_reasons then Inl evidence_error
      else case ob of
          None \<Rightarrow> absent_observation sha p reason
        | Some x \<Rightarrow> if no_state x = JStr ''absent'' then absent_observation sha p reason
                    else make_observation sha (x\<lparr>no_state := JStr ''partial'', no_reason := JStr reason\<rparr>))"

section \<open>Accumulator\<close>

record accumulator =
  ac_protocol :: protocol
  ac_values :: jdict
  ac_invalid :: bool
  ac_saw_usage :: bool

definition new_accumulator :: "protocol \<Rightarrow> accumulator" where
  "new_accumulator p = \<lparr>ac_protocol = p, ac_values = [], ac_invalid = False, ac_saw_usage = False\<rparr>"

definition note_parse_failure :: "accumulator \<Rightarrow> accumulator" where
  "note_parse_failure a = a\<lparr>ac_invalid := True\<rparr>"

text \<open>The value at a path: absent, present with its value, or present with the wrong shape (\<open>JNull\<close>).\<close>

fun path_value :: "json \<Rightarrow> string list \<Rightarrow> json option" where
  "path_value v [] = Some v"
| "path_value (JDict d) (m # ms) =
     (case map_of d m of
        None \<Rightarrow> None
      | Some v \<Rightarrow> if ms \<noteq> [] \<and> \<not> is_dict v then Some JNull else path_value v ms)"
| "path_value v (m # ms) = Some JNull"

definition reject_path :: "string \<Rightarrow> accumulator \<Rightarrow> accumulator" where
  "reject_path path a = a\<lparr>ac_values := dict_del path (ac_values a), ac_invalid := True\<rparr>"

definition observe_integer :: "string \<Rightarrow> json option \<Rightarrow> accumulator \<Rightarrow> accumulator" where
  "observe_integer path v a = (case v of
      None \<Rightarrow> a
    | Some (JInt i) \<Rightarrow> if in_counter_range i then a\<lparr>ac_values := dict_set path (JInt i) (ac_values a)\<rparr>
                       else reject_path path a
    | Some _ \<Rightarrow> reject_path path a)"

definition observe_dimension :: "string \<Rightarrow> json option \<Rightarrow> accumulator \<Rightarrow> accumulator" where
  "observe_dimension path v a = (case v of
      None \<Rightarrow> a
    | Some x \<Rightarrow> (case map_of (dimension_paths (ac_protocol a)) path of
        None \<Rightarrow> a
      | Some allowed \<Rightarrow> if dimension_ok allowed x then a\<lparr>ac_values := dict_set path x (ac_values a)\<rparr>
                        else reject_path path a))"

definition observe_paths :: "string list \<Rightarrow> json \<Rightarrow> accumulator \<Rightarrow> accumulator" where
  "observe_paths paths usage a =
     fold (\<lambda>path. observe_integer path (path_value usage (split_on (CHR ''.'') path))) paths a"

definition observe_usage :: "json option \<Rightarrow> accumulator \<Rightarrow> accumulator" where
  "observe_usage usage a = (case usage of
      None \<Rightarrow> a
    | Some (JDict d) \<Rightarrow>
        observe_paths (sort (integer_paths (ac_protocol a))) (JDict d) (a\<lparr>ac_saw_usage := True\<rparr>)
    | Some _ \<Rightarrow> a\<lparr>ac_invalid := True\<rparr>)"

definition observe_openai_response :: "json \<Rightarrow> accumulator \<Rightarrow> accumulator" where
  "observe_openai_response response a = (case response of
      JDict r \<Rightarrow> observe_dimension ''service_tier'' (map_of r ''service_tier'')
                   (observe_usage (map_of r ''usage'') a)
    | _ \<Rightarrow> a\<lparr>ac_invalid := True\<rparr>)"

definition is_output_path :: "string \<Rightarrow> bool" where
  "is_output_path path = (path = ''output_tokens'' \<or>
     hd (split_on (CHR ''.'') path) \<in> {''output_tokens_details'', ''server_tool_use''} \<and>
     length (split_on (CHR ''.'') path) > 1)"

definition observe_anthropic_usage :: "json option \<Rightarrow> bool \<Rightarrow> bool \<Rightarrow> bool \<Rightarrow> accumulator \<Rightarrow> accumulator" where
  "observe_anthropic_usage usage observe_input observe_output replace_output a0 =
     (let a = (if replace_output
               then a0\<lparr>ac_values := filter (\<lambda>(path, _). \<not> is_output_path path) (ac_values a0)\<rparr> else a0)
      in case usage of
           None \<Rightarrow> if replace_output then a\<lparr>ac_invalid := True\<rparr> else a
         | Some (JDict d) \<Rightarrow>
             let paths = filter (\<lambda>path. (observe_input \<or> is_output_path path) \<and>
                                        (observe_output \<or> \<not> is_output_path path))
                           (sort (integer_paths Anthropic))
             in fold (\<lambda>(path, _). observe_dimension path (path_value (JDict d) (split_on (CHR ''.'') path)))
                  (dimension_paths Anthropic)
                  (observe_paths paths (JDict d) (a\<lparr>ac_saw_usage := True\<rparr>))
         | Some _ \<Rightarrow> a\<lparr>ac_invalid := True\<rparr>)"

definition acc_finish :: "(string \<Rightarrow> string) \<Rightarrow> accumulator \<Rightarrow> native_observation res" where
  "acc_finish sha a =
     (if ac_values a = [] then
        absent_observation sha (ac_protocol a)
          (if ac_invalid a then ''provider_usage_invalid'' else ''provider_usage_absent'')
      else
        let (u, intrinsically) = normalize_native_values (ac_protocol a) (ac_values a);
            invalid = (ac_invalid a \<or> intrinsically)
        in rbind (native_payload (ac_values a)) (\<lambda>payload.
             let complete = (list_all (has_key (ac_values a)) (required_paths (ac_protocol a)) \<and> \<not> invalid)
             in make_observation sha
                  \<lparr>no_schema_id = JStr (profile (ac_protocol a)), no_schema_version = JInt 1,
                   no_state = JStr (if complete then ''complete'' else ''partial''),
                   no_reason = (if complete then JNull else if invalid then JStr ''provider_usage_invalid''
                                else JStr ''provider_usage_incomplete''),
                   no_payload = JStr payload, no_digest = JStr (sha (utf8_encode payload)),
                   no_counters = usage_counters u, no_dimensions = usage_dimensions u\<rparr>))"

section \<open>Rate cards\<close>

record rate_card_binding =
  rc_id :: string
  rc_version :: int
  rc_digest :: string
  rc_currency :: string

definition binding_error :: string where
  "binding_error = ''finance_attempt_binding_invalid''"

definition rate_card_binding_of :: "json \<Rightarrow> json \<Rightarrow> json \<Rightarrow> json \<Rightarrow> rate_card_binding res" where
  "rate_card_binding_of card_id version digest currency = rbind (ident card_id) (\<lambda>i.
     case (version, digest, currency) of
       (JInt v, JStr d, JStr c) \<Rightarrow>
         if 1 \<le> v \<and> v \<le> 2147483647 \<and> is_hex64 d \<and> length c = 3 \<and> list_all is_upper c
         then Inr \<lparr>rc_id = i, rc_version = v, rc_digest = d, rc_currency = c\<rparr> else Inl binding_error
     | _ \<Rightarrow> Inl binding_error)"

definition on_error :: "string \<Rightarrow> 'a res \<Rightarrow> 'a res" where
  "on_error code r = (case r of Inl _ \<Rightarrow> Inl code | Inr x \<Rightarrow> Inr x)"

definition configured_rate_card_binding :: "jdict \<Rightarrow> rate_card_binding res" where
  "configured_rate_card_binding v =
     (if list_all (has_key v) [''id'', ''version'', ''content_digest'', ''currency''] then
        on_error binding_error (rate_card_binding_of (dget v ''id'') (dget v ''version'')
          (dget v ''content_digest'') (dget v ''currency''))
      else Inl binding_error)"

definition binding_from_attempt_row :: "jdict \<Rightarrow> rate_card_binding option res" where
  "binding_from_attempt_row row =
     (let state = dget row ''configured_rate_card_state'';
          coordinates = map (dget row) [''configured_rate_card_id'', ''configured_rate_card_version'',
            ''configured_rate_card_digest'', ''configured_rate_card_currency'']
      in if (state = JNull \<or> state = JStr ''legacy_unavailable'') \<and> list_all (\<lambda>v. v = JNull) coordinates
         then Inr None
         else if state \<noteq> JStr ''configured'' then Inl binding_error
         else rbind (on_error binding_error (rate_card_binding_of (coordinates ! 0) (coordinates ! 1)
                (coordinates ! 2) (coordinates ! 3))) (\<lambda>b. Inr (Some b)))"

section \<open>Configured estimates\<close>

record route_estimate =
  es_availability :: json
  es_amount :: json
  es_microusd :: json
  es_currency :: json
  es_basis :: json
  es_reason :: json
  es_card_id :: json
  es_card_version :: json
  es_card_digest :: json
  es_provider_final :: json

definition estimate_error :: string where
  "estimate_error = ''finance_attempt_estimate_invalid''"

definition amount_of_json :: "json \<Rightarrow> amount_arg" where
  "amount_of_json v = (case v of JStr s \<Rightarrow> Text s | _ \<Rightarrow> Other_Value)"

definition available_amount_ok :: "route_estimate \<Rightarrow> bool" where
  "available_amount_ok e =
     (es_reason e = JStr ''estimated'' \<and> es_amount e \<noteq> JNull \<and> counter_ok False (es_microusd e) \<and>
      (case decimal_text (amount_of_json (es_amount e)) of
         Inl _ \<Rightarrow> False
       | Inr t \<Rightarrow> es_amount e = JStr t \<and>
           (case es_microusd e of JInt i \<Rightarrow> dec_value (decimal_of_text t) * 1000000 = of_int i
            | _ \<Rightarrow> False)))"

definition make_estimate :: "route_estimate \<Rightarrow> route_estimate res" where
  "make_estimate e =
     (if \<not> str_in (es_availability e) [''available'', ''unavailable''] then Inl estimate_error
      else rbind (rate_card_binding_of (es_card_id e) (es_card_version e) (es_card_digest e) (es_currency e))
        (\<lambda>_. if es_basis e \<noteq> JStr ''configured_rate_card_estimate'' \<or> \<not> str_in (es_reason e) estimate_reasons
                \<or> es_provider_final e \<noteq> JBool False then Inl estimate_error
             else if es_availability e = JStr ''available'' then
               if available_amount_ok e then Inr e else Inl estimate_error
             else if es_amount e \<noteq> JNull \<or> es_microusd e \<noteq> JNull \<or> es_reason e = JStr ''estimated''
             then Inl estimate_error else Inr e))"

definition estimate_for :: "rate_card_binding \<Rightarrow> string \<Rightarrow> json \<Rightarrow> json \<Rightarrow> string \<Rightarrow> route_estimate" where
  "estimate_for b availability amount microusd reason =
     \<lparr>es_availability = JStr availability, es_amount = amount, es_microusd = microusd,
      es_currency = JStr (rc_currency b), es_basis = JStr ''configured_rate_card_estimate'',
      es_reason = JStr reason, es_card_id = JStr (rc_id b), es_card_version = JInt (rc_version b),
      es_card_digest = JStr (rc_digest b), es_provider_final = JBool False\<rparr>"

definition unavailable_estimate :: "rate_card_binding \<Rightarrow> string \<Rightarrow> route_estimate res" where
  "unavailable_estimate b reason =
     (if reason \<notin> set estimate_reasons \<or> reason = ''estimated'' then Inl estimate_error
      else make_estimate (estimate_for b ''unavailable'' JNull JNull reason))"

text \<open>The text \<^verbatim>\<open>str\<close> gives for a rate, and the finite number \<^verbatim>\<open>Decimal\<close> reads from a text.\<close>

fun rate_text :: "json \<Rightarrow> string" where
  "rate_text (JInt i) = int_text i"
| "rate_text (JFloat q) = (if finite_float q then float_text q else if q < 0 then ''-inf'' else ''inf'')"
| "rate_text (JStr s) = s"
| "rate_text v = ''None''"

definition read_decimal :: "string \<Rightarrow> decimal option" where
  "read_decimal s =
     (let negative = (s \<noteq> [] \<and> hd s = CHR ''-'');
          body = (if s \<noteq> [] \<and> hd s \<in> {CHR ''-'', CHR ''+''} then tl s else s);
          (ip, s1) = digit_run body;
          (fp, s2) = (if s1 \<noteq> [] \<and> hd s1 = CHR ''.'' then digit_run (tl s1) else ([], s1));
          (e, s3) = (case number_exponent s2 of Some r \<Rightarrow> r | None \<Rightarrow> (0, s2))
      in if ip @ fp = [] \<or> s3 \<noteq> [] then None
         else Some (Dec negative (digits_value (ip @ fp)) (e - int (length fp))))"

text \<open>The exact context: 96 digits, and every rounding raises.\<close>

definition exact96 :: "decimal \<Rightarrow> decimal option" where
  "exact96 d = (if digit_count (dec_coef d) \<le> 96 then Some d else None)"

fun exact_mult :: "decimal \<Rightarrow> decimal \<Rightarrow> decimal option" where
  "exact_mult (Dec s c e) (Dec t d f) = exact96 (Dec (s \<noteq> t) (c * d) (e + f))"

fun exact_add :: "decimal \<Rightarrow> decimal \<Rightarrow> decimal option" where
  "exact_add (Dec s c e) (Dec t d f) =
     (let g = min e f; a = int (c * 10 ^ nat (e - g)); b = int (d * 10 ^ nat (f - g));
          r = (if s then - a else a) + (if t then - b else b)
      in exact96 (Dec (r < 0) (nat \<bar>r\<bar>) g))"

fun exact_sum :: "decimal \<Rightarrow> (int \<times> decimal) list \<Rightarrow> decimal option" where
  "exact_sum acc [] = Some acc"
| "exact_sum acc ((quantity, rate) # ps) =
     (case exact_mult (int_decimal quantity) rate of
        None \<Rightarrow> None
      | Some product \<Rightarrow> (case exact_add acc product of None \<Rightarrow> None | Some acc' \<Rightarrow> exact_sum acc' ps))"

fun json_int :: "json \<Rightarrow> int option" where
  "json_int (JInt i) = Some i"
| "json_int v = None"

text \<open>
  The four quantities a rate card prices, or the reason there are none. The counters are the observation's
  input, output, cache read and cache write tokens.
\<close>

definition configured_pricing_values :: "native_observation \<Rightarrow> int list + string" where
  "configured_pricing_values ob =
     (case map json_int (take 4 (no_counters ob)) of
        [Some inp, Some out, Some read, Some write] \<Rightarrow>
          (case protocol_of_profile (no_schema_id ob) of
             Some OpenAI \<Rightarrow>
               if inp < write \<or> inp - write < read then Inr ''invalid_native_usage''
               else Inl [inp - read - write, read, write, out]
           | Some Anthropic \<Rightarrow> Inl [inp, read, write, out]
           | None \<Rightarrow> Inr ''invalid_native_usage'')
      | _ \<Rightarrow> Inr ''missing_native_usage'')"

definition read_rates :: "json list \<Rightarrow> decimal list option" where
  "read_rates rates =
     (let ds = map (\<lambda>r. read_decimal (rate_text r)) rates
      in if None \<in> set ds \<or> list_ex (\<lambda>d. dec_neg (the d) \<and> dec_coef (the d) \<noteq> 0) ds then None
         else Some (map the ds))"

definition estimate_configured_route :: "(string \<Rightarrow> string) \<Rightarrow> rate_card_binding \<Rightarrow> native_observation
    \<Rightarrow> json list \<Rightarrow> route_estimate res" where
  "estimate_configured_route sha b ob rates =
     (case (if is_ok (validate_observation sha ob) then read_rates rates else None) of
        None \<Rightarrow> unavailable_estimate b ''estimate_outside_precision''
      | Some rs \<Rightarrow>
          (case configured_pricing_values ob of
             Inr reason \<Rightarrow> unavailable_estimate b reason
           | Inl quantities \<Rightarrow>
               (case exact_sum (Dec False 0 0) (zip quantities rs) of
                  None \<Rightarrow> unavailable_estimate b ''estimate_outside_precision''
                | Some micro \<Rightarrow>
                    let rounded = round_half_even (dec_value micro)
                    in if rounded < 0 \<or> max_integer < rounded
                       then unavailable_estimate b ''estimate_outside_precision''
                       else (case text_of_decimal (Dec False (nat rounded) (-6)) of
                               Inl _ \<Rightarrow> unavailable_estimate b ''estimate_outside_precision''
                             | Inr amount \<Rightarrow> make_estimate
                                 (estimate_for b ''available'' (JStr amount) (JInt rounded) ''estimated'')))))"

section \<open>Evidence events\<close>

definition usage_fields :: "string list" where
  "usage_fields = [''provider_input_tokens'', ''provider_output_tokens'', ''cache_read_input_tokens'',
     ''cache_write_input_tokens'', ''cache_write_5m_input_tokens'', ''cache_write_1h_input_tokens'',
     ''reasoning_output_tokens'', ''total_tokens'', ''billable_input_tokens'', ''billable_output_tokens'',
     ''server_tool_request_count'']"

definition dimension_fields :: "string list" where
  "dimension_fields = [''provider_service_tier'', ''provider_inference_geo'']"

definition event_fields :: "string list" where
  "event_fields =
     [''schema_id'', ''schema_version'', ''evidence_event_id'', ''organization_id'', ''request_attempt_id'',
      ''terminal_attempt_event_id'', ''usage_event_id'', ''terminal_state'', ''occurred_at'',
      ''provider_schema_id'', ''provider_schema_version'', ''observation_state'',
      ''observation_reason_code'', ''native_payload_json'', ''native_payload_digest''] @
     usage_fields @ dimension_fields @
     [''configured_estimate_availability'', ''configured_estimate_amount'',
      ''configured_estimate_microusd'', ''configured_estimate_currency'', ''configured_estimate_basis'',
      ''configured_estimate_reason_code'', ''configured_rate_card_id'', ''configured_rate_card_version'',
      ''configured_rate_card_digest'', ''provider_final'']"

definition event_observation :: "jdict \<Rightarrow> native_observation" where
  "event_observation ev =
     \<lparr>no_schema_id = dget ev ''provider_schema_id'', no_schema_version = dget ev ''provider_schema_version'',
      no_state = dget ev ''observation_state'', no_reason = dget ev ''observation_reason_code'',
      no_payload = dget ev ''native_payload_json'', no_digest = dget ev ''native_payload_digest'',
      no_counters = map (dget ev) usage_fields, no_dimensions = map (dget ev) dimension_fields\<rparr>"

definition event_estimate :: "jdict \<Rightarrow> route_estimate" where
  "event_estimate ev =
     \<lparr>es_availability = dget ev ''configured_estimate_availability'',
      es_amount = dget ev ''configured_estimate_amount'',
      es_microusd = dget ev ''configured_estimate_microusd'',
      es_currency = dget ev ''configured_estimate_currency'',
      es_basis = dget ev ''configured_estimate_basis'',
      es_reason = dget ev ''configured_estimate_reason_code'',
      es_card_id = dget ev ''configured_rate_card_id'',
      es_card_version = dget ev ''configured_rate_card_version'',
      es_card_digest = dget ev ''configured_rate_card_digest'',
      es_provider_final = dget ev ''provider_final''\<rparr>"

definition event_ok :: "(string \<Rightarrow> string) \<Rightarrow> jdict \<Rightarrow> bool" where
  "event_ok sha ev =
     (let state = dget ev ''terminal_state''; ob = event_observation ev; es = event_estimate ev;
          unknown = (state = JStr ''outcome_unknown'')
      in set (keys ev) = set event_fields \<and>
         dget ev ''schema_id'' = JStr ''hormuz.finance-attempt-evidence'' \<and>
         equals_one (dget ev ''schema_version'') \<and>
         is_ok (uuid_ident (dget ev ''evidence_event_id'')) \<and>
         is_ok (organization_text (dget ev ''organization_id'')) \<and>
         is_ok (ident (dget ev ''request_attempt_id'')) \<and>
         is_ok (uuid_ident (dget ev ''terminal_attempt_event_id'')) \<and>
         (dget ev ''usage_event_id'' = JNull \<or> is_ok (uuid_ident (dget ev ''usage_event_id''))) \<and>
         str_in state [''succeeded'', ''failed'', ''rate_limited'', ''outcome_unknown''] \<and>
         unknown = (dget ev ''usage_event_id'' = JNull) \<and>
         is_ok (timestamp_text (dget ev ''occurred_at'')) \<and>
         is_ok (validate_observation sha ob) \<and> is_ok (make_estimate es) \<and>
         (\<not> unknown \<longrightarrow> \<not> str_in (no_reason ob) unknown_reasons) \<and>
         (es_availability es = JStr ''available'' \<longrightarrow> (case configured_pricing_values ob of Inl _ \<Rightarrow> True | Inr _ \<Rightarrow> False)) \<and>
         (unknown \<longrightarrow> no_state ob \<noteq> JStr ''complete'' \<and> es_availability es = JStr ''unavailable'' \<and>
            es_reason es = JStr ''attempt_outcome_unknown'') \<and>
         (\<not> unknown \<longrightarrow> es_reason es \<noteq> JStr ''attempt_outcome_unknown''))"

definition validate_finance_attempt_event :: "(string \<Rightarrow> string) \<Rightarrow> jdict \<Rightarrow> unit res" where
  "validate_finance_attempt_event sha ev = (if event_ok sha ev then Inr () else Inl evidence_error)"

definition build_finance_attempt_event :: "(string \<Rightarrow> string) \<Rightarrow> string \<Rightarrow> protocol \<Rightarrow> string \<Rightarrow> string
    \<Rightarrow> string \<Rightarrow> string option \<Rightarrow> string \<Rightarrow> string \<Rightarrow> native_observation \<Rightarrow> route_estimate
    \<Rightarrow> rate_card_binding \<Rightarrow> jdict res" where
  "build_finance_attempt_event sha event_id p organization attempt terminal_event usage_event state
     occurred ob es b =
     (if no_schema_id ob \<noteq> JStr (profile p) \<or> es_card_id es \<noteq> JStr (rc_id b)
         \<or> es_card_version es \<noteq> JInt (rc_version b) \<or> es_card_digest es \<noteq> JStr (rc_digest b)
         \<or> es_currency es \<noteq> JStr (rc_currency b)
      then Inl evidence_error
      else let ev =
          [(''schema_id'', JStr ''hormuz.finance-attempt-evidence''), (''schema_version'', JInt 1),
           (''evidence_event_id'', JStr event_id), (''organization_id'', JStr organization),
           (''request_attempt_id'', JStr attempt), (''terminal_attempt_event_id'', JStr terminal_event),
           (''usage_event_id'', opt_str usage_event), (''terminal_state'', JStr state),
           (''occurred_at'', JStr occurred), (''provider_schema_id'', no_schema_id ob),
           (''provider_schema_version'', no_schema_version ob), (''observation_state'', no_state ob),
           (''observation_reason_code'', no_reason ob), (''native_payload_json'', no_payload ob),
           (''native_payload_digest'', no_digest ob)] @
          zip usage_fields (no_counters ob) @ zip dimension_fields (no_dimensions ob) @
          [(''configured_estimate_availability'', es_availability es),
           (''configured_estimate_amount'', es_amount es), (''configured_estimate_microusd'', es_microusd es),
           (''configured_estimate_currency'', es_currency es), (''configured_estimate_basis'', es_basis es),
           (''configured_estimate_reason_code'', es_reason es),
           (''configured_rate_card_id'', JStr (rc_id b)), (''configured_rate_card_version'', JInt (rc_version b)),
           (''configured_rate_card_digest'', JStr (rc_digest b)), (''provider_final'', es_provider_final es)]
        in rbind (validate_finance_attempt_event sha ev) (\<lambda>_. Inr ev))"

text \<open>The stored row of an event: two members renamed, and the canonical text of the event added.\<close>

definition row_name :: "string \<Rightarrow> string" where
  "row_name n = (if n = ''schema_id'' then ''event_schema_id''
     else if n = ''schema_version'' then ''event_schema_version'' else n)"

definition finance_attempt_storage_row :: "(string \<Rightarrow> string) \<Rightarrow> jdict \<Rightarrow> jdict res" where
  "finance_attempt_storage_row sha ev = rbind (validate_finance_attempt_event sha ev) (\<lambda>_.
     rbind (canonical_json_text evidence_error (JDict ev)) (\<lambda>text.
       Inr (dict_set ''evidence_json'' (JStr text) (map (\<lambda>(n, v). (row_name n, v)) ev))))"

definition finance_attempt_event_from_row :: "(string \<Rightarrow> string) \<Rightarrow> jdict \<Rightarrow> jdict res" where
  "finance_attempt_event_from_row sha row =
     (if \<not> list_all (\<lambda>n. has_key row (row_name n)) event_fields then Inl ''KeyError''
      else let ev = map (\<lambda>n. (n, dget row (row_name n))) event_fields;
               final = dget ev ''provider_final'';
               ev' = (if final = JInt 0 \<or> final = JInt 1
                      then dict_set ''provider_final'' (JBool (final = JInt 1)) ev else ev)
           in rbind (validate_finance_attempt_event sha ev') (\<lambda>_. Inr ev'))"

end
