(* ===== verification/Finance_Evidence.thy ===== *)
theory Finance_Evidence
  imports Finance_Attempts "HOL-Library.Sublist"
begin

text \<open>
  Correctness of the finance evidence: what the accumulator has collected always becomes an observation
  its own validator accepts, the stored payload gives the collected values back, and the configured
  estimate is the exact product rounded once.
\<close>

section \<open>Leaves of a nested object\<close>

fun leaves :: "json \<Rightarrow> (string list \<times> json) list" where
  "leaves (JDict d) = concat (map (\<lambda>(k, v). map (\<lambda>(q, l). (k # q, l)) (leaves v)) d)"
| "leaves v = [([], v)]"

text \<open>No object inside is empty.\<close>

fun full :: "json \<Rightarrow> bool" where
  "full (JDict d) = (d \<noteq> [] \<and> list_all (\<lambda>(k, v). full v) d)"
| "full v = True"

lemma leaves_leaf: "\<not> is_dict v \<Longrightarrow> leaves v = [([], v)]"
  by (cases v) simp_all

lemma set_leaves_dict:
  "(q, l) \<in> set (leaves (JDict d)) \<longleftrightarrow>
     (\<exists>k p v. q = k # p \<and> (k, v) \<in> set d \<and> (p, l) \<in> set (leaves v))"
proof
  assume "(q, l) \<in> set (leaves (JDict d))"
  then show "\<exists>k p v. q = k # p \<and> (k, v) \<in> set d \<and> (p, l) \<in> set (leaves v)" by auto
next
  assume "\<exists>k p v. q = k # p \<and> (k, v) \<in> set d \<and> (p, l) \<in> set (leaves v)"
  then obtain k p v where *: "q = k # p" "(k, v) \<in> set d" "(p, l) \<in> set (leaves v)" by blast
  then have "(q, l) \<in> (\<lambda>(q, l). (k # q, l)) ` set (leaves v)" by force
  then show "(q, l) \<in> set (leaves (JDict d))" using *(2) by force
qed

declare leaves.simps(1) [simp del]

lemma pair_set_eqI: "(\<And>q l. (q, l) \<in> A \<longleftrightarrow> (q, l) \<in> B) \<Longrightarrow> A = B"
  by (rule set_eqI) (metis surj_pair)

lemma mem_leaves:
  "distinct (keys d) \<Longrightarrow> (q, l) \<in> set (leaves (JDict d)) \<longleftrightarrow>
     (\<exists>k p v. q = k # p \<and> map_of d k = Some v \<and> (p, l) \<in> set (leaves v))"
  unfolding set_leaves_dict by (simp add: keys_def)

lemma leaves_dict_set:
  assumes "distinct (keys d)"
  shows "(q, l) \<in> set (leaves (JDict (dict_set m w d))) \<longleftrightarrow>
     (\<exists>p. q = m # p \<and> (p, l) \<in> set (leaves w)) \<or>
     (\<exists>k p v. k \<noteq> m \<and> q = k # p \<and> map_of d k = Some v \<and> (p, l) \<in> set (leaves v))"
proof -
  have "(q, l) \<in> set (leaves (JDict (dict_set m w d))) \<longleftrightarrow>
      (\<exists>k p v. q = k # p \<and> (if k = m then Some w else map_of d k) = Some v \<and> (p, l) \<in> set (leaves v))"
    using mem_leaves [of "dict_set m w d" q l] assms by simp
  then show ?thesis by (auto split: if_splits)
qed

lemma leaves_dict_path: "(q, l) \<in> set (leaves (JDict d)) \<Longrightarrow> q \<noteq> []"
  by (auto simp: set_leaves_dict)

lemma full_leaves: "full v \<Longrightarrow> \<exists>q l. (q, l) \<in> set (leaves v)"
proof (induction v)
  case (JDict d)
  then obtain k v ms where d: "d = (k, v) # ms" by (cases d) auto
  then have "(k, v) \<in> set d" "full v" using JDict.prems by auto
  moreover from JDict.IH [of "(k, v)" v] this obtain q l where "(q, l) \<in> set (leaves v)" by auto
  ultimately show ?case unfolding set_leaves_dict by blast
qed simp_all

definition unrelated :: "string list \<Rightarrow> jdict \<Rightarrow> bool" where
  "unrelated ms d = (\<forall>(q, l) \<in> set (leaves (JDict d)). \<not> prefix q ms \<and> \<not> prefix ms q)"

lemma unrelatedD: "unrelated ms d \<Longrightarrow> (q, l) \<in> set (leaves (JDict d)) \<Longrightarrow> \<not> prefix q ms \<and> \<not> prefix ms q"
  unfolding unrelated_def by blast

lemma unrelatedI:
  "(\<And>q l. (q, l) \<in> set (leaves (JDict d)) \<Longrightarrow> \<not> prefix q ms \<and> \<not> prefix ms q) \<Longrightarrow> unrelated ms d"
  unfolding unrelated_def by blast

lemma wf_dict_set:
  "wf_json (JDict d) \<Longrightarrow> wf_json w \<Longrightarrow> wf_json (JDict (dict_set m w d))"
proof -
  assume "wf_json (JDict d)" "wf_json w"
  then have "list_all (\<lambda>(k, v). wf_json v) (dict_set m w d)"
    by (induction m w d rule: dict_set.induct) auto
  then show ?thesis using \<open>wf_json (JDict d)\<close> by simp
qed

lemma full_dict_set:
  "list_all (\<lambda>(k, v). full v) d \<Longrightarrow> full w \<Longrightarrow> full (JDict (dict_set m w d))"
  by (induction m w d rule: dict_set.induct) auto

lemma put_path_leaves:
  assumes "ms \<noteq> []" and "\<not> is_dict v" and "wf_json v" and "wf_json (JDict d)"
    and "list_all (\<lambda>(k, v). full v) d" and "unrelated ms d"
  shows "\<exists>d'. put_path ms v d = Inr d' \<and> wf_json (JDict d') \<and> full (JDict d') \<and>
     set (leaves (JDict d')) = insert (ms, v) (set (leaves (JDict d)))"
  using assms
proof (induction ms v d rule: put_path.induct)
  case (2 m v d)
  have dist: "distinct (keys d)" using 2 by simp
  have none: "map_of d m = None"
  proof (rule ccontr)
    assume "map_of d m \<noteq> None"
    then obtain w where w: "map_of d m = Some w" by auto
    then have "full w" using 2 by (auto simp: list_all_iff dest: map_of_SomeD)
    then obtain p l where "(p, l) \<in> set (leaves w)" using full_leaves by blast
    then have "(m # p, l) \<in> set (leaves (JDict d))" using mem_leaves [OF dist] w by blast
    then show False using unrelatedD [OF 2(6)] by (meson Cons_prefix_Cons Nil_prefix)
  qed
  have "(q, l) \<in> set (leaves (JDict (dict_set m v d))) \<longleftrightarrow> (q, l) \<in> insert ([m], v) (set (leaves (JDict d)))"
    for q l
    unfolding leaves_dict_set [OF dist] insert_iff mem_leaves [OF dist] leaves_leaf [OF 2(2)]
    using none by auto
  then have "set (leaves (JDict (dict_set m v d))) = insert ([m], v) (set (leaves (JDict d)))"
    by (intro pair_set_eqI) (simp only: insert_iff)
  moreover have "full v" using 2(2) by (cases v) auto
  ultimately show ?case using wf_dict_set [of d v m] full_dict_set [of d v m] 2 by simp
next
  case (3 m m' ms v d)
  have dist: "distinct (keys d)" using 3 by simp
  let ?ms = "m' # ms"
  have step: "\<exists>d'. put_path (m # ?ms) v d = Inr d' \<and> wf_json (JDict d') \<and> full (JDict d') \<and>
     set (leaves (JDict d')) = insert (m # ?ms, v) (set (leaves (JDict d)))"
    if c: "(map_of d m = None \<and> c = []) \<or> map_of d m = Some (JDict c)"
      and c': "put_path ?ms v c = Inr c'" "wf_json (JDict c')" "full (JDict c')"
        "set (leaves (JDict c')) = insert (?ms, v) (set (leaves (JDict c)))" for c c'
  proof -
    have put: "put_path (m # ?ms) v d = Inr (dict_set m (JDict c') d)"
      using c c'(1) by auto
    have "(q, l) \<in> set (leaves (JDict (dict_set m (JDict c') d))) \<longleftrightarrow>
        (q, l) = (m # ?ms, v) \<or> (q, l) \<in> set (leaves (JDict d))" for q l
    proof -
      have "(\<exists>p. q = m # p \<and> (p, l) \<in> set (leaves (JDict c'))) \<longleftrightarrow>
          (q, l) = (m # ?ms, v) \<or> (\<exists>p. q = m # p \<and> (p, l) \<in> set (leaves (JDict c)))"
        using c'(4) by auto
      moreover have "(\<exists>p. q = m # p \<and> (p, l) \<in> set (leaves (JDict c))) \<longleftrightarrow>
          (\<exists>p v. q = m # p \<and> map_of d m = Some v \<and> (p, l) \<in> set (leaves v))"
        using c by (auto simp: set_leaves_dict)
      ultimately have iff: "(\<exists>p. q = m # p \<and> (p, l) \<in> set (leaves (JDict c'))) \<longleftrightarrow>
          (q, l) = (m # ?ms, v) \<or>
          (\<exists>p v. q = m # p \<and> map_of d m = Some v \<and> (p, l) \<in> set (leaves v))"
        by simp
      show ?thesis unfolding leaves_dict_set [OF dist] mem_leaves [OF dist] iff by metis
    qed
    then have "set (leaves (JDict (dict_set m (JDict c') d))) = insert (m # ?ms, v) (set (leaves (JDict d)))"
      by (intro pair_set_eqI) (simp only: insert_iff)
    then show ?thesis
      using put wf_dict_set [of d "JDict c'" m] full_dict_set [of d "JDict c'" m] 3(6,7) c'(2,3) by blast
  qed
  show ?case
  proof (cases "map_of d m")
    case None
    have "unrelated ?ms []" by (rule unrelatedI) (simp add: set_leaves_dict)
    then obtain c' where "put_path ?ms v [] = Inr c'" "wf_json (JDict c')" "full (JDict c')"
        "set (leaves (JDict c')) = insert (?ms, v) (set (leaves (JDict [])))"
      using 3(1) [OF None] 3(4,5) by auto
    then show ?thesis using step [of "[]" c'] None by blast
  next
    case (Some w)
    then have w: "full w" "wf_json w" using 3(6,7) by (auto simp: list_all_iff dest: map_of_SomeD)
    have sub: "(m # p, l) \<in> set (leaves (JDict d))" if "(p, l) \<in> set (leaves w)" for p l
      using mem_leaves [OF dist] Some that by blast
    show ?thesis
    proof (cases "is_dict w")
      case True
      then obtain c where c: "w = JDict c" by (cases w) auto
      have "unrelated ?ms c"
        using unrelatedD [OF 3(8)] sub c by (intro unrelatedI) (metis Cons_prefix_Cons)
      moreover have "list_all (\<lambda>(k, v). full v) c" using w(1) c by simp
      ultimately obtain c' where "put_path ?ms v c = Inr c'" "wf_json (JDict c')" "full (JDict c')"
        "set (leaves (JDict c')) = insert (?ms, v) (set (leaves (JDict c)))"
        using 3(2) [OF Some c] 3(4,5) w(2) c by auto
      then show ?thesis using step [of c c'] Some c by blast
    next
      case False
      then have "([m], w) \<in> set (leaves (JDict d))" using sub [of "[]" w] leaves_leaf by simp
      then show ?thesis using unrelatedD [OF 3(8)] by (meson Cons_prefix_Cons Nil_prefix)
    qed
  qed
qed simp

section \<open>Nesting the collected values\<close>

definition path_words :: "string \<Rightarrow> string list" where
  "path_words path = split_on (CHR ''.'') path"

definition apart :: "string \<Rightarrow> string \<Rightarrow> bool" where
  "apart p q = (\<not> prefix (path_words p) (path_words q) \<and> \<not> prefix (path_words q) (path_words p))"

lemma nest_leaves:
  assumes "distinct (keys ps)" and "\<forall>(path, v) \<in> set ps. \<not> is_dict v \<and> wf_json v"
    and "\<forall>a \<in> set (keys ps). \<forall>b \<in> set (keys ps). a \<noteq> b \<longrightarrow> apart a b"
    and "wf_json (JDict d)" and "list_all (\<lambda>(k, v). full v) d"
    and "\<forall>path \<in> set (keys ps). unrelated (path_words path) d"
  shows "\<exists>d'. nest ps d = Inr d' \<and> wf_json (JDict d') \<and> list_all (\<lambda>(k, v). full v) d' \<and>
     (ps \<noteq> [] \<longrightarrow> d' \<noteq> []) \<and>
     set (leaves (JDict d')) = (\<lambda>(path, v). (path_words path, v)) ` set ps \<union> set (leaves (JDict d))"
  using assms
proof (induction ps arbitrary: d)
  case (Cons e ps)
  obtain path v where e: "e = (path, v)" by (cases e)
  have v: "\<not> is_dict v" "wf_json v" using Cons.prems(2) e by auto
  have un: "unrelated (path_words path) d" using Cons.prems(6) e by simp
  obtain d1 where d1: "put_path (path_words path) v d = Inr d1" "wf_json (JDict d1)" "full (JDict d1)"
    "set (leaves (JDict d1)) = insert (path_words path, v) (set (leaves (JDict d)))"
    using put_path_leaves [OF _ v Cons.prems(4,5) un] by (auto simp: path_words_def)
  have later: "unrelated (path_words q) d1" if q: "q \<in> set (keys ps)" for q
  proof (rule unrelatedI)
    fix r l
    assume "(r, l) \<in> set (leaves (JDict d1))"
    then consider "r = path_words path" | "(r, l) \<in> set (leaves (JDict d))" using d1(4) by auto
    then show "\<not> prefix r (path_words q) \<and> \<not> prefix (path_words q) r"
    proof cases
      case 1
      have "q \<noteq> path" using Cons.prems(1) q e by (auto simp: keys_def)
      then have "apart path q" using Cons.prems(3) q e by simp
      then show ?thesis using 1 by (simp add: apart_def)
    next
      case 2
      then show ?thesis using Cons.prems(6) q e unrelatedD by fastforce
    qed
  qed
  have "d1 \<noteq> []" using d1(3) by simp
  obtain d' where d': "nest ps d1 = Inr d'" "wf_json (JDict d')" "list_all (\<lambda>(k, v). full v) d'"
    "ps \<noteq> [] \<longrightarrow> d' \<noteq> []"
    "set (leaves (JDict d')) = (\<lambda>(path, v). (path_words path, v)) ` set ps \<union> set (leaves (JDict d1))"
    using Cons.IH [of d1] Cons.prems(1-3) d1(2,3) later e by auto
  have ne: "d' \<noteq> []" using d' \<open>d1 \<noteq> []\<close> by (cases ps) auto
  have "nest (e # ps) d = Inr d'" using d1(1) d'(1) by (simp add: e path_words_def)
  moreover have "set (leaves (JDict d'))
      = (\<lambda>(path, v). (path_words path, v)) ` set (e # ps) \<union> set (leaves (JDict d))"
    using d1(4) d'(5) by (auto simp: e)
  ultimately show ?case using d'(2,3) ne by blast
qed simp

lemma leaves_canon:
  "\<forall>(q, l) \<in> set (leaves v). canon l = l \<Longrightarrow> set (leaves (canon v)) = set (leaves v)"
proof (induction v)
  case (JDict d)
  have ih: "set (leaves (canon v)) = set (leaves v)" if "(k, v) \<in> set d" for k v
  proof -
    have "\<forall>(q, l) \<in> set (leaves v). canon l = l"
      using JDict.prems that set_leaves_dict [of _ _ d] by fastforce
    then show ?thesis using JDict.IH [of "(k, v)" v] that by simp
  qed
  have "(q, l) \<in> set (leaves (canon (JDict d))) \<longleftrightarrow> (q, l) \<in> set (leaves (JDict d))" for q l
    unfolding canon.simps set_leaves_dict using ih by fastforce
  then show ?case by (rule pair_set_eqI)
qed simp_all

lemma plain_leaves:
  "wf_json v \<Longrightarrow> \<forall>(q, l) \<in> set (leaves v). plain l \<Longrightarrow> plain v"
proof (induction v)
  case (JDict d)
  have "plain v" if "(k, v) \<in> set d" for k v
  proof -
    have "\<forall>(q, l) \<in> set (leaves v). plain l"
      using JDict.prems(2) that set_leaves_dict [of _ _ d] by fastforce
    moreover have "wf_json v" using JDict.prems(1) that by (auto simp: list_all_iff)
    ultimately show ?thesis using JDict.IH [of "(k, v)" v] that by simp
  qed
  then show ?case using JDict.prems(1) by (auto simp: list_all_iff)
qed simp_all

lemma full_canon: "full v \<Longrightarrow> full (canon v)"
proof (induction v)
  case (JDict d)
  have "full (canon v)" if "(k, v) \<in> set d" for k v
    using JDict that by (auto simp: list_all_iff)
  moreover have "length (sort_key fst (map (\<lambda>(k, v). (k, canon v)) d)) = length d" by simp
  then have "sort_key fst (map (\<lambda>(k, v). (k, canon v)) d) \<noteq> []"
    using JDict.prems by (cases d) force+
  ultimately show ?case by (auto simp: list_all_iff)
qed simp_all

lemma plain_wf: "plain v \<Longrightarrow> wf_json v"
  by (induction v) (auto simp: list_all_iff)

section \<open>The walk over a payload\<close>

definition leaf_ok :: "protocol \<Rightarrow> string \<Rightarrow> json \<Rightarrow> bool" where
  "leaf_ok p path v =
     (if path \<in> set (integer_paths p) then (case v of JInt i \<Rightarrow> in_counter_range i | _ \<Rightarrow> False)
      else case map_of (dimension_paths p) path of None \<Rightarrow> False | Some allowed \<Rightarrow> dimension_ok allowed v)"

fun leaf_spec :: "protocol \<Rightarrow> string \<Rightarrow> string list \<Rightarrow> json \<Rightarrow> bool" where
  "leaf_spec p pre [] l = False"
| "leaf_spec p pre [m] l = leaf_ok p (extend_path pre m) l"
| "leaf_spec p pre (m # ms) l =
     (extend_path pre m \<notin> set (integer_paths p) \<and> map_of (dimension_paths p) (extend_path pre m) = None \<and>
      extend_path pre m \<in> set (container_paths p) \<and> leaf_spec p (extend_path pre m) ms l)"

definition joined :: "string \<Rightarrow> string list \<Rightarrow> string" where
  "joined pre q = foldl extend_path pre q"

definition put_leaf :: "string \<Rightarrow> string list \<times> json \<Rightarrow> jdict \<Rightarrow> jdict" where
  "put_leaf pre = (\<lambda>(q, l). dict_set (joined pre q) l)"

lemma leaf_ok_not_dict: "leaf_ok p path v \<Longrightarrow> \<not> is_dict v"
  by (auto simp: leaf_ok_def dimension_ok_def split: json.splits if_splits option.splits)

lemma walk_leaf:
  assumes "leaf_ok p (extend_path pre m) item"
  shows "walk_members p pre ((m, item) # ms) vals
    = walk_members p pre ms (dict_set (extend_path pre m) item vals)"
  using assms by (auto simp: leaf_ok_def Let_def split: if_splits json.splits option.splits)

lemma walk_leaves:
  "is_dict v \<Longrightarrow> full v \<Longrightarrow> \<forall>(q, l) \<in> set (leaves v). leaf_spec p pre q l \<Longrightarrow>
     walk_node p pre v vals = Inr (fold (put_leaf pre) (leaves v) vals)"
proof (induction v arbitrary: pre vals)
  case (JDict d)
  have "walk_members p pre d' vals = Inr (fold (put_leaf pre) (leaves (JDict d')) vals)"
    if "set d' \<subseteq> set d" for d'
    using that
  proof (induction d' arbitrary: vals)
    case Nil
    then show ?case by (simp add: leaves.simps)
  next
    case (Cons e d')
    obtain m item where e: "e = (m, item)" by (cases e)
    then have mem: "(m, item) \<in> set d" using Cons.prems by simp
    have spec: "leaf_spec p pre (m # q) l" if "(q, l) \<in> set (leaves item)" for q l
      using JDict.prems(3) that mem set_leaves_dict [of "m # q" l d] by fastforce
    have fi: "full item" using JDict.prems(2) mem by (auto simp: list_all_iff)
    have ls: "leaves (JDict (e # d')) = map (\<lambda>(q, l). (m # q, l)) (leaves item) @ leaves (JDict d')"
      by (simp add: e leaves.simps)
    have put: "fold (put_leaf pre) (map (\<lambda>(q, l). (m # q, l)) ls) vs
        = fold (put_leaf (extend_path pre m)) ls vs" for ls vs
      by (induction ls arbitrary: vs) (auto simp: put_leaf_def joined_def)
    show ?case
    proof (cases "is_dict item")
      case False
      then have "leaf_ok p (extend_path pre m) item" using spec [of "[]" item] leaves_leaf by simp
      then show ?thesis
        using Cons walk_leaf e False leaves_leaf
        by (simp add: ls [unfolded e] put_leaf_def joined_def del: walk_members.simps)
    next
      case True
      obtain q l where ql: "(q, l) \<in> set (leaves item)" using full_leaves [OF fi] by blast
      then have "q \<noteq> []" using True leaves_dict_path by (cases item) auto
      then obtain m' q' where q: "q = m' # q'" by (cases q) auto
      have cont: "extend_path pre m \<notin> set (integer_paths p)"
        "map_of (dimension_paths p) (extend_path pre m) = None"
        "extend_path pre m \<in> set (container_paths p)"
        using spec [OF ql] by (simp_all add: q)
      have "\<forall>(q, l) \<in> set (leaves item). leaf_spec p (extend_path pre m) q l"
      proof (clarify)
        fix q l
        assume ql: "(q, l) \<in> set (leaves item)"
        then have "q \<noteq> []" using True leaves_dict_path by (cases item) auto
        then show "leaf_spec p (extend_path pre m) q l" using spec [OF ql] by (cases q) auto
      qed
      then have "walk_node p (extend_path pre m) item vals
          = Inr (fold (put_leaf (extend_path pre m)) (leaves item) vals)"
        using JDict.IH [of "(m, item)" item] mem True fi by simp
      then show ?thesis using Cons cont e by (simp add: ls [unfolded e] put)
    qed
  qed
  then show ?case using JDict.prems(2) by simp
qed simp_all

section \<open>Size of a payload\<close>

definition leaf_weight :: "string list \<times> json \<Rightarrow> nat" where
  "leaf_weight = (\<lambda>(q, l). length (dump True l) + sum_list (map (\<lambda>m. length (quote True m) + 3) q))"

definition total_weight :: "json \<Rightarrow> nat" where
  "total_weight v = sum_list (map leaf_weight (leaves v))"

lemma length_dump_members:
  "length (dump_members a d) = Suc (sum_list (map (\<lambda>(k, v). length (quote a k) + length (dump a v) + 2) d))"
  by (induction d) auto

lemma length_dump_dict:
  "d \<noteq> [] \<Longrightarrow> length (dump a (JDict d))
     = Suc (sum_list (map (\<lambda>(k, v). length (quote a k) + length (dump a v) + 2) d))"
  by (cases d) (auto simp: length_dump_members split: prod.splits)

lemma weight_dict:
  "total_weight (JDict d) = sum_list (map (\<lambda>(k, v).
     sum_list (map (\<lambda>e. leaf_weight e + (length (quote True k) + 3)) (leaves v))) d)"
  by (induction d) (auto simp: total_weight_def leaves.simps leaf_weight_def comp_def case_prod_unfold ac_simps)

lemma sum_list_add_const:
  "sum_list (map (\<lambda>e. f e + c) xs) = sum_list (map f xs) + length xs * (c :: nat)"
  by (induction xs) auto

lemma dump_weight: "full v \<Longrightarrow> length (dump True v) \<le> total_weight v"
proof (induction v)
  case (JDict d)
  have one: "length (quote True k) + length (dump True v) + 3
      \<le> sum_list (map (\<lambda>e. leaf_weight e + (length (quote True k) + 3)) (leaves v))"
    if "(k, v) \<in> set d" for k v
  proof -
    have fv: "full v" using JDict.prems that by (auto simp: list_all_iff)
    then have "length (dump True v) \<le> total_weight v" using JDict.IH [of "(k, v)" v] that by simp
    moreover have "0 < length (leaves v)" using full_leaves [OF fv] by (metis length_pos_if_in_set)
    then obtain n where "length (leaves v) = Suc n" using gr0_conv_Suc by blast
    then have "length (quote True k) + 3 \<le> length (leaves v) * (length (quote True k) + 3)" by simp
    ultimately show ?thesis unfolding sum_list_add_const total_weight_def by linarith
  qed
  have sum: "sum_list (map (\<lambda>(k, v). length (quote True k) + length (dump True v) + 3) d') \<le> total_weight (JDict d')"
    if "set d' \<subseteq> set d" for d'
    using that unfolding weight_dict
  proof (induction d')
    case (Cons e d')
    obtain k v where e: "e = (k, v)" by (cases e)
    then show ?case using Cons one [of k v] by auto
  qed simp
  have "d \<noteq> []" using JDict.prems by simp
  have three: "sum_list (map (\<lambda>(k, v). length (quote True k) + length (dump True v) + 3) d')
      = sum_list (map (\<lambda>(k, v). length (quote True k) + length (dump True v) + 2) d') + length d'" for d'
    by (induction d') auto
  have "0 < length d" using \<open>d \<noteq> []\<close> by simp
  then show ?case
    using sum [OF order_refl] three [of d] length_dump_dict [OF \<open>d \<noteq> []\<close>, of True] by linarith
qed (simp_all add: total_weight_def leaf_weight_def)

lemma distinct_leaves: "wf_json v \<Longrightarrow> distinct (leaves v)"
proof (induction v)
  case (JDict d)
  have "distinct (leaves (JDict d'))" if "distinct (keys d')" "set d' \<subseteq> set d" for d'
    using that
  proof (induction d')
    case Nil
    then show ?case by (simp add: leaves.simps)
  next
    case (Cons e d')
    obtain k v where e: "e = (k, v)" by (cases e)
    have "wf_json v" using JDict.prems Cons.prems e by (auto simp: list_all_iff)
    then have dv: "distinct (leaves v)" using JDict.IH [of "(k, v)" v] Cons.prems e by auto
    have ls: "leaves (JDict (e # d')) = map (\<lambda>(q, l). (k # q, l)) (leaves v) @ leaves (JDict d')"
      by (simp add: e leaves.simps)
    have "inj_on (\<lambda>(q, l). (k # q, l)) (set (leaves v))" by (auto simp: inj_on_def)
    then have "distinct (map (\<lambda>(q, l). (k # q, l)) (leaves v))" using dv by (simp add: distinct_map)
    moreover have "distinct (leaves (JDict d'))" using Cons e by simp
    moreover have "k \<notin> set (keys d')" using Cons.prems(1) e by simp
    then have "set (map (\<lambda>(q, l). (k # q, l)) (leaves v)) \<inter> set (leaves (JDict d')) = {}"
      by (auto simp: set_leaves_dict keys_def) (metis fst_conv imageI)
    ultimately show ?case unfolding ls by simp
  qed
  then show ?case using JDict.prems by simp
qed simp_all

section \<open>The paths of the two protocols\<close>

fun chain_ok :: "protocol \<Rightarrow> string \<Rightarrow> string list \<Rightarrow> bool" where
  "chain_ok p pre [] = False"
| "chain_ok p pre [m] = True"
| "chain_ok p pre (m # ms) =
     (extend_path pre m \<notin> set (integer_paths p) \<and> map_of (dimension_paths p) (extend_path pre m) = None \<and>
      extend_path pre m \<in> set (container_paths p) \<and> chain_ok p (extend_path pre m) ms)"

lemma leaf_spec_iff: "leaf_spec p pre q l \<longleftrightarrow> chain_ok p pre q \<and> leaf_ok p (joined pre q) l"
  by (induction p pre q l rule: leaf_spec.induct) (auto simp: joined_def)

definition path_ok :: "protocol \<Rightarrow> string \<Rightarrow> bool" where
  "path_ok p path = (chain_ok p [] (path_words path) \<and> joined [] (path_words path) = path \<and>
     sum_list (map (\<lambda>m. length (quote True m) + 3) (path_words path)) \<le> 80 \<and>
     list_all (\<lambda>b. path = b \<or> apart path b) (leaf_paths p))"

lemma paths_ok: "path \<in> set (leaf_paths p) \<Longrightarrow> path_ok p path"
proof -
  have "list_all (path_ok OpenAI) (leaf_paths OpenAI)" "list_all (path_ok Anthropic) (leaf_paths Anthropic)"
    by code_simp+
  then have "list_all (path_ok p) (leaf_paths p)" by (cases p) auto
  then show "path \<in> set (leaf_paths p) \<Longrightarrow> path_ok p path" by (simp add: list_all_iff)
qed

lemma leaf_paths_few: "length (leaf_paths p) \<le> 11"
  by (cases p) (simp_all add: leaf_paths_def integer_paths_def dimension_paths_def)

lemma leaf_ok_path: "leaf_ok p path v \<Longrightarrow> path \<in> set (leaf_paths p)"
  by (auto simp: leaf_ok_def leaf_paths_def dest: map_of_in_keys split: if_splits option.splits)

lemma range_digits: "in_counter_range i \<Longrightarrow> digit_count (nat i) \<le> 19"
  by (rule digit_count_le) (auto simp: in_counter_range_def max_integer_def)

lemma identifier_plain: "identifier_char c \<Longrightarrow> escape_char True c = [c]"
proof -
  assume "identifier_char c"
  then have o: "c \<in> set ''._:-'' \<or> is_alnum c" by (auto simp: identifier_char_def)
  then have "ord_of c \<in> {46, 95, 58, 45} \<or> is_alnum c" by (auto simp: ord_of_def)
  then have "48 \<le> ord_of c \<and> ord_of c \<le> 122 \<and> ord_of c \<noteq> 92 \<or> ord_of c = 46 \<or> ord_of c = 45"
    by (auto simp: is_alnum_def is_digit_def is_upper_def is_lower_def)
  then have "32 \<le> ord_of c \<and> ord_of c \<le> 126 \<and> ord_of c \<noteq> ord_of (CHR 0x22) \<and> ord_of c \<noteq> ord_of (CHR 0x5C)
      \<and> ord_of c \<noteq> ord_of (CHR 0x0A) \<and> ord_of c \<noteq> ord_of (CHR 0x0D) \<and> ord_of c \<noteq> ord_of (CHR 0x09)
      \<and> ord_of c \<noteq> ord_of (CHR 0x0C) \<and> ord_of c \<noteq> ord_of (CHR 0x08)"
    by (auto simp: ord_of_def)
  then show "escape_char True c = [c]" by (auto simp: escape_char_def)
qed

lemma identifier_quote: "identifier_text s \<Longrightarrow> length (quote True s) \<le> 130"
proof -
  assume s: "identifier_text s"
  then have "list_all identifier_char s" by (cases s) (auto simp: identifier_text_def identifier_char_def)
  then have "concat (map (escape_char True) s) = s"
    by (induction s) (auto simp: identifier_plain)
  then show ?thesis using s by (simp add: quote_def identifier_text_def)
qed

lemma leaf_ok_facts:
  assumes "leaf_ok p path v"
  shows "\<not> is_dict v" "plain v" "canon v = v" "length (dump True v) \<le> 130" "wf_json v" "full v"
proof -
  consider i where "v = JInt i" "in_counter_range i" | s where "v = JStr s" "identifier_text s"
    using assms by (auto simp: leaf_ok_def dimension_ok_def split: if_splits json.splits option.splits)
  then have "\<not> is_dict v \<and> plain v \<and> canon v = v \<and> length (dump True v) \<le> 130 \<and> wf_json v \<and> full v"
  proof cases
    case 1
    then have "\<not> i < 0" by (simp add: in_counter_range_def)
    moreover have "length (nat_digits (nat i)) \<le> 19" using range_digits [OF 1(2)] by (simp add: digit_count_def)
    ultimately show ?thesis using 1 by (simp add: int_ok_def int_text_def)
  next
    case 2
    then show ?thesis using identifier_quote by simp
  qed
  then show "\<not> is_dict v" "plain v" "canon v = v" "length (dump True v) \<le> 130" "wf_json v" "full v" by auto
qed

section \<open>The payload gives the collected values back\<close>

definition values_ok :: "protocol \<Rightarrow> jdict \<Rightarrow> bool" where
  "values_ok p vals \<longleftrightarrow> distinct (keys vals) \<and> (\<forall>(path, v) \<in> set vals. leaf_ok p path v)"

lemma fold_put_leaf:
  assumes "\<And>q l. (q, l) \<in> set ls \<Longrightarrow> (joined pre q, l) \<in> set vals" and "distinct (keys vals)"
    and "\<And>path v. (path, v) \<in> set vals \<Longrightarrow> \<exists>q. joined pre q = path \<and> (q, v) \<in> set ls"
  shows "map_of (fold (put_leaf pre) ls []) = map_of vals"
proof -
  have eq: "fold (put_leaf pre) ls d = dict_update d (map (\<lambda>(q, l). (joined pre q, l)) ls)" for d
    by (induction ls arbitrary: d) (auto simp: dict_update_def put_leaf_def)
  let ?es = "map (\<lambda>(q, l). (joined pre q, l)) ls"
  have es: "set ?es = set vals" using assms(1,3) by force
  have "map_of (rev ?es) k = map_of vals k" for k
  proof (cases "map_of (rev ?es) k")
    case None
    then have "k \<notin> fst ` set vals" using es by (metis map_of_eq_None_iff set_rev)
    then have "map_of vals k = None" by (simp add: map_of_eq_None_iff)
    then show ?thesis unfolding None by (rule sym)
  next
    case (Some v)
    then have "(k, v) \<in> set vals" using es by (metis map_of_SomeD set_rev)
    then show ?thesis using Some assms(2) by (simp add: keys_def)
  qed
  then show ?thesis unfolding eq by (auto simp: fun_eq_iff split: option.splits)
qed

lemma payload_back:
  assumes "values_ok p vals" and "vals \<noteq> []"
  obtains tree again where "native_payload vals = Inr (dump True tree)" "plain tree" "canon tree = tree"
    "length (dump True tree) \<le> 8192" "payload_values p tree = Inr again" "map_of again = map_of vals"
proof -
  let ?ps = "sort_key fst vals"
  have ok: "leaf_ok p path v" if "(path, v) \<in> set vals" for path v
    using assms(1) that by (auto simp: values_ok_def)
  have dist: "distinct (keys vals)" using assms(1) by (simp add: values_ok_def)
  have in_paths: "path \<in> set (leaf_paths p)" if "path \<in> set (keys ?ps)" for path
  proof -
    have "path \<in> fst ` set vals" using that by (simp add: keys_def)
    then obtain v where "(path, v) \<in> set vals" by auto
    then show ?thesis by (rule leaf_ok_path [OF ok])
  qed
  have ap: "\<forall>a \<in> set (keys ?ps). \<forall>b \<in> set (keys ?ps). a \<noteq> b \<longrightarrow> apart a b"
  proof (intro ballI impI)
    fix a b
    assume ab: "a \<in> set (keys ?ps)" "b \<in> set (keys ?ps)" "a \<noteq> b"
    show "apart a b"
      using paths_ok [OF in_paths [OF ab(1)]] in_paths [OF ab(2)] ab(3) by (auto simp: path_ok_def list_all_iff)
  qed
  have leaf: "\<forall>(path, v) \<in> set ?ps. \<not> is_dict v \<and> wf_json v"
    using leaf_ok_facts(1,5) [OF ok] by auto
  have "\<forall>path \<in> set (keys ?ps). unrelated (path_words path) []"
    by (auto intro: unrelatedI simp: set_leaves_dict)
  then obtain d where d: "nest ?ps [] = Inr d" "wf_json (JDict d)" "list_all (\<lambda>(k, v). full v) d" "?ps \<noteq> [] \<longrightarrow> d \<noteq> []"
    "set (leaves (JDict d)) = (\<lambda>(path, v). (path_words path, v)) ` set ?ps \<union> set (leaves (JDict []))"
    using nest_leaves [of ?ps "[]"] dist leaf ap by auto
  have "?ps \<noteq> []" using assms(2) by (metis set_empty set_sort)
  then have fd: "full (JDict d)" using d(3,4) by simp
  have ls: "(q, l) \<in> set (leaves (JDict d)) \<longleftrightarrow> (\<exists>path. q = path_words path \<and> (path, l) \<in> set vals)" for q l
    unfolding d(5) by (auto simp: leaves.simps)
  let ?tree = "canon (JDict d)"
  have "\<forall>(q, l) \<in> set (leaves (JDict d)). canon l = l \<and> plain l" using ls ok leaf_ok_facts by fastforce
  then have cl: "set (leaves ?tree) = set (leaves (JDict d))" and "plain (JDict d)"
    using leaves_canon [of "JDict d"] plain_leaves [OF d(2)] by blast+
  then have pl: "plain ?tree" and cc: "canon ?tree = ?tree" using plain_canon canon_canon by blast+
  have ft: "full ?tree" using full_canon [OF fd] .
  have dict: "is_dict ?tree" by simp
  have lt: "(q, l) \<in> set (leaves ?tree) \<longleftrightarrow> (\<exists>path. q = path_words path \<and> (path, l) \<in> set vals)" for q l
    unfolding cl by (rule ls)
  have w: "leaf_weight e \<le> 210" if mem: "e \<in> set (leaves ?tree)" for e
  proof -
    obtain q l where e: "e = (q, l)" by (cases e)
    obtain path where path: "q = path_words path" "(path, l) \<in> set vals"
      using mem [unfolded e lt] by blast
    then have "path_ok p path" "length (dump True l) \<le> 130"
      using ok leaf_ok_path paths_ok leaf_ok_facts(4) by blast+
    then show ?thesis using e path(1) by (simp add: leaf_weight_def path_ok_def)
  qed
  have "length (leaves ?tree) = card (set (leaves ?tree))"
    using distinct_leaves [OF plain_wf [OF pl]] by (simp add: distinct_card)
  also have "\<dots> \<le> card (set vals)"
  proof -
    have "set (leaves ?tree) = (\<lambda>(path, v). (path_words path, v)) ` set vals"
      using cl d(5) by (simp add: leaves.simps)
    then show ?thesis by (simp add: card_image_le)
  qed
  also have "\<dots> = card (fst ` set vals)"
    using dist by (simp add: keys_def distinct_map card_image)
  also have "\<dots> \<le> card (set (leaf_paths p))"
    using in_paths by (intro card_mono) (auto simp: keys_def)
  also have "\<dots> \<le> 11" using card_length leaf_paths_few le_trans by blast
  finally have few: "length (leaves ?tree) \<le> 11" .
  have "total_weight ?tree \<le> sum_list (map (\<lambda>_. 210) (leaves ?tree))"
    unfolding total_weight_def using w by (intro sum_list_mono) simp
  also have "\<dots> = length (leaves ?tree) * 210" by (simp only: sum_list_triv of_nat_id)
  finally have small: "length (dump True ?tree) \<le> 8192" using dump_weight [OF ft] few by linarith
  have pos: "1 \<le> length (dump True ?tree)" using dump_head [OF pl, of True] by auto
  have pay: "native_payload vals = Inr (dump True ?tree)"
    using d(1) small pos by (simp add: native_payload_def len_between_def del: canon.simps)
  have "\<forall>(q, l) \<in> set (leaves ?tree). leaf_spec p [] q l"
  proof (clarify)
    fix q l
    assume "(q, l) \<in> set (leaves ?tree)"
    then obtain path where path: "q = path_words path" "(path, l) \<in> set vals" unfolding lt by blast
    then show "leaf_spec p [] q l"
      using ok paths_ok [OF leaf_ok_path [OF ok [OF path(2)]]] by (simp add: leaf_spec_iff path_ok_def)
  qed
  then have walk: "payload_values p ?tree = Inr (fold (put_leaf []) (leaves ?tree) [])"
    unfolding payload_values_def by (rule walk_leaves [OF dict ft])
  have "map_of (fold (put_leaf []) (leaves ?tree) []) = map_of vals"
  proof (rule fold_put_leaf [OF _ dist])
    have j: "joined [] (path_words path) = path" if "(path, l) \<in> set vals" for path l
      using paths_ok [OF leaf_ok_path [OF ok [OF that]]] by (simp add: path_ok_def)
    show "(joined [] q, l) \<in> set vals" if "(q, l) \<in> set (leaves ?tree)" for q l
      using that [unfolded lt] j by auto
    show "\<exists>q. joined [] q = path \<and> (q, v) \<in> set (leaves ?tree)" if "(path, v) \<in> set vals" for path v
      unfolding lt using j [OF that] that by blast
  qed
  then show thesis using that [OF pay pl cc small walk] by blast
qed


section \<open>Accumulation\<close>

text \<open>What a parser does with an accumulator: any sequence of observations and parse failures.\<close>

inductive accumulates :: "protocol \<Rightarrow> accumulator \<Rightarrow> bool" for p where
  start: "accumulates p (new_accumulator p)"
| failure: "accumulates p a \<Longrightarrow> accumulates p (note_parse_failure a)"
| openai: "accumulates p a \<Longrightarrow> p = OpenAI \<Longrightarrow> accumulates p (observe_openai_response r a)"
| anthropic: "accumulates p a \<Longrightarrow> p = Anthropic \<Longrightarrow>
    accumulates p (observe_anthropic_usage usage inp out replace_out a)"

definition acc_inv :: "protocol \<Rightarrow> accumulator \<Rightarrow> bool" where
  "acc_inv p a \<longleftrightarrow> ac_protocol a = p \<and> values_ok p (ac_values a)"

lemma values_ok_set: "values_ok p vals \<Longrightarrow> leaf_ok p path v \<Longrightarrow> values_ok p (dict_set path v vals)"
  unfolding values_ok_def
proof (elim conjE, intro conjI)
  assume "\<forall>(path, v) \<in> set vals. leaf_ok p path v" "leaf_ok p path v"
  then show "\<forall>(path, v) \<in> set (dict_set path v vals). leaf_ok p path v"
    by (induction path v vals rule: dict_set.induct) auto
qed simp

lemma values_ok_filter: "values_ok p vals \<Longrightarrow> values_ok p (filter f vals)"
  by (auto simp: values_ok_def keys_def distinct_map_filter)

lemma acc_inv_reject: "acc_inv p a \<Longrightarrow> acc_inv p (reject_path path a)"
  by (simp add: acc_inv_def reject_path_def dict_del_def values_ok_filter)

lemma acc_inv_integer:
  assumes "acc_inv p a" and "path \<in> set (integer_paths p)"
  shows "acc_inv p (observe_integer path v a)"
proof -
  have "leaf_ok p path (JInt i)" if "in_counter_range i" for i
    using assms(2) that by (simp add: leaf_ok_def)
  then show ?thesis
    using assms(1) acc_inv_reject [OF assms(1)] values_ok_set [of p "ac_values a" path]
    by (auto simp: observe_integer_def acc_inv_def split: option.splits json.splits)
qed

lemma acc_inv_dimension:
  assumes "acc_inv p a" and "path \<notin> set (integer_paths p)"
  shows "acc_inv p (observe_dimension path v a)"
proof (cases v)
  case (Some x)
  show ?thesis
  proof (cases "map_of (dimension_paths p) path")
    case (Some allowed)
    have "leaf_ok p path x" if "dimension_ok allowed x"
      using assms(2) that Some by (simp add: leaf_ok_def)
    then show ?thesis
      using assms(1) acc_inv_reject [OF assms(1)] values_ok_set [of p "ac_values a" path x] \<open>v = Some x\<close> Some
      by (simp add: observe_dimension_def acc_inv_def)
  qed (use assms \<open>v = Some x\<close> in \<open>simp add: observe_dimension_def acc_inv_def\<close>)
qed (use assms in \<open>simp add: observe_dimension_def\<close>)

lemma acc_inv_paths: "acc_inv p a \<Longrightarrow> set paths \<subseteq> set (integer_paths p) \<Longrightarrow> acc_inv p (observe_paths paths u a)"
  unfolding observe_paths_def
  by (induction paths arbitrary: a) (simp_all add: acc_inv_integer)

lemma acc_inv_flags:
  "acc_inv p (a\<lparr>ac_saw_usage := b\<rparr>) = acc_inv p a" "acc_inv p (a\<lparr>ac_invalid := b\<rparr>) = acc_inv p a"
  by (simp_all add: acc_inv_def)

lemma dimension_not_integer:
  "path \<in> set (keys (dimension_paths p)) \<Longrightarrow> path \<notin> set (integer_paths p)"
  by (cases p) (auto simp: dimension_paths_def integer_paths_def keys_def)

lemma acc_inv_dimensions:
  "set ds \<subseteq> set (dimension_paths p) \<Longrightarrow> acc_inv p a \<Longrightarrow>
     acc_inv p (fold (\<lambda>(path, _). observe_dimension path (f path)) ds a)"
proof (induction ds arbitrary: a)
  case (Cons e ds)
  obtain path xs where e: "e = (path, xs)" by (cases e)
  then have "path \<notin> set (integer_paths p)"
    using Cons.prems(1) by (intro dimension_not_integer) (force simp: keys_def)
  then show ?case using Cons e acc_inv_dimension by simp
qed simp

lemma acc_inv_usage: "acc_inv p a \<Longrightarrow> acc_inv p (observe_usage u a)"
  by (auto simp: observe_usage_def acc_inv_flags split: option.splits json.splits
      intro!: acc_inv_paths) (simp add: acc_inv_def)

lemma acc_inv_openai: "acc_inv p a \<Longrightarrow> acc_inv p (observe_openai_response r a)"
proof (cases r)
  case (JDict d)
  assume "acc_inv p a"
  moreover have "''service_tier'' \<notin> set (integer_paths p)"
    by (rule dimension_not_integer) (cases p; simp add: dimension_paths_def keys_def)
  ultimately show ?thesis
    using JDict by (simp add: observe_openai_response_def acc_inv_dimension acc_inv_usage)
qed (simp_all add: observe_openai_response_def acc_inv_flags)

lemma acc_inv_anthropic:
  assumes "acc_inv Anthropic a"
  shows "acc_inv Anthropic (observe_anthropic_usage u inp out rep a)"
proof -
  have "acc_inv Anthropic (if rep
      then a\<lparr>ac_values := filter (\<lambda>(path, _). \<not> is_output_path path) (ac_values a)\<rparr> else a)" (is "acc_inv _ ?a")
    using assms by (simp add: acc_inv_def values_ok_filter)
  then show ?thesis
    by (auto simp: observe_anthropic_usage_def Let_def acc_inv_flags split: option.splits json.splits
        intro!: acc_inv_dimensions acc_inv_paths)
qed

lemma accumulates_inv: "accumulates p a \<Longrightarrow> acc_inv p a"
proof (induction rule: accumulates.induct)
  case start
  show ?case by (simp add: acc_inv_def new_accumulator_def values_ok_def)
qed (simp_all add: note_parse_failure_def acc_inv_flags acc_inv_openai acc_inv_anthropic)


section \<open>What the accumulator concludes\<close>

lemma utf8_length: "length (utf8_encode s) \<le> 2 * length s" "length s \<le> length (utf8_encode s)"
  by (induction s) (auto simp: utf8_encode_def utf8_char_def Let_def)

lemma values_cong:
  assumes "map_of vals = map_of vals'"
  shows "normalize_native_values p vals = normalize_native_values p vals'"
    "has_key vals = has_key vals'"
proof -
  have "int_value vals = int_value vals'" "string_value vals = string_value vals'"
    by (simp_all add: fun_eq_iff int_value_def string_value_def assms)
  then show "normalize_native_values p vals = normalize_native_values p vals'"
    by (simp only: normalize_native_values_def)
  show "has_key vals = has_key vals'" by (simp add: fun_eq_iff has_key_def assms)
qed

definition opt_range :: "int option \<Rightarrow> bool" where
  "opt_range v = (case v of None \<Rightarrow> True | Some i \<Rightarrow> in_counter_range i)"

lemma int_value_range: "values_ok p vals \<Longrightarrow> opt_range (int_value vals path)"
proof -
  assume ok: "values_ok p vals"
  have "in_counter_range i" if "map_of vals path = Some (JInt i)" for i
    using ok map_of_SomeD [OF that]
    by (auto simp: values_ok_def leaf_ok_def dimension_ok_def split: if_splits option.splits)
  then show ?thesis by (auto simp: opt_range_def int_value_def split: option.splits json.splits)
qed

lemma leaf_ok_str: "leaf_ok p path (JStr s) \<Longrightarrow> identifier_text s"
  by (auto simp: leaf_ok_def dimension_ok_def split: if_splits option.splits)

lemma string_value_ident:
  assumes "values_ok p vals" and "string_value vals path = Some s"
  shows "identifier_text s"
proof -
  have "map_of vals path = Some (JStr s)"
    using assms(2) by (auto simp: string_value_def split: option.splits json.splits)
  then have "leaf_ok p path (JStr s)"
    using assms(1) by (auto simp: values_ok_def dest!: map_of_SomeD)
  then show ?thesis by (rule leaf_ok_str)
qed

lemma unless_above_range: "opt_range v \<Longrightarrow> opt_range (unless_above b v)"
  by (simp add: unless_above_def opt_range_def)

lemma checked_sum_range: "list_all opt_range vs \<Longrightarrow> opt_range (checked_sum vs)"
proof -
  assume vs: "list_all opt_range vs"
  have "0 \<le> sum_list (map the vs)" if "None \<notin> set vs"
    using vs that
  proof (induction vs)
    case (Cons v vs)
    then show ?case by (cases v) (auto simp: opt_range_def in_counter_range_def)
  qed simp
  then show ?thesis by (auto simp: checked_sum_def opt_range_def in_counter_range_def Let_def)
qed

lemma counter_ok_opt: "opt_range v \<Longrightarrow> counter_ok True (opt_int v)"
  by (auto simp: opt_range_def opt_int_def split: option.splits)

lemma normalized_range:
  assumes ok: "values_ok p vals" and n: "normalize_native_values p vals = (u, invalid)"
  shows "list_all (counter_ok True) (usage_counters u)"
    "list_all (\<lambda>v. v = JNull \<or> is_ok (ident v)) (usage_dimensions u)"
proof -
  note r = int_value_range [OF ok]
  have none: "opt_range None" by (simp add: opt_range_def)
  have ck: "opt_range (checked_sum [int_value vals a, int_value vals b, int_value vals c, int_value vals d])"
    "opt_range (checked_sum [int_value vals a, int_value vals b])" for a b c d
    by (rule checked_sum_range, simp add: r)+
  have u: "u = fst (normalize_native_values p vals)" by (simp add: n)
  have "opt_range (nz_input u) \<and> opt_range (nz_output u) \<and> opt_range (nz_cache_read u) \<and>
      opt_range (nz_cache_write u) \<and> opt_range (nz_cache_5m u) \<and> opt_range (nz_cache_1h u) \<and>
      opt_range (nz_reasoning u) \<and> opt_range (nz_total u) \<and> nz_billable_input u = None \<and>
      nz_billable_output u = None \<and> opt_range (nz_server_tools u)"
    unfolding u by (cases p) (simp_all add: normalize_native_values_def Let_def r ck none unless_above_range)
  then show "list_all (counter_ok True) (usage_counters u)"
    by (simp add: usage_counters_def counter_ok_opt opt_range_def)
  have "nz_service_tier u = string_value vals ''service_tier''"
    "nz_inference_geo u = string_value vals ''inference_geo''"
    unfolding u by (cases p; simp add: normalize_native_values_def Let_def)+
  then show "list_all (\<lambda>v. v = JNull \<or> is_ok (ident v)) (usage_dimensions u)"
    using string_value_ident [OF ok]
    by (auto simp: usage_dimensions_def opt_str_def ident_def split: option.splits)
qed

lemma profile_protocol [simp]: "protocol_of_profile (JStr (profile p)) = Some p"
  by (cases p) (simp_all add: protocol_of_profile_def profile_def)

lemma absent_valid:
  assumes "reason \<in> set observation_reasons" "reason \<noteq> ''provider_usage_incomplete''"
  shows "\<exists>ob. absent_observation sha p reason = Inr ob \<and> validate_observation sha ob = Inr () \<and>
     no_state ob = JStr ''absent''"
  using assms by (auto simp: absent_observation_def make_observation_def validate_observation_def numeral_eq_Suc)

lemma finish_evidence:
  assumes "accumulates p a" and "\<And>bytes. is_hex64 (sha bytes)"
  shows "\<exists>ob. acc_finish sha a = Inr ob \<and> validate_observation sha ob = Inr () \<and>
     (no_state ob = JStr ''complete'' \<longleftrightarrow> list_all (has_key (ac_values a)) (required_paths p) \<and>
        \<not> ac_invalid a \<and> \<not> snd (normalize_native_values p (ac_values a))) \<and>
     (ac_values a \<noteq> [] \<longrightarrow> (\<exists>text tree vals. no_payload ob = JStr text \<and> loads text = Some tree \<and>
        payload_values p tree = Inr vals \<and> map_of vals = map_of (ac_values a)) \<and>
        no_schema_id ob = JStr (profile p) \<and>
        no_counters ob = usage_counters (fst (normalize_native_values p (ac_values a))))"
proof (cases "ac_values a = []")
  case True
  have "\<not> list_all (has_key []) (required_paths p)"
    by (cases p) (simp_all add: required_paths_def has_key_def)
  moreover have r: "(if ac_invalid a then ''provider_usage_invalid'' else ''provider_usage_absent'')
      \<in> set observation_reasons" "(if ac_invalid a then ''provider_usage_invalid''
      else ''provider_usage_absent'') \<noteq> ''provider_usage_incomplete''"
    by (simp_all add: observation_reasons_def)
  from absent_valid [OF r, of sha p] obtain ob where "absent_observation sha p
      (if ac_invalid a then ''provider_usage_invalid'' else ''provider_usage_absent'') = Inr ob"
    "validate_observation sha ob = Inr ()" "no_state ob = JStr ''absent''"
    by blast
  moreover have "ac_protocol a = p" using accumulates_inv [OF assms(1)] by (simp add: acc_inv_def)
  ultimately show ?thesis using True by (auto simp: acc_finish_def)
next
  case False
  have p: "ac_protocol a = p" and ok: "values_ok p (ac_values a)"
    using accumulates_inv [OF assms(1)] by (simp_all add: acc_inv_def)
  obtain tree vals where t: "native_payload (ac_values a) = Inr (dump True tree)" "plain tree" "canon tree = tree"
    "length (dump True tree) \<le> 8192" "payload_values p tree = Inr vals" "map_of vals = map_of (ac_values a)"
    by (rule payload_back [OF ok False])
  obtain u invalid where n: "normalize_native_values p (ac_values a) = (u, invalid)" by fastforce
  have n': "normalize_native_values p vals = (u, invalid)" using values_cong(1) [OF t(6)] n by simp
  have lo: "loads (dump True tree) = Some tree" using loads_dump [OF t(2)] .
  have len: "len_between 1 16384 (utf8_encode (dump True tree))"
    using utf8_length [of "dump True tree"] t(4) dump_head [OF t(2), of True] by (auto simp: len_between_def)
  let ?bad = "ac_invalid a \<or> invalid"
  let ?present = "list_all (has_key (ac_values a)) (required_paths p)"
  let ?complete = "?present \<and> \<not> ?bad"
  let ?ob = "\<lparr>no_schema_id = JStr (profile p), no_schema_version = JInt 1,
                   no_state = JStr (if ?complete then ''complete'' else ''partial''),
                   no_reason = (if ?complete then JNull else if ?bad then JStr ''provider_usage_invalid''
                                else JStr ''provider_usage_incomplete''),
                   no_payload = JStr (dump True tree), no_digest = JStr (sha (utf8_encode (dump True tree))),
                   no_counters = usage_counters u, no_dimensions = usage_dimensions u\<rparr>"
  have "payload_evidence_ok sha p ?ob"
    using len lo t(3,5) n' values_cong(2) [OF t(6)] assms(2)
    by (simp add: payload_evidence_ok_def Let_def)
  then have valid: "validate_observation sha ?ob = Inr ()"
    using normalized_range [OF ok n] by (auto simp: validate_observation_def observation_reasons_def)
  have "acc_finish sha a = make_observation sha ?ob"
    using False t(1) n p by (simp add: acc_finish_def)
  then have "acc_finish sha a = Inr ?ob" using valid by (simp add: make_observation_def)
  then show ?thesis using valid n lo t(5,6) by (intro exI [of _ ?ob]) auto
qed

text \<open>
  C25: However a provider's response was observed, finishing the accumulator never raises: the evidence it
  builds passes the validator every stored row is checked with; it is complete exactly when every required
  counter was seen and nothing was invalid; and the stored payload text decodes to exactly the values that
  were collected.
\<close>
theorem usage_evidence_always_valid:
  assumes "accumulates p a" and "\<And>bytes. is_hex64 (sha bytes)"
  shows "\<exists>ob. acc_finish sha a = Inr ob \<and> validate_observation sha ob = Inr () \<and>
     (no_state ob = JStr ''complete'' \<longleftrightarrow> list_all (has_key (ac_values a)) (required_paths p) \<and>
        \<not> ac_invalid a \<and> \<not> snd (normalize_native_values p (ac_values a))) \<and>
     (ac_values a \<noteq> [] \<longrightarrow> (\<exists>text tree vals. no_payload ob = JStr text \<and> loads text = Some tree \<and>
        payload_values p tree = Inr vals \<and> map_of vals = map_of (ac_values a)))"
  using finish_evidence [OF assms(1), of sha] assms(2) by blast

definition example_sha :: "string \<Rightarrow> string" where
  "example_sha bytes = replicate 64 (CHR ''0'')"

definition example_response :: json where
  "example_response = JDict [(''usage'', JDict [(''input_tokens'', JInt 12), (''output_tokens'', JInt 3),
     (''total_tokens'', JInt 15), (''input_tokens_details'', JDict [(''cached_tokens'', JInt 4)])])]"

theorem usage_evidence_always_valid_witness:
  "\<exists>ob. acc_finish example_sha (observe_openai_response example_response (new_accumulator OpenAI)) = Inr ob \<and>
     no_state ob = JStr ''complete''"
proof -
  let ?a = "observe_openai_response example_response (new_accumulator OpenAI)"
  have acc: "accumulates OpenAI ?a" by (intro accumulates.intros) simp
  have "is_hex64 (example_sha bytes)" for bytes
    by (simp add: is_hex64_def example_sha_def list_all_iff is_digit_def ord_of_def)
  moreover have "list_all (has_key (ac_values ?a)) (required_paths OpenAI)" "\<not> ac_invalid ?a"
    "\<not> snd (normalize_native_values OpenAI (ac_values ?a))" by code_simp+
  ultimately show ?thesis using usage_evidence_always_valid [OF acc, of example_sha] by blast
qed


section \<open>Configured estimates are exact\<close>

lemma pow10_add: "pow10 (a + b) = pow10 a * pow10 b"
proof (cases "0 \<le> b")
  case True
  then show ?thesis using pow10_add_nat [of a "nat b"] by (simp add: pow10_def mult.commute)
next
  case False
  then have "pow10 a = pow10 (a + b + int (nat (- b)))" by simp
  also have "\<dots> = 10 ^ nat (- b) * pow10 (a + b)" by (rule pow10_add_nat)
  finally show ?thesis using False by (simp add: pow10_def [of b])
qed

lemma exact96_value: "exact96 d = Some e \<Longrightarrow> e = d"
  by (simp add: exact96_def split: if_splits)

lemma exact_mult_value: "exact_mult a b = Some c \<Longrightarrow> dec_value c = dec_value a * dec_value b"
  by (cases a; cases b) (auto simp: pow10_add dest!: exact96_value)

lemma dec_value_signed:
  "dec_value (Dec s c e) = of_int (if s then - int c else int c) * pow10 e"
  by simp

lemma aligned: "g \<le> e \<Longrightarrow> of_int (if s then - int (c * 10 ^ nat (e - g)) else int (c * 10 ^ nat (e - g))) * pow10 g
    = dec_value (Dec s c e)"
proof -
  assume "g \<le> e"
  then have "pow10 e = 10 ^ nat (e - g) * pow10 g" using pow10_add_nat [of g "nat (e - g)"] by simp
  then show ?thesis by simp
qed

lemma exact_add_value: "exact_add a b = Some c \<Longrightarrow> dec_value c = dec_value a + dec_value b"
proof -
  obtain s x e where a: "a = Dec s x e" by (cases a)
  obtain t y f where b: "b = Dec t y f" by (cases b)
  let ?g = "min e f"
  let ?x = "if s then - int (x * 10 ^ nat (e - ?g)) else int (x * 10 ^ nat (e - ?g))"
  let ?y = "if t then - int (y * 10 ^ nat (f - ?g)) else int (y * 10 ^ nat (f - ?g))"
  assume "exact_add a b = Some c"
  then have c: "c = Dec (?x + ?y < 0) (nat \<bar>?x + ?y\<bar>) ?g"
    unfolding a b exact_add.simps Let_def by (rule exact96_value)
  have "dec_value c = of_int (?x + ?y) * pow10 ?g"
    unfolding c dec_value_signed by (simp only: int_nat_eq) (auto simp: abs_if)
  also have "\<dots> = of_int ?x * pow10 ?g + of_int ?y * pow10 ?g" by (simp only: of_int_add distrib_right)
  also have "\<dots> = dec_value a + dec_value b"
    unfolding a b using aligned [of ?g e s x] aligned [of ?g f t y] by simp
  finally show ?thesis .
qed

lemma int_decimal_value: "dec_value (int_decimal i) = of_int i"
  by (simp add: int_decimal_def pow10_def)

lemma exact_sum_value:
  "exact_sum acc ps = Some d \<Longrightarrow>
     dec_value d = dec_value acc + sum_list (map (\<lambda>(q, r). of_int q * dec_value r) ps)"
  by (induction acc ps rule: exact_sum.induct)
    (auto simp: int_decimal_value dest!: exact_mult_value exact_add_value split: option.splits)

lemma binding_accepted:
  assumes "rate_card_binding_of i v d c = Inr b"
  shows "rate_card_binding_of (JStr (rc_id b)) (JInt (rc_version b)) (JStr (rc_digest b)) (JStr (rc_currency b)) = Inr b"
  using assms by (auto simp: rate_card_binding_of_def ident_def split: json.splits if_splits)

lemma unavailable_accepted:
  assumes "rate_card_binding_of i v d c = Inr b" and "reason \<in> set estimate_reasons" "reason \<noteq> ''estimated''"
  shows "unavailable_estimate b reason = Inr (estimate_for b ''unavailable'' JNull JNull reason)"
  using assms binding_accepted [OF assms(1)]
  by (simp add: unavailable_estimate_def make_estimate_def estimate_for_def)

lemma available_accepted:
  assumes "rate_card_binding_of i v d c = Inr b" and "in_counter_range n"
    and "text_of_decimal (Dec False (nat n) (-6)) = Inr amount"
  shows "make_estimate (estimate_for b ''available'' (JStr amount) (JInt n) ''estimated'')
    = Inr (estimate_for b ''available'' (JStr amount) (JInt n) ''estimated'')"
proof -
  have "dec_value (decimal_of_text amount) * 1000000 = of_int n"
    using text_denotes(2) [OF assms(3)] assms(2) by (simp add: pow10_def in_counter_range_def)
  then show ?thesis
    using assms(2) text_idempotent [OF assms(3)] binding_accepted [OF assms(1)]
    by (simp add: make_estimate_def estimate_for_def available_amount_ok_def amount_of_json_def estimate_reasons_def)
qed

lemma pricing_reason:
  "configured_pricing_values ob = Inr reason \<Longrightarrow> reason \<in> {''missing_native_usage'', ''invalid_native_usage''}"
  by (auto simp: configured_pricing_values_def split: list.splits option.splits protocol.splits if_splits)

text \<open>
  C26: Pricing an attempt under a bound rate card never raises. When it gives an amount, the microunits are
  the exact sum of the priced quantities times the configured rates, rounded once to the nearest integer
  with ties to the even one, within the counter range, and the decimal text is that number of millionths.
\<close>
theorem configured_estimate_exact:
  assumes "rate_card_binding_of i v d c = Inr b"
  shows "\<exists>e. estimate_configured_route sha b ob rates = Inr e \<and>
     (es_availability e = JStr ''available'' \<longrightarrow>
        (\<exists>quantities rs n amount. configured_pricing_values ob = Inl quantities \<and> read_rates rates = Some rs \<and>
           n = round_half_even (sum_list (map (\<lambda>(q, r). of_int q * dec_value r) (zip quantities rs))) \<and>
           in_counter_range n \<and> es_microusd e = JInt n \<and> es_amount e = JStr amount \<and>
           dec_value (decimal_of_text amount) = of_int n / 1000000))"
proof -
  have unavailable: "\<exists>e. unavailable_estimate b reason = Inr e \<and> es_availability e \<noteq> JStr ''available''"
    if "reason \<in> {''missing_native_usage'', ''invalid_native_usage'', ''estimate_outside_precision''}" for reason
    using that unavailable_accepted [OF assms, of reason] by (auto simp: estimate_reasons_def estimate_for_def)
  show ?thesis
  proof (cases "if is_ok (validate_observation sha ob) then read_rates rates else None")
    case None
    then show ?thesis using unavailable [of "''estimate_outside_precision''"]
      by (auto simp: estimate_configured_route_def)
  next
    case (Some rs)
    then have rs: "read_rates rates = Some rs" by (simp split: if_splits)
    show ?thesis
    proof (cases "configured_pricing_values ob")
      case (Inr reason)
      then show ?thesis using Some unavailable [of reason] pricing_reason [OF Inr]
        by (auto simp: estimate_configured_route_def)
    next
      case (Inl quantities)
      show ?thesis
      proof (cases "exact_sum (Dec False 0 0) (zip quantities rs)")
        case None
        then show ?thesis using Some Inl unavailable [of "''estimate_outside_precision''"]
          by (auto simp: estimate_configured_route_def)
      next
        case (Some micro)
        let ?n = "round_half_even (dec_value micro)"
        have val: "dec_value micro = sum_list (map (\<lambda>(q, r). of_int q * dec_value r) (zip quantities rs))"
          using exact_sum_value [OF Some] by simp
        have est: "estimate_configured_route sha b ob rates
          = (if ?n < 0 \<or> max_integer < ?n then unavailable_estimate b ''estimate_outside_precision''
             else case text_of_decimal (Dec False (nat ?n) (-6)) of
                 Inl _ \<Rightarrow> unavailable_estimate b ''estimate_outside_precision''
               | Inr amount \<Rightarrow> make_estimate (estimate_for b ''available'' (JStr amount) (JInt ?n) ''estimated''))"
          unfolding estimate_configured_route_def \<open>(if _ then _ else _) = Some rs\<close> Inl Some
          by (simp add: Let_def Some)
        show ?thesis
        proof (cases "in_counter_range ?n \<and> is_ok (text_of_decimal (Dec False (nat ?n) (-6)))")
          case False
          then show ?thesis using unavailable [of "''estimate_outside_precision''"] est
            by (auto simp: in_counter_range_def split: sum.splits)
        next
          case True
          then obtain amount where amount: "text_of_decimal (Dec False (nat ?n) (-6)) = Inr amount"
            by (auto simp: is_ok_iff)
          have "dec_value (decimal_of_text amount) = of_int ?n / 1000000"
            using text_denotes(2) [OF amount] True by (simp add: pow10_def in_counter_range_def)
          moreover have "estimate_configured_route sha b ob rates
              = Inr (estimate_for b ''available'' (JStr amount) (JInt ?n) ''estimated'')"
            using est True amount available_accepted [OF assms _ amount] by (simp add: in_counter_range_def)
          ultimately show ?thesis using Inl rs True val by (auto simp: estimate_for_def)
        qed
      qed
    qed
  qed
qed

definition example_card :: rate_card_binding where
  "example_card = \<lparr>rc_id = ''card-1'', rc_version = 1, rc_digest = replicate 64 (CHR ''a''), rc_currency = ''USD''\<rparr>"

definition example_priced :: accumulator where
  "example_priced = observe_openai_response
       (JDict [(''usage'', JDict [(''input_tokens'', JInt 12), (''output_tokens'', JInt 3),
          (''total_tokens'', JInt 15), (''input_tokens_details'',
             JDict [(''cached_tokens'', JInt 4), (''cache_write_tokens'', JInt 1)])])])
       (new_accumulator OpenAI)"

theorem configured_estimate_exact_witness:
  "\<exists>ob e. acc_finish example_sha example_priced = Inr ob \<and>
     estimate_configured_route example_sha example_card ob [JInt 3, JInt 1, JInt 4, JInt 15] = Inr e \<and>
     es_availability e = JStr ''available'' \<and> es_microusd e = JInt 74"
proof -
  have card: "rate_card_binding_of (JStr ''card-1'') (JInt 1) (JStr (replicate 64 (CHR ''a''))) (JStr ''USD'')
      = Inr example_card" by code_simp
  have acc: "accumulates OpenAI example_priced"
    unfolding example_priced_def by (intro accumulates.intros) simp
  have hex: "is_hex64 (example_sha bytes)" for bytes
    by (simp add: is_hex64_def example_sha_def list_all_iff is_digit_def ord_of_def)
  have ne: "ac_values example_priced \<noteq> []" by code_simp
  from finish_evidence [OF acc, of example_sha, OF hex] ne obtain ob where
    ob: "acc_finish example_sha example_priced = Inr ob" "validate_observation example_sha ob = Inr ()"
      "no_schema_id ob = JStr (profile OpenAI)"
      "no_counters ob = usage_counters (fst (normalize_native_values OpenAI (ac_values example_priced)))"
    by blast
  have "take 4 (usage_counters (fst (normalize_native_values OpenAI (ac_values example_priced))))
      = [JInt 12, JInt 3, JInt 4, JInt 1]" by code_simp
  then have q: "configured_pricing_values ob = Inl [7, 4, 1, 3]"
    by (simp add: configured_pricing_values_def ob(3,4))
  have rs: "read_rates [JInt 3, JInt 1, JInt 4, JInt 15]
      = Some [Dec False 3 0, Dec False 1 0, Dec False 4 0, Dec False 15 0]" by code_simp
  have "exact_sum (Dec False 0 0) (zip [7, 4, 1, 3] [Dec False 3 0, Dec False 1 0, Dec False 4 0, Dec False 15 0])
      = Some (Dec False 74 0)" by code_simp
  moreover have "text_of_decimal (Dec False 74 (-6)) = Inr ''0.000074''" by code_simp
  ultimately have "\<exists>e. estimate_configured_route example_sha example_card ob [JInt 3, JInt 1, JInt 4, JInt 15]
      = make_estimate (estimate_for example_card ''available'' (JStr ''0.000074'') (JInt 74) ''estimated'')"
    using ob(2) q rs round_half_even_int [of 74]
    by (simp add: estimate_configured_route_def pow10_def max_integer_def)
  moreover have "make_estimate (estimate_for example_card ''available'' (JStr ''0.000074'') (JInt 74) ''estimated'')
      = Inr (estimate_for example_card ''available'' (JStr ''0.000074'') (JInt 74) ''estimated'')"
    by code_simp
  ultimately have "estimate_configured_route example_sha example_card ob [JInt 3, JInt 1, JInt 4, JInt 15]
      = Inr (estimate_for example_card ''available'' (JStr ''0.000074'') (JInt 74) ''estimated'')" by simp
  then show ?thesis
    using configured_estimate_exact [OF card, of example_sha ob "[JInt 3, JInt 1, JInt 4, JInt 15]"] ob(1)
    by (auto simp: estimate_for_def)
qed

end
