(* ===== verification/Usage_Parser.thy ===== *)
theory Usage_Parser
  imports Finance_Evidence
begin

text \<open>
  The response usage parser (\<^verbatim>\<open>ResponseUsageParser\<close> of \<^verbatim>\<open>src/hormuz/usage.py\<close>): it reads usage counters, the
  reported model and the terminal state out of a provider's answer, either one JSON body or an event
  stream fed in chunks, and drives the finance accumulator. A chunk of an event stream is the text the
  incremental decoder gives for its bytes; a chunk of a body is its bytes.
\<close>

record usage =
  us_input :: int
  us_output :: int
  us_cache_read :: int
  us_cache_write :: int
  us_reasoning :: int
  us_model :: "string option"
  us_complete :: bool

definition zero_usage :: usage where
  "zero_usage = \<lparr>us_input = 0, us_output = 0, us_cache_read = 0, us_cache_write = 0, us_reasoning = 0,
     us_model = None, us_complete = False\<rparr>"

record parsed_usage =
  pu_usage :: usage
  pu_finance :: native_observation
  pu_terminal :: "string option"

record parser =
  pr_protocol :: protocol
  pr_stream :: bool
  pr_chat :: bool
  pr_chat_valid :: bool
  pr_usage :: usage
  pr_line :: string
  pr_body :: string
  pr_input_seen :: bool
  pr_output_seen :: bool
  pr_native :: accumulator
  pr_terminal :: "string option"
  pr_completed :: bool
  pr_finished :: "parsed_usage option"

definition new_parser :: "protocol \<Rightarrow> bool \<Rightarrow> bool \<Rightarrow> parser" where
  "new_parser p stream chat = \<lparr>pr_protocol = p, pr_stream = stream, pr_chat = chat, pr_chat_valid = False,
     pr_usage = zero_usage, pr_line = [], pr_body = [], pr_input_seen = False, pr_output_seen = False,
     pr_native = new_accumulator p, pr_terminal = None, pr_completed = False, pr_finished = None\<rparr>"

section \<open>Reading one object\<close>

definition terminal_events :: "string list" where
  "terminal_events = [''response.completed'', ''response.failed'', ''response.incomplete'']"

definition terminal_states :: "string list" where
  "terminal_states = [''completed'', ''failed'', ''incomplete'']"

definition observed_int :: "json \<Rightarrow> int option" where
  "observed_int v = (case v of JInt i \<Rightarrow> if i < 0 then None else Some i | _ \<Rightarrow> None)"

definition nonnegative_int :: "json \<Rightarrow> int \<Rightarrow> int" where
  "nonnegative_int v fallback = (case observed_int v of None \<Rightarrow> fallback | Some i \<Rightarrow> i)"

definition set_native :: "(accumulator \<Rightarrow> accumulator) \<Rightarrow> parser \<Rightarrow> parser" where
  "set_native f s = s\<lparr>pr_native := f (pr_native s)\<rparr>"

definition set_terminal :: "string \<Rightarrow> parser \<Rightarrow> parser" where
  "set_terminal v s = (case pr_terminal s of
      None \<Rightarrow> s\<lparr>pr_terminal := Some v\<rparr>
    | Some t \<Rightarrow> if t = v then s else set_native note_parse_failure (s\<lparr>pr_terminal := Some ''failed''\<rparr>))"

text \<open>Testing a list or an object for membership in a set of strings raises a \<^verbatim>\<open>TypeError\<close>.\<close>

definition observe_terminal :: "json \<Rightarrow> parser \<Rightarrow> parser res" where
  "observe_terminal v s = (case v of
      JList _ \<Rightarrow> Inl ''TypeError''
    | JDict _ \<Rightarrow> Inl ''TypeError''
    | JStr t \<Rightarrow> if t \<in> set terminal_states then Inr (set_terminal t s) else Inr s
    | _ \<Rightarrow> Inr s)"

definition apply_model :: "json \<Rightarrow> parser \<Rightarrow> parser" where
  "apply_model v s = (case v of
      JStr m \<Rightarrow> if len_between 1 256 m \<and> list_all (\<lambda>c. c \<notin> {CHR 0x0D, CHR 0x0A, CHR 0x00}) m
                then s\<lparr>pr_usage := (pr_usage s)\<lparr>us_model := Some m\<rparr>\<rparr> else s
    | _ \<Rightarrow> s)"

definition see_input :: "json \<Rightarrow> parser \<Rightarrow> parser" where
  "see_input v s = (case observed_int v of
      None \<Rightarrow> s | Some i \<Rightarrow> s\<lparr>pr_usage := (pr_usage s)\<lparr>us_input := i\<rparr>, pr_input_seen := True\<rparr>)"

definition see_output :: "json \<Rightarrow> parser \<Rightarrow> parser" where
  "see_output v s = (case observed_int v of
      None \<Rightarrow> s | Some i \<Rightarrow> s\<lparr>pr_usage := (pr_usage s)\<lparr>us_output := i\<rparr>, pr_output_seen := True\<rparr>)"

definition apply_openai_usage :: "json \<Rightarrow> parser \<Rightarrow> parser" where
  "apply_openai_usage v s = (case v of
      JDict u \<Rightarrow>
        let s1 = see_output (dget u ''output_tokens'') (see_input (dget u ''input_tokens'') s);
            us = pr_usage s1;
            us1 = (case dget u ''input_tokens_details'' of
                JDict d \<Rightarrow> us\<lparr>us_cache_read := nonnegative_int (dget d ''cached_tokens'') (us_cache_read us)\<rparr>
              | _ \<Rightarrow> us);
            us2 = (case dget u ''output_tokens_details'' of
                JDict d \<Rightarrow> us1\<lparr>us_reasoning := nonnegative_int (dget d ''reasoning_tokens'') (us_reasoning us1)\<rparr>
              | _ \<Rightarrow> us1)
        in s1\<lparr>pr_usage := us2\<rparr>
    | _ \<Rightarrow> s)"

definition apply_anthropic_usage :: "json \<Rightarrow> bool \<Rightarrow> bool \<Rightarrow> parser \<Rightarrow> parser" where
  "apply_anthropic_usage v observe_input observe_output s = (case v of
      JDict u \<Rightarrow>
        let s1 = (if observe_input then
                (let s0 = see_input (dget u ''input_tokens'') s; us = pr_usage s0
                 in s0\<lparr>pr_usage := us\<lparr>
                      us_cache_read := nonnegative_int (dget u ''cache_read_input_tokens'') (us_cache_read us),
                      us_cache_write := nonnegative_int (dget u ''cache_creation_input_tokens'') (us_cache_write us)\<rparr>\<rparr>)
              else s)
        in if observe_output then see_output (dget u ''output_tokens'') s1 else s1
    | _ \<Rightarrow> s)"

text \<open>Chat Completions name the counters differently; members that are absent stay absent.\<close>

definition chat_names :: "(string \<times> string) list" where
  "chat_names = [(''prompt_tokens'', ''input_tokens''), (''completion_tokens'', ''output_tokens''),
     (''prompt_tokens_details'', ''input_tokens_details''),
     (''completion_tokens_details'', ''output_tokens_details''), (''total_tokens'', ''total_tokens'')]"

definition chat_usage :: "jdict \<Rightarrow> jdict" where
  "chat_usage u = concat (map (\<lambda>(source, target).
     case map_of u source of None \<Rightarrow> [] | Some v \<Rightarrow> [(target, v)]) chat_names)"

definition is_complete :: "native_observation \<Rightarrow> bool" where
  "is_complete ob = (no_state ob = JStr ''complete'')"

definition canonical_complete :: "(string \<Rightarrow> string) \<Rightarrow> json \<Rightarrow> bool res" where
  "canonical_complete sha u = rbind (acc_finish sha (observe_openai_response (JDict [(''usage'', u)])
     (new_accumulator OpenAI))) (\<lambda>ob. Inr (is_complete ob))"

definition apply_openai_response :: "(string \<Rightarrow> string) \<Rightarrow> jdict \<Rightarrow> parser \<Rightarrow> parser res" where
  "apply_openai_response sha r s0 =
     (let s1 = apply_model (dget r ''model'') s0;
          usage = (case dget r ''usage'' of
              JDict u \<Rightarrow> if pr_chat s0 then JDict (chat_usage u) else JDict u
            | v \<Rightarrow> v);
          s2 = apply_openai_usage usage s1
      in if pr_chat s0 then
           (if dget r ''usage'' \<noteq> JNull
            then rbind (canonical_complete sha usage) (\<lambda>b. Inr (s2\<lparr>pr_chat_valid := b\<rparr>)) else Inr s2)
         else Inr (set_native (observe_openai_response (JDict r)) s2))"

definition parse_openai :: "(string \<Rightarrow> string) \<Rightarrow> jdict \<Rightarrow> parser \<Rightarrow> parser res" where
  "parse_openai sha value s =
     (let event = dget value ''type''; terminal = str_in event terminal_events
      in rbind (if terminal
                then rbind (observe_terminal (case event of JStr e \<Rightarrow> JStr (removeprefix ''response.'' e) | v \<Rightarrow> v) s)
                       (\<lambda>s1. Inr (if event = JStr ''response.completed'' then s1\<lparr>pr_completed := True\<rparr> else s1))
                else if pr_stream s then Inr s
                else observe_terminal (dget value ''status'') s) (\<lambda>s1.
           case (if terminal then dget value ''response'' else JDict value) of
             JDict r \<Rightarrow> apply_openai_response sha r s1
           | _ \<Rightarrow> Inr s1))"

definition parse_anthropic :: "jdict \<Rightarrow> parser \<Rightarrow> parser" where
  "parse_anthropic value s0 =
     (let stream = pr_stream s0;
          s = (if stream \<and> dget value ''type'' = JStr ''message_stop'' then s0\<lparr>pr_completed := True\<rparr> else s0)
      in case (if dget value ''type'' = JStr ''message_start'' then dget value ''message'' else JNull) of
           JDict m \<Rightarrow>
             set_native (observe_anthropic_usage (map_of m ''usage'') True (\<not> stream) False)
               (apply_anthropic_usage (dget m ''usage'') True (\<not> stream) (apply_model (dget m ''model'') s))
         | _ \<Rightarrow>
             let s1 = apply_model (dget value ''model'') s in
             if stream then
               (if dget value ''type'' = JStr ''message_delta'' then
                  set_native (observe_anthropic_usage (map_of value ''usage'') False True True)
                    (apply_anthropic_usage (dget value ''usage'') False True
                       (s1\<lparr>pr_usage := (pr_usage s1)\<lparr>us_output := 0\<rparr>, pr_output_seen := False\<rparr>))
                else s1)
             else set_native (observe_anthropic_usage (map_of value ''usage'') True True False)
                    (apply_anthropic_usage (dget value ''usage'') True True s1))"

definition parse_object :: "(string \<Rightarrow> string) \<Rightarrow> json \<Rightarrow> parser \<Rightarrow> parser res" where
  "parse_object sha v s = (case v of
      JDict value \<Rightarrow> (case pr_protocol s of
          OpenAI \<Rightarrow> parse_openai sha value s | Anthropic \<Rightarrow> Inr (parse_anthropic value s))
    | _ \<Rightarrow> Inr s)"

section \<open>Lines, chunks and the end\<close>

definition parse_event_line :: "string \<Rightarrow> parser \<Rightarrow> parser res" where
  "parse_event_line event s =
     rbind (if pr_protocol s = OpenAI \<and> event \<in> set terminal_events
            then observe_terminal (JStr (removeprefix ''response.'' event)) s else Inr s) (\<lambda>s1.
       Inr (if pr_protocol s1 = OpenAI \<and> event = ''response.completed''
               \<or> pr_protocol s1 = Anthropic \<and> event = ''message_stop''
            then s1\<lparr>pr_completed := True\<rparr> else s1))"

definition parse_data_line :: "(string \<Rightarrow> string) \<Rightarrow> string \<Rightarrow> parser \<Rightarrow> parser res" where
  "parse_data_line sha payload s =
     (if payload = [] then Inr s
      else if payload = ''[DONE]'' then Inr (s\<lparr>pr_completed := True\<rparr>)
      else case loads payload of
          None \<Rightarrow> Inr (set_native note_parse_failure s)
        | Some v \<Rightarrow> parse_object sha v s)"

definition parse_sse_line :: "(string \<Rightarrow> string) \<Rightarrow> string \<Rightarrow> parser \<Rightarrow> parser res" where
  "parse_sse_line sha line s =
     (if starts_with ''event:'' line then parse_event_line (strip (drop 6 line)) s
      else if starts_with ''data:'' line then parse_data_line sha (strip (drop 5 line)) s
      else Inr s)"

definition strip_cr :: "string \<Rightarrow> string" where
  "strip_cr s = rev (dropWhile (\<lambda>c. c = CHR 0x0D) (rev s))"

text \<open>The loop over complete lines: what is left in the buffer has no line feed.\<close>

fun cut_line :: "string \<Rightarrow> (string \<times> string) option" where
  "cut_line [] = None"
| "cut_line (c # cs) = (if c = CHR 0x0A then Some ([], cs)
     else map_option (\<lambda>(l, r). (c # l, r)) (cut_line cs))"

lemma cut_line_shorter: "cut_line s = Some (l, r) \<Longrightarrow> length r < length s"
  by (induction s arbitrary: l) (auto split: if_splits)

function consume_lines :: "(string \<Rightarrow> string) \<Rightarrow> string \<Rightarrow> parser \<Rightarrow> parser res" where
  "consume_lines sha buffer s = (case cut_line buffer of
      None \<Rightarrow> Inr (s\<lparr>pr_line := buffer\<rparr>)
    | Some (line, rest) \<Rightarrow> rbind (parse_sse_line sha (strip_cr line) s) (consume_lines sha rest))"
  by pat_completeness auto
termination
  by (relation "measure (\<lambda>(_, buffer, _). length buffer)") (auto dest: cut_line_shorter)

declare consume_lines.simps [simp del]

definition body_limit :: nat where
  "body_limit = 10 * 1024 * 1024"

definition feed :: "(string \<Rightarrow> string) \<Rightarrow> string \<Rightarrow> parser \<Rightarrow> parser res" where
  "feed sha data s =
     (if pr_finished s \<noteq> None then Inl ''provider_usage_parser_finished''
      else if pr_stream s then consume_lines sha (pr_line s @ data) s
      else Inr (if length (pr_body s) < body_limit then s\<lparr>pr_body := pr_body s @ data\<rparr> else s))"

text \<open>\<^verbatim>\<open>json.loads\<close> of a byte string: a leading byte order mark is dropped and UTF-8 is decoded.\<close>

definition loads_bytes :: "string \<Rightarrow> json option" where
  "loads_bytes b = (case utf8_decode (removeprefix [CHR 0xEF, CHR 0xBB, CHR 0xBF] b) of
      None \<Rightarrow> None | Some t \<Rightarrow> loads t)"

definition finish_body :: "(string \<Rightarrow> string) \<Rightarrow> parser \<Rightarrow> parser res" where
  "finish_body sha s =
     (if pr_stream s then
        (if pr_line s \<noteq> [] then parse_sse_line sha (strip_cr (pr_line s)) s else Inr s)
      else if pr_body s \<noteq> [] then
        (case loads_bytes (pr_body s) of
           None \<Rightarrow> Inr (set_native note_parse_failure s) | Some v \<Rightarrow> parse_object sha v s)
      else Inr s)"

definition usage_evidence :: "parser \<Rightarrow> bool" where
  "usage_evidence s = (pr_input_seen s \<and> pr_output_seen s \<and> (\<not> pr_chat s \<or> pr_chat_valid s))"

definition finish_with_finance :: "(string \<Rightarrow> string) \<Rightarrow> parser \<Rightarrow> (parsed_usage \<times> parser) res" where
  "finish_with_finance sha s0 = (case pr_finished s0 of
      Some r \<Rightarrow> Inr (r, s0)
    | None \<Rightarrow> rbind (finish_body sha s0) (\<lambda>s.
        rbind (acc_finish sha (pr_native s)) (\<lambda>ob.
          let u = (pr_usage s)\<lparr>us_complete := usage_evidence s\<rparr>;
              r = \<lparr>pu_usage = u, pu_finance = ob, pu_terminal = pr_terminal s\<rparr>
          in Inr (r, s\<lparr>pr_usage := u, pr_finished := Some r\<rparr>))))"

section \<open>Chunks do not matter\<close>

lemma cut_line_append: "cut_line a = Some (l, r) \<Longrightarrow> cut_line (a @ b) = Some (l, r @ b)"
  by (induction a arbitrary: l) (auto split: if_splits)

text \<open>
  No step of the parser reads the line buffer or changes the parser's mode: each commutes with setting
  the buffer, and keeps the protocol, the mode and the finished result.
\<close>

definition with_line :: "string \<Rightarrow> parser \<Rightarrow> parser" where
  "with_line x s = s\<lparr>pr_line := x\<rparr>"

definition same_mode :: "parser \<Rightarrow> parser \<Rightarrow> bool" where
  "same_mode s s' \<longleftrightarrow> pr_protocol s' = pr_protocol s \<and> pr_stream s' = pr_stream s \<and> pr_chat s' = pr_chat s \<and>
     pr_finished s' = pr_finished s \<and> pr_line s' = pr_line s \<and> pr_body s' = pr_body s \<and>
     (pr_completed s \<longrightarrow> pr_completed s') \<and>
     (pr_terminal s = None \<or> pr_terminal s' = pr_terminal s \<or> pr_terminal s' = Some ''failed'')"

definition good :: "protocol \<Rightarrow> parser \<Rightarrow> bool" where
  "good p s \<longleftrightarrow> accumulates p (pr_native s) \<and> pr_terminal s \<in> insert None (Some ` set terminal_states)"

definition frame :: "protocol \<Rightarrow> (parser \<Rightarrow> parser) \<Rightarrow> bool" where
  "frame p f \<longleftrightarrow> (\<forall>s x. pr_protocol s = p \<longrightarrow> f (with_line x s) = with_line x (f s) \<and> same_mode s (f s) \<and>
     (good p s \<longrightarrow> good p (f s)))"

definition rframe :: "protocol \<Rightarrow> (parser \<Rightarrow> parser res) \<Rightarrow> bool" where
  "rframe p f \<longleftrightarrow> (\<forall>s x. pr_protocol s = p \<longrightarrow> f (with_line x s) = rbind (f s) (\<lambda>s'. Inr (with_line x s'))) \<and>
     (\<forall>s s'. pr_protocol s = p \<longrightarrow> f s = Inr s' \<longrightarrow> same_mode s s' \<and>
       (good p s \<longrightarrow> good p s'))"

lemma rframeD:
  assumes "rframe p f" and "pr_protocol s = p"
  shows "f (with_line x s) = rbind (f s) (\<lambda>s'. Inr (with_line x s'))"
    "f s = Inr s' \<Longrightarrow> same_mode s s'"
    "f s = Inr s' \<Longrightarrow> good p s \<Longrightarrow> good p s'"
  using assms unfolding rframe_def by blast+

lemma with_line_protocol [simp]: "pr_protocol (with_line x s) = pr_protocol s"
  by (simp add: with_line_def)

named_theorems frames \<open>steps that keep the parser's frame\<close>

lemma same_mode_refl [simp]: "same_mode s s"
  by (simp add: same_mode_def)

lemma same_mode_trans: "same_mode s t \<Longrightarrow> same_mode t u \<Longrightarrow> same_mode s u"
  by (auto simp: same_mode_def)

lemma frame_id [frames]: "frame p (\<lambda>s. s)"
  by (simp add: frame_def)

lemma frameD:
  assumes "frame p f" and "pr_protocol s = p"
  shows "f (with_line x s) = with_line x (f s)" "same_mode s (f s)"
    "good p s \<Longrightarrow> good p (f s)"
  using assms unfolding frame_def by blast+

lemma frameI:
  assumes "\<And>s x. pr_protocol s = p \<Longrightarrow> f (with_line x s) = with_line x (f s)"
    and "\<And>s. pr_protocol s = p \<Longrightarrow> same_mode s (f s)"
    and "\<And>s. pr_protocol s = p \<Longrightarrow> good p s \<Longrightarrow> good p (f s)"
  shows "frame p f"
  using assms unfolding frame_def by blast

lemma frame_protocol: "frame p f \<Longrightarrow> pr_protocol (s :: parser) = p \<Longrightarrow> pr_protocol (f s) = p"
  using frameD(2) [of p f s] by (simp add: same_mode_def)

lemma frame_comp:
  assumes f: "frame p f" and g: "frame p g" shows "frame p (\<lambda>s. f (g s))"
proof (rule frameI)
  fix s :: parser and x assume p: "pr_protocol s = p"
  note q = frame_protocol [OF g p]
  show "f (g (with_line x s)) = with_line x (f (g s))"
    by (simp only: frameD(1) [OF g p] frameD(1) [OF f q])
  show "same_mode s (f (g s))" using frameD(2) [OF g p] frameD(2) [OF f q] by (rule same_mode_trans)
  show "good p (f (g s))" if "good p s"
    by (rule frameD(3) [OF f q frameD(3) [OF g p that]])
qed

lemma frame_rframe: "frame p f \<Longrightarrow> rframe p (\<lambda>s. Inr (f s))"
  by (simp add: frame_def rframe_def)

lemma rframe_bind:
  assumes "rframe p f" and "rframe p g"
  shows "rframe p (\<lambda>s. rbind (f s) g)"
proof -
  have mode: "pr_protocol t = p" if "pr_protocol s = p" "f s = Inr t" for s t
    using rframeD(2) [OF assms(1) that] that(1) by (simp add: same_mode_def)
  have "rbind (f (with_line x s)) g = rbind (rbind (f s) g) (\<lambda>s'. Inr (with_line x s'))"
    if "pr_protocol s = p" for s x
    using rframeD(1) [OF assms(1) that] rframeD(1) [OF assms(2) mode [OF that]] by (cases "f s") auto
  moreover have "same_mode s s' \<and> (good p s \<longrightarrow> good p s')"
    if p: "pr_protocol s = p" and r: "rbind (f s) g = Inr s'" for s s'
  proof -
    obtain t where t: "f s = Inr t" "g t = Inr s'" using r by auto
    show ?thesis
      using rframeD(2,3) [OF assms(1) p t(1)] rframeD(2,3) [OF assms(2) mode [OF p t(1)] t(2)]
        same_mode_trans by blast
  qed
  ultimately show ?thesis unfolding rframe_def by blast
qed

lemma rframe_error: "rframe p (\<lambda>s. Inl e)"
  by (simp add: rframe_def)

lemma frame_if: "frame p f \<Longrightarrow> frame p g \<Longrightarrow> (\<And>s x. c (with_line x s) = c s) \<Longrightarrow> frame p (\<lambda>s. if c s then f s else g s)"
  by (auto simp: frame_def)

lemma rframe_if: "rframe p f \<Longrightarrow> rframe p g \<Longrightarrow> (\<And>s x. c (with_line x s) = c s) \<Longrightarrow> rframe p (\<lambda>s. if c s then f s else g s)"
  by (auto simp: rframe_def)

lemma frame_ifc: "frame p f \<Longrightarrow> frame p g \<Longrightarrow> frame p (\<lambda>s. if b then f s else g s)"
  by (cases b) (simp_all only: if_True if_False)

lemma rframe_ifc: "rframe p f \<Longrightarrow> rframe p g \<Longrightarrow> rframe p (\<lambda>s. if b then f s else g s)"
  by (cases b) (simp_all only: if_True if_False)

text \<open>Updates of the usage record and of the flags.\<close>

lemma frame_usage: "frame p (\<lambda>s. s\<lparr>pr_usage := g (pr_usage s)\<rparr>)"
  by (simp add: frame_def with_line_def same_mode_def good_def)

lemma frame_flags [frames]:
  "frame p (\<lambda>s. s\<lparr>pr_completed := True\<rparr>)" "frame p (\<lambda>s. s\<lparr>pr_input_seen := b\<rparr>)" "frame p (\<lambda>s. s\<lparr>pr_output_seen := b\<rparr>)"
  "frame p (\<lambda>s. s\<lparr>pr_chat_valid := b\<rparr>)"
  by (simp_all add: frame_def with_line_def same_mode_def good_def)

lemma frame_note [frames]: "frame p (set_native note_parse_failure)"
  by (simp add: frame_def set_native_def with_line_def same_mode_def good_def accumulates.failure)

lemma frame_set_terminal: "v \<in> set terminal_states \<Longrightarrow> frame p (set_terminal v)"
  by (auto simp: frame_def set_terminal_def set_native_def with_line_def same_mode_def good_def
      terminal_states_def split: option.splits intro: accumulates.failure)

lemma rframe_observe_terminal [frames]: "rframe p (observe_terminal v)"
proof (cases v)
  case (JStr t)
  then show ?thesis
    by (cases "t \<in> set terminal_states") (simp_all add: observe_terminal_def [abs_def]
      frame_rframe [OF frame_set_terminal] frame_rframe [OF frame_id])
qed (simp_all add: observe_terminal_def [abs_def] rframe_error frame_rframe [OF frame_id])

lemma frame_apply_model [frames]: "frame p (apply_model v)"
  by (cases v) (simp_all add: apply_model_def [abs_def] frame_ifc frame_usage frame_id)

lemma frame_see [frames]: "frame p (see_input v)" "frame p (see_output v)"
  by (auto simp: frame_def see_input_def see_output_def with_line_def same_mode_def good_def split: option.splits)

lemma frame_apply_openai_usage [frames]: "frame p (apply_openai_usage v)"
proof (cases v)
  case (JDict u)
  define g where "g = (\<lambda>us :: usage. let us1 = (case dget u ''input_tokens_details'' of
          JDict d \<Rightarrow> us\<lparr>us_cache_read := nonnegative_int (dget d ''cached_tokens'') (us_cache_read us)\<rparr>
        | _ \<Rightarrow> us)
      in case dget u ''output_tokens_details'' of
          JDict d \<Rightarrow> us1\<lparr>us_reasoning := nonnegative_int (dget d ''reasoning_tokens'') (us_reasoning us1)\<rparr>
        | _ \<Rightarrow> us1)"
  have "apply_openai_usage v = (\<lambda>s. (\<lambda>s1. s1\<lparr>pr_usage := g (pr_usage s1)\<rparr>)
      (see_output (dget u ''output_tokens'') (see_input (dget u ''input_tokens'') s)))"
    by (simp add: fun_eq_iff JDict apply_openai_usage_def g_def Let_def)
  then show ?thesis using frame_comp [OF frame_usage [where g = g] frame_comp [OF frame_see(2,1)]] by simp
qed (simp_all add: apply_openai_usage_def [abs_def] frame_id)

lemma frame_apply_anthropic_usage [frames]: "frame p (apply_anthropic_usage v i out)"
proof (cases v)
  case (JDict u)
  define g where "g = (\<lambda>us :: usage. us\<lparr>
      us_cache_read := nonnegative_int (dget u ''cache_read_input_tokens'') (us_cache_read us),
      us_cache_write := nonnegative_int (dget u ''cache_creation_input_tokens'') (us_cache_write us)\<rparr>)"
  have inp: "frame p (\<lambda>s. (\<lambda>s0. s0\<lparr>pr_usage := g (pr_usage s0)\<rparr>) (see_input (dget u ''input_tokens'') s))"
    by (rule frame_comp [OF frame_usage frame_see(1)])
  have "apply_anthropic_usage v i out = (\<lambda>s.
      (if out then see_output (dget u ''output_tokens'') else (\<lambda>s. s))
        ((if i then (\<lambda>s. (\<lambda>s0. s0\<lparr>pr_usage := g (pr_usage s0)\<rparr>) (see_input (dget u ''input_tokens'') s))
          else (\<lambda>s. s)) s))"
    by (simp add: fun_eq_iff JDict apply_anthropic_usage_def g_def Let_def)
  then show ?thesis
    using frame_comp [OF frame_see(2) inp] frame_comp [OF frame_see(2) frame_id] inp frame_id frame_see(2)
    by (cases i; cases out) simp_all
qed (simp_all add: apply_anthropic_usage_def [abs_def] frame_id)


lemma frame_observe_openai: "frame OpenAI (set_native (observe_openai_response r))"
  by (simp add: frame_def set_native_def with_line_def same_mode_def good_def accumulates.openai)

lemma frame_observe_anthropic: "frame Anthropic (set_native (observe_anthropic_usage u i out rep))"
  by (simp add: frame_def set_native_def with_line_def same_mode_def good_def accumulates.anthropic)

lemma rframe_apply_openai_response: "rframe OpenAI (apply_openai_response sha r)"
proof -
  define two where "two = (\<lambda>chat. (\<lambda>s. apply_openai_usage
     (case dget r ''usage'' of JDict u \<Rightarrow> if chat then JDict (chat_usage u) else JDict u | v \<Rightarrow> v)
       (apply_model (dget r ''model'') s)))"
  have two: "frame OpenAI (two chat)" for chat
    unfolding two_def by (rule frame_comp [OF frame_apply_openai_usage frame_apply_model])
  have chat: "rframe OpenAI (\<lambda>s. if dget r ''usage'' \<noteq> JNull
      then rbind (canonical_complete sha (case dget r ''usage'' of JDict u \<Rightarrow> JDict (chat_usage u) | v \<Rightarrow> v))
        (\<lambda>b. Inr ((two True s)\<lparr>pr_chat_valid := b\<rparr>)) else Inr (two True s))"
    by (intro rframe_ifc frame_rframe [OF two])
      (cases "canonical_complete sha (case dget r ''usage'' of JDict u \<Rightarrow> JDict (chat_usage u) | v \<Rightarrow> v)";
       simp add: rframe_error frame_rframe [OF frame_comp [OF frame_flags(4) two]])
  have "apply_openai_response sha r = (\<lambda>s. if pr_chat s then (if dget r ''usage'' \<noteq> JNull
      then rbind (canonical_complete sha (case dget r ''usage'' of JDict u \<Rightarrow> JDict (chat_usage u) | v \<Rightarrow> v))
        (\<lambda>b. Inr ((two True s)\<lparr>pr_chat_valid := b\<rparr>)) else Inr (two True s))
      else Inr (set_native (observe_openai_response (JDict r)) (two False s)))"
    by (simp add: fun_eq_iff apply_openai_response_def two_def Let_def split: json.splits)
  moreover have "rframe OpenAI (\<lambda>s. Inr (set_native (observe_openai_response (JDict r)) (two False s)))"
    by (rule frame_rframe [OF frame_comp [OF frame_observe_openai two]])
  ultimately show ?thesis using rframe_if [OF chat, where c = pr_chat] by (simp add: with_line_def)
qed

lemma rframe_completed: "frame p (\<lambda>s. if b then s\<lparr>pr_completed := True\<rparr> else s)"
  by (rule frame_ifc [OF frame_flags(1) frame_id])

lemma rframe_parse_openai: "rframe OpenAI (parse_openai sha value)"
proof -
  let ?event = "dget value ''type''"
  let ?terminal = "str_in ?event terminal_events"
  have rest: "rframe OpenAI (\<lambda>s1. case (if ?terminal then dget value ''response'' else JDict value) of
      JDict r \<Rightarrow> apply_openai_response sha r s1 | _ \<Rightarrow> Inr s1)"
    by (cases "if ?terminal then dget value ''response'' else JDict value")
      (simp_all only: json.case rframe_apply_openai_response frame_rframe [OF frame_id])
  have marked: "rframe OpenAI (\<lambda>s. rbind (observe_terminal v s)
      (\<lambda>s1. Inr (if ?event = JStr ''response.completed'' then s1\<lparr>pr_completed := True\<rparr> else s1)))" for v
    by (rule rframe_bind [OF rframe_observe_terminal frame_rframe [OF rframe_completed]])
  have plain: "rframe OpenAI (\<lambda>s. if pr_stream s then Inr s else observe_terminal (dget value ''status'') s)"
    by (rule rframe_if [OF frame_rframe [OF frame_id] rframe_observe_terminal]) (simp add: with_line_def)
  show ?thesis
    unfolding parse_openai_def [abs_def] Let_def by (rule rframe_bind [OF rframe_ifc [OF marked plain] rest])
qed

lemma frame_parse_anthropic: "frame Anthropic (parse_anthropic value)"
proof -
  let ?start = "if dget value ''type'' = JStr ''message_start'' then dget value ''message'' else JNull"
  have stop: "frame Anthropic (\<lambda>s. if pr_stream s \<and> dget value ''type'' = JStr ''message_stop''
      then s\<lparr>pr_completed := True\<rparr> else s)"
    by (rule frame_if [OF frame_flags(1) frame_id]) (simp add: with_line_def)
  have message: "frame Anthropic (\<lambda>s. set_native (observe_anthropic_usage (map_of m ''usage'') True (\<not> b) False)
      (apply_anthropic_usage (dget m ''usage'') True (\<not> b) (apply_model (dget m ''model'') s)))" for m b
    by (intro frame_comp [OF frame_observe_anthropic] frame_comp [OF frame_apply_anthropic_usage frame_apply_model])
  have delta: "frame Anthropic (\<lambda>s. set_native (observe_anthropic_usage (map_of value ''usage'') False True True)
      (apply_anthropic_usage (dget value ''usage'') False True
        (apply_model (dget value ''model'') s\<lparr>pr_usage := (pr_usage (apply_model (dget value ''model'') s))
          \<lparr>us_output := 0\<rparr>, pr_output_seen := False\<rparr>)))"
  proof -
    have "frame Anthropic (\<lambda>s. (\<lambda>t. t\<lparr>pr_output_seen := False\<rparr>)
        ((\<lambda>t. t\<lparr>pr_usage := (\<lambda>u :: usage. u\<lparr>us_output := 0\<rparr>) (pr_usage t)\<rparr>) (apply_model (dget value ''model'') s)))"
      by (intro frame_comp [OF frame_flags(3)] frame_comp [OF frame_usage frame_apply_model])
    then show ?thesis
      using frame_comp [OF frame_observe_anthropic frame_comp [OF frame_apply_anthropic_usage]] by simp
  qed
  have whole: "frame Anthropic (\<lambda>s. set_native (observe_anthropic_usage (map_of value ''usage'') True True False)
      (apply_anthropic_usage (dget value ''usage'') True True (apply_model (dget value ''model'') s)))"
    by (intro frame_comp [OF frame_observe_anthropic] frame_comp [OF frame_apply_anthropic_usage frame_apply_model])
  define body where "body = (\<lambda>b s. case ?start of
      JDict m \<Rightarrow> set_native (observe_anthropic_usage (map_of m ''usage'') True (\<not> b) False)
        (apply_anthropic_usage (dget m ''usage'') True (\<not> b) (apply_model (dget m ''model'') s))
    | _ \<Rightarrow> if b then (if dget value ''type'' = JStr ''message_delta'' then
          set_native (observe_anthropic_usage (map_of value ''usage'') False True True)
           (apply_anthropic_usage (dget value ''usage'') False True
             (apply_model (dget value ''model'') s\<lparr>pr_usage := (pr_usage (apply_model (dget value ''model'') s))
               \<lparr>us_output := 0\<rparr>, pr_output_seen := False\<rparr>))
        else apply_model (dget value ''model'') s)
      else set_native (observe_anthropic_usage (map_of value ''usage'') True True False)
        (apply_anthropic_usage (dget value ''usage'') True True (apply_model (dget value ''model'') s)))"
  have body: "frame Anthropic (body b)" for b
    unfolding body_def
    by (cases ?start; simp only: json.case; intro frame_ifc message delta whole frame_apply_model)
  have "parse_anthropic value = (\<lambda>s. if pr_stream s
      then body True (if pr_stream s \<and> dget value ''type'' = JStr ''message_stop'' then s\<lparr>pr_completed := True\<rparr> else s)
      else body False (if pr_stream s \<and> dget value ''type'' = JStr ''message_stop'' then s\<lparr>pr_completed := True\<rparr> else s))"
    by (rule ext, unfold parse_anthropic_def body_def Let_def, cases ?start) (simp_all only: json.case if_True if_False split: if_split, simp_all)
  then show ?thesis
    using frame_if [OF frame_comp [OF body stop] frame_comp [OF body stop], where c = pr_stream]
    by (simp only: with_line_def) simp
qed

lemma rframe_parse_object: "rframe p (parse_object sha v)"
proof (cases v)
  case (JDict d)
  have "rframe OpenAI (parse_object sha v) = rframe OpenAI (parse_openai sha d)"
    "rframe Anthropic (parse_object sha v) = rframe Anthropic (\<lambda>s. Inr (parse_anthropic d s))"
    by (auto simp: rframe_def parse_object_def JDict)
  then show ?thesis
    using rframe_parse_openai frame_rframe [OF frame_parse_anthropic] by (cases p) simp_all
qed (simp_all add: parse_object_def [abs_def] frame_rframe [OF frame_id])

lemma rframe_parse_event_line: "rframe p (parse_event_line event)"
  unfolding parse_event_line_def [abs_def]
  by (rule rframe_bind)
    (intro rframe_if rframe_observe_terminal frame_rframe frame_if frame_flags(1) frame_id;
      simp add: with_line_def)+

lemma rframe_parse_sse_line: "rframe p (parse_sse_line sha line)"
proof -
  have "rframe p (parse_data_line sha payload)" for payload
    unfolding parse_data_line_def [abs_def]
    by (cases "loads payload")
      (auto intro!: rframe_ifc rframe_parse_object frame_rframe [OF frame_id] frame_rframe [OF frame_note]
        frame_rframe [OF frame_flags(1)])
  then show ?thesis
    unfolding parse_sse_line_def [abs_def]
    by (intro rframe_ifc rframe_parse_event_line frame_rframe [OF frame_id])
qed


section \<open>Feeding chunks\<close>

lemma consume_with_line: "consume_lines sha x (with_line y s) = consume_lines sha x s"
proof (induction sha x s rule: consume_lines.induct)
  case (1 sha buffer s)
  show ?case
  proof (cases "cut_line buffer")
    case None
    then show ?thesis by (simp add: consume_lines.simps [of sha buffer] with_line_def)
  next
    case (Some lr)
    obtain l r where lr: "(l, r) = lr" by (cases lr) auto
    have "parse_sse_line sha (strip_cr l) (with_line y s)
        = rbind (parse_sse_line sha (strip_cr l) s) (\<lambda>s'. Inr (with_line y s'))"
      by (rule rframeD(1) [OF rframe_parse_sse_line refl])
    then show ?thesis
      using 1 [OF Some lr] unfolding consume_lines.simps [of sha buffer] Some [folded lr]
      by (cases "parse_sse_line sha (strip_cr l) s") simp_all
  qed
qed

lemma consume_append:
  "consume_lines sha (a @ b) s = rbind (consume_lines sha a s) (\<lambda>t. consume_lines sha (pr_line t @ b) t)"
proof (induction sha a s rule: consume_lines.induct)
  case (1 sha buffer s)
  show ?case
  proof (cases "cut_line buffer")
    case None
    then show ?thesis
      using consume_with_line [of sha "buffer @ b" buffer s]
      by (simp add: consume_lines.simps [of sha buffer] with_line_def)
  next
    case (Some lr)
    obtain l r where lr: "(l, r) = lr" by (cases lr) auto
    note cut = Some [folded lr]
    show ?thesis
      using 1 [OF Some lr] unfolding consume_lines.simps [of sha buffer] consume_lines.simps [of sha "buffer @ b"]
        cut_line_append [OF cut] cut
      by (cases "parse_sse_line sha (strip_cr l) s") simp_all
  qed
qed

lemma cut_line_rest: "cut_line s = None \<longleftrightarrow> CHR 0x0A \<notin> set s"
  by (induction s) auto

lemma consume_frame:
  assumes "consume_lines sha x s = Inr t"
  shows "same_mode (with_line (pr_line t) s) t \<and> (good (pr_protocol s) s \<longrightarrow> good (pr_protocol s) t) \<and>
    cut_line (pr_line t) = None"
  using assms
proof (induction sha x s rule: consume_lines.induct)
  case (1 sha buffer s)
  note step = consume_lines.simps [of sha buffer s]
  show ?case
  proof (cases "cut_line buffer")
    case None
    then show ?thesis using 1(2) by (auto simp: step with_line_def same_mode_def good_def)
  next
    case (Some lr)
    obtain l r where lr: "(l, r) = lr" by (cases lr) auto
    obtain u where u: "parse_sse_line sha (strip_cr l) s = Inr u" "consume_lines sha r u = Inr t"
      using 1(2) Some [folded lr] by (auto simp: step)
    note IH = 1(1) [OF Some lr u(1,2)]
    note f = rframeD(2,3) [OF rframe_parse_sse_line refl u(1)]
    have "same_mode (with_line (pr_line t) s) (with_line (pr_line t) u)"
      using f(1) by (auto simp: same_mode_def with_line_def)
    moreover have "pr_protocol u = pr_protocol s" using f(1) by (simp add: same_mode_def)
    ultimately show ?thesis using IH f(2) same_mode_trans by auto
  qed
qed

lemma feed_frame:
  assumes "feed sha data s = Inr t" and "pr_stream s"
  shows "same_mode (with_line (pr_line t) s) t" "good (pr_protocol s) s \<Longrightarrow> good (pr_protocol s) t"
    "cut_line (pr_line t) = None" "pr_finished s = None"
  using assms consume_frame [of sha "pr_line s @ data" s t] by (auto simp: feed_def split: if_splits)

primrec feed_all :: "(string \<Rightarrow> string) \<Rightarrow> string list \<Rightarrow> parser \<Rightarrow> parser res" where
  "feed_all sha [] s = Inr s"
| "feed_all sha (c # cs) s = rbind (feed sha c s) (feed_all sha cs)"

lemma feed_append:
  assumes "pr_stream s" and "pr_finished s = None"
  shows "rbind (feed sha a s) (feed sha b) = feed sha (a @ b) s"
proof -
  have "feed sha (a @ b) s = rbind (consume_lines sha (pr_line s @ a) s) (\<lambda>t. consume_lines sha (pr_line t @ b) t)"
    using assms consume_append [of sha "pr_line s @ a" b s] by (simp add: feed_def)
  also have "\<dots> = rbind (feed sha a s) (feed sha b)"
  proof (cases "feed sha a s")
    case (Inr t)
    have "pr_stream t" "pr_finished t = None"
      using feed_frame(1) [OF Inr assms(1)] assms by (simp_all add: same_mode_def with_line_def)
    then show ?thesis using Inr assms by (simp add: feed_def)
  qed (use assms in \<open>simp add: feed_def\<close>)
  finally show ?thesis by simp
qed

lemma feed_all_concat:
  assumes "pr_stream s" and "pr_finished s = None" and "cut_line (pr_line s) = None"
  shows "feed_all sha cs s = feed sha (concat cs) s"
  using assms
proof (induction cs arbitrary: s)
  case Nil
  then show ?case by (simp add: feed_def consume_lines.simps [of sha "pr_line s"])
next
  case (Cons c cs)
  show ?case
  proof (cases "feed sha c s")
    case (Inl e)
    have "feed sha (c @ concat cs) s = Inl e"
      using feed_append [OF Cons.prems(1,2), of sha c "concat cs"] unfolding Inl by simp
    then show ?thesis using Inl by simp
  next
    case (Inr t)
    have "pr_stream t" "pr_finished t = None"
      using feed_frame(1) [OF Inr Cons.prems(1)] Cons.prems by (simp_all add: same_mode_def with_line_def)
    then show ?thesis
      using feed_append [OF Cons.prems(1,2), of sha c "concat cs"] Cons.IH [of t] Inr
        feed_frame(3) [OF Inr Cons.prems(1)] by simp
  qed
qed


section \<open>Streams never raise\<close>

lemma canonical_complete_total:
  assumes "\<forall>bytes. is_hex64 (sha bytes)"
  shows "\<exists>b. canonical_complete sha u = Inr b"
  using finish_evidence [OF accumulates.openai [OF accumulates.start refl], of sha] assms
  by (fastforce simp: canonical_complete_def)

lemma apply_openai_response_total:
  assumes "\<forall>bytes. is_hex64 (sha bytes)"
  shows "\<exists>t. apply_openai_response sha r s = Inr t"
proof -
  obtain b where "canonical_complete sha (case dget r ''usage'' of
      JDict u \<Rightarrow> if pr_chat s then JDict (chat_usage u) else JDict u | v \<Rightarrow> v) = Inr b"
    using canonical_complete_total [OF assms] by blast
  then show ?thesis unfolding apply_openai_response_def Let_def by auto
qed

lemma observe_terminal_str: "\<exists>t. observe_terminal (JStr v) s = Inr t"
  by (simp add: observe_terminal_def)

lemma parse_openai_total:
  assumes hex: "\<forall>bytes. is_hex64 (sha bytes)"
  shows "(\<exists>e. parse_openai sha d s = Inl e) \<longleftrightarrow> \<not> pr_stream s \<and> \<not> str_in (dget d ''type'') terminal_events \<and>
      (case dget d ''status'' of JList _ \<Rightarrow> True | JDict _ \<Rightarrow> True | _ \<Rightarrow> False)"
    "parse_openai sha d s = Inl e \<Longrightarrow> e = ''TypeError''"
proof -
  define start where "start = (if str_in (dget d ''type'') terminal_events
     then rbind (observe_terminal (case dget d ''type'' of JStr e \<Rightarrow> JStr (removeprefix ''response.'' e) | v \<Rightarrow> v) s)
       (\<lambda>s1. Inr (if dget d ''type'' = JStr ''response.completed'' then s1\<lparr>pr_completed := True\<rparr> else s1))
     else if pr_stream s then Inr s else observe_terminal (dget d ''status'') s)"
  define cont where "cont = (\<lambda>s1. case (if str_in (dget d ''type'') terminal_events then dget d ''response'' else JDict d) of
      JDict r \<Rightarrow> apply_openai_response sha r s1 | _ \<Rightarrow> Inr s1)"
  have eq: "parse_openai sha d s = rbind start cont"
    by (simp only: parse_openai_def start_def cont_def Let_def)
  have rest: "\<exists>t. cont s1 = Inr t" for s1
    using apply_openai_response_total [OF hex]
    by (cases "if str_in (dget d ''type'') terminal_events then dget d ''response'' else JDict d")
      (auto simp: cont_def)
  have whole: "parse_openai sha d s = Inl e \<longleftrightarrow> start = Inl e" for e
  proof (cases start)
    case (Inr s1)
    then show ?thesis using rest [of s1] by (auto simp: eq)
  qed (simp add: eq)
  have start: "start = Inl e \<longleftrightarrow> e = ''TypeError'' \<and> \<not> pr_stream s \<and> \<not> str_in (dget d ''type'') terminal_events \<and>
      (case dget d ''status'' of JList _ \<Rightarrow> True | JDict _ \<Rightarrow> True | _ \<Rightarrow> False)" for e
  proof (cases "str_in (dget d ''type'') terminal_events")
    case True
    then obtain ev where "dget d ''type'' = JStr ev" by (cases "dget d ''type''") simp_all
    then show ?thesis
      using True observe_terminal_str [of "removeprefix ''response.'' ev" s] by (auto simp: start_def)
  next
    case False
    then show ?thesis by (cases "dget d ''status''") (auto simp: start_def observe_terminal_def)
  qed
  show "(\<exists>e. parse_openai sha d s = Inl e) \<longleftrightarrow> \<not> pr_stream s \<and> \<not> str_in (dget d ''type'') terminal_events \<and>
      (case dget d ''status'' of JList _ \<Rightarrow> True | JDict _ \<Rightarrow> True | _ \<Rightarrow> False)"
    using whole start by blast
  show "e = ''TypeError''" if "parse_openai sha d s = Inl e" using whole start that by blast
qed

lemma res_cases: "(\<And>e. r \<noteq> Inl e) \<Longrightarrow> \<exists>t. r = Inr t"
  by (cases r) auto

lemma parse_object_total:
  assumes "\<forall>bytes. is_hex64 (sha bytes)" and "pr_stream s"
  shows "\<exists>t. parse_object sha v s = Inr t"
  using parse_openai_total(1) [OF assms(1), where s = s] assms(2)
  by (cases v; cases "pr_protocol s") (auto simp: parse_object_def intro!: res_cases)

lemma parse_sse_line_total:
  assumes "\<forall>bytes. is_hex64 (sha bytes)" and "pr_stream s"
  shows "\<exists>t. parse_sse_line sha line s = Inr t"
proof -
  have "\<exists>t. parse_event_line e s = Inr t" for e
    using observe_terminal_str [of "removeprefix ''response.'' e" s] by (auto simp: parse_event_line_def)
  moreover have "\<exists>t. parse_data_line sha payload s = Inr t" for payload
    using parse_object_total [OF assms] by (simp add: parse_data_line_def split: option.split)
  ultimately show ?thesis by (simp add: parse_sse_line_def)
qed

lemma consume_total:
  assumes "\<forall>bytes. is_hex64 (sha bytes)" and "pr_stream s"
  shows "\<exists>t. consume_lines sha x s = Inr t"
  using assms(2)
proof (induction "length x" arbitrary: x s rule: less_induct)
  case less
  show ?case
  proof (cases "cut_line x")
    case None
    then show ?thesis by (simp add: consume_lines.simps [of sha x])
  next
    case (Some lr)
    obtain l r where lr: "(l, r) = lr" by (cases lr) auto
    obtain u where u: "parse_sse_line sha (strip_cr l) s = Inr u"
      using parse_sse_line_total [OF assms(1) less(2)] by blast
    have "pr_stream u"
      using rframeD(2) [OF rframe_parse_sse_line refl u] less(2) by (simp add: same_mode_def)
    then show ?thesis
      using less(1) [OF cut_line_shorter [OF Some [folded lr]]] u
      by (simp add: consume_lines.simps [of sha x] Some lr [symmetric])
  qed
qed


lemma feed_all_total:
  assumes hex: "\<forall>bytes. is_hex64 (sha bytes)" and "pr_stream s" and "pr_finished s = None"
  shows "\<exists>t. feed_all sha cs s = Inr t"
  using assms(2,3)
proof (induction cs arbitrary: s)
  case (Cons c cs)
  obtain t where t: "feed sha c s = Inr t"
    using consume_total [OF hex Cons.prems(1)] Cons.prems by (auto simp: feed_def)
  then have "pr_stream t" "pr_finished t = None"
    using feed_frame(1) [OF t Cons.prems(1)] Cons.prems by (simp_all add: same_mode_def with_line_def)
  then show ?case using Cons.IH t by simp
qed simp

lemma feed_all_frame:
  assumes "feed_all sha cs s = Inr t" and "pr_stream s"
  shows "same_mode (with_line (pr_line t) s) t \<and> (good (pr_protocol s) s \<longrightarrow> good (pr_protocol s) t)"
  using assms
proof (induction cs arbitrary: s)
  case Nil
  then show ?case by (simp add: with_line_def)
next
  case (Cons c cs)
  obtain u where u: "feed sha c s = Inr u" "feed_all sha cs u = Inr t" using Cons.prems by auto
  note f = feed_frame(1,2) [OF u(1) Cons.prems(2)]
  have su: "pr_stream u" "pr_protocol u = pr_protocol s"
    using f(1) Cons.prems by (simp_all add: same_mode_def with_line_def)
  have "same_mode (with_line (pr_line t) s) (with_line (pr_line t) u)"
    using f(1) by (auto simp: same_mode_def with_line_def)
  then show ?case using Cons.IH [OF u(2) su(1)] f(2) su(2) same_mode_trans by auto
qed

text \<open>
  C27: Cutting the text of an event stream into chunks in another way, even in the middle of a line, never
  changes the parser: feeding a parser the chunks one by one gives the state that feeding it their
  concatenation gives, errors included.
\<close>
theorem chunking_is_irrelevant:
  "feed_all sha cs (new_parser p True chat) = feed sha (concat cs) (new_parser p True chat)"
  by (rule feed_all_concat) (simp_all add: new_parser_def)



text \<open>
  C29: What a stream has told the parser is never taken back: once a success marker was seen it stays seen,
  and once a terminal state was observed it stays, or becomes \<^verbatim>\<open>failed\<close> when a different one follows;
  so a failed stream can never turn into a completed one.
\<close>
theorem verdict_is_sticky:
  assumes "feed_all sha cs s = Inr t" and "pr_stream s"
  shows "(pr_completed s \<longrightarrow> pr_completed t) \<and>
     (pr_terminal s = None \<or> pr_terminal t = pr_terminal s \<or> pr_terminal t = Some ''failed'')"
  using feed_all_frame [OF assms] by (simp add: same_mode_def with_line_def)

definition failing_line :: string where
  "failing_line = ''event: response.failed'' @ [CHR 0x0A]"

theorem verdict_is_sticky_witness:
  "\<exists>s t. feed_all example_sha [failing_line] (new_parser OpenAI True False) = Inr s \<and>
     feed_all example_sha [''event: response.completed'' @ [CHR 0x0A]] s = Inr t \<and>
     pr_completed t \<and> pr_terminal s = Some ''failed'' \<and> pr_terminal t = Some ''failed''"
proof -
  let ?next = "[''event: response.completed'' @ [CHR 0x0A]]"
  obtain s t where s: "feed_all example_sha [failing_line] (new_parser OpenAI True False) = Inr s"
    and t: "feed_all example_sha ?next s = Inr t"
    and v: "pr_terminal s = Some ''failed''" "pr_completed t" "pr_stream s"
  proof -
    let ?s = "feed_all example_sha [failing_line] (new_parser OpenAI True False)"
    have "case_sum (\<lambda>_. False) (\<lambda>s. pr_terminal s = Some ''failed'' \<and> pr_stream s \<and>
        case_sum (\<lambda>_. False) pr_completed (feed_all example_sha ?next s)) ?s" by code_simp
    then show ?thesis using that by (auto split: sum.splits)
  qed
  show ?thesis using verdict_is_sticky [OF t v(3)] s t v by auto
qed


definition bad_status_body :: string where
  "bad_status_body = [CHR 0x7B, CHR 0x22] @ ''status'' @ [CHR 0x22] @ '':[]}''"


end
