(* ===== verification/Contract_Values.thy ===== *)
theory Contract_Values
  imports Json_Text
begin

text \<open>
  The strict field readers shared by the contract validators
  (\<^verbatim>\<open>src/hormuz/_contract_schemas/common.py\<close>) and the vocabularies they check against
  (\<^verbatim>\<open>constants.py\<close>). A validator raises one exception only, \<^verbatim>\<open>ContractValidationError\<close>: a reader
  is the value it returns or \<^const>\<open>None\<close> when it raises, and a validator is the condition under
  which it does not raise.
\<close>

section \<open>Readers of one field\<close>

definition exact_keys :: "jdict \<Rightarrow> string list \<Rightarrow> bool" where
  "exact_keys d required = (set (keys d) = set required)"

definition value_string :: "jdict \<Rightarrow> string \<Rightarrow> string option" where
  "value_string d f = (case dget d f of JStr s \<Rightarrow> if s = [] then None else Some s | _ \<Rightarrow> None)"

definition nullable_string :: "jdict \<Rightarrow> string \<Rightarrow> string option option" where
  "nullable_string d f = (if dget d f = JNull then Some None else map_option Some (value_string d f))"

definition value_string_list :: "jdict \<Rightarrow> string \<Rightarrow> string list option" where
  "value_string_list d f = (case dget d f of
      JList xs \<Rightarrow> those (map (\<lambda>x. case x of JStr s \<Rightarrow> if s = [] then None else Some s | _ \<Rightarrow> None) xs)
    | _ \<Rightarrow> None)"

definition value_integer :: "jdict \<Rightarrow> string \<Rightarrow> int option \<Rightarrow> int option" where
  "value_integer d f minimum = (case dget d f of
      JInt i \<Rightarrow> (case minimum of None \<Rightarrow> Some i | Some m \<Rightarrow> if i < m then None else Some i)
    | _ \<Rightarrow> None)"

definition nullable_integer :: "jdict \<Rightarrow> string \<Rightarrow> int option \<Rightarrow> int option option" where
  "nullable_integer d f minimum =
     (if dget d f = JNull then Some None else map_option Some (value_integer d f minimum))"

definition value_mapping :: "jdict \<Rightarrow> string \<Rightarrow> jdict option" where
  "value_mapping d f = (case dget d f of JDict e \<Rightarrow> Some e | _ \<Rightarrow> None)"

text \<open>The readers as conditions.\<close>

definition string_ok :: "jdict \<Rightarrow> string \<Rightarrow> bool" where
  "string_ok d f = (value_string d f \<noteq> None)"

definition string_is :: "jdict \<Rightarrow> string \<Rightarrow> string \<Rightarrow> bool" where
  "string_is d f s = (value_string d f = Some s)"

definition string_among :: "jdict \<Rightarrow> string \<Rightarrow> string list \<Rightarrow> bool" where
  "string_among d f xs = (case value_string d f of None \<Rightarrow> False | Some s \<Rightarrow> s \<in> set xs)"

definition nullable_string_ok :: "jdict \<Rightarrow> string \<Rightarrow> bool" where
  "nullable_string_ok d f = (nullable_string d f \<noteq> None)"

definition integer_ok :: "jdict \<Rightarrow> string \<Rightarrow> int option \<Rightarrow> bool" where
  "integer_ok d f m = (value_integer d f m \<noteq> None)"

definition integer_is :: "jdict \<Rightarrow> string \<Rightarrow> int \<Rightarrow> bool" where
  "integer_is d f i = (value_integer d f None = Some i)"

definition string_list_ok :: "jdict \<Rightarrow> string \<Rightarrow> bool" where
  "string_list_ok d f = (value_string_list d f \<noteq> None)"

definition digest_at :: "jdict \<Rightarrow> string \<Rightarrow> bool" where
  "digest_at d f = (case value_string d f of None \<Rightarrow> False | Some s \<Rightarrow> is_hex64 s)"

definition digest_or_null_at :: "jdict \<Rightarrow> string \<Rightarrow> bool" where
  "digest_or_null_at d f = (dget d f = JNull \<or> digest_at d f)"

text \<open>
  The strings \<^verbatim>\<open>uuid.UUID\<close> takes: after \<^verbatim>\<open>urn:\<close> and \<^verbatim>\<open>uuid:\<close> are removed, the braces stripped and
  the hyphens removed, 32 characters that \<^verbatim>\<open>int(s, 16)\<close> reads: surrounding whitespace, a sign, a
  \<^verbatim>\<open>0x\<close> prefix and single underscores between digits are all allowed there.
\<close>

fun remove_all :: "string \<Rightarrow> string \<Rightarrow> string" where
  "remove_all p [] = []"
| "remove_all p (c # cs) =
     (if starts_with p (c # cs) then remove_all p (drop (length p - 1) cs) else c # remove_all p cs)"

definition strip_chars :: "string \<Rightarrow> string \<Rightarrow> string" where
  "strip_chars cs s = rev (dropWhile (\<lambda>c. c \<in> set cs) (rev (dropWhile (\<lambda>c. c \<in> set cs) s)))"

definition int_base16 :: "string \<Rightarrow> bool" where
  "int_base16 s =
     (let t = strip s;
          u = (if t \<noteq> [] \<and> hd t \<in> {CHR ''+'', CHR ''-''} then tl t else t);
          v = (if starts_with ''0x'' u \<or> starts_with ''0X'' u
               then (let w = drop 2 u in if starts_with ''_'' w then tl w else w) else u)
      in list_all (\<lambda>p. p \<noteq> [] \<and> list_all is_hex p) (split_on (CHR ''_'') v))"

definition uuid_parses :: "string \<Rightarrow> bool" where
  "uuid_parses s =
     (let h = filter (\<lambda>c. c \<noteq> CHR ''-'') (strip_chars ''{}'' (remove_all ''uuid:'' (remove_all ''urn:'' s)))
      in length h = 32 \<and> int_base16 h)"

definition uuid_at :: "jdict \<Rightarrow> string \<Rightarrow> bool" where
  "uuid_at d f = (case value_string d f of None \<Rightarrow> False | Some s \<Rightarrow> uuid_parses s)"

section \<open>Shared groups of fields\<close>

definition identity_types :: "string list" where
  "identity_types = [''human'', ''service_account'', ''ci'', ''connector'']"

definition identity_values_ok :: "jdict \<Rightarrow> bool" where
  "identity_values_ok d =
     (string_ok d ''organization_id'' \<and> string_ok d ''actor_id'' \<and> string_ok d ''actor_name'' \<and>
      string_ok d ''team_id'' \<and> string_ok d ''team_name'' \<and>
      string_among d ''identity_type'' identity_types \<and> string_ok d ''authentication_source'')"

definition cost_coverage_values_ok :: "jdict \<Rightarrow> bool" where
  "cost_coverage_values_ok d =
     (string_is d ''cost_basis'' ''configured_rate_card_estimate'' \<and>
      string_is d ''allocation_basis'' ''direct_gateway_request'' \<and>
      string_is d ''coverage'' ''gateway_captured_requests_only'')"

definition policy_actions :: "string list" where
  "policy_actions = [''allowed'', ''allowed+redacted'', ''fallback'', ''fallback+redacted'', ''capped'',
     ''capped+redacted'', ''fallback+capped'', ''fallback+capped+redacted'', ''denied'',
     ''provider_policy_denied'', ''secret_denied'', ''budget_reservation_denied'']"

definition request_statuses :: "string list" where
  "request_statuses = [''succeeded'', ''failed'', ''denied'', ''rate_limited'']"

definition attempt_states :: "string list" where
  "attempt_states = [''pending'', ''succeeded'', ''failed'', ''rate_limited'', ''outcome_unknown'']"

definition attempt_unknown_reasons :: "string list" where
  "attempt_unknown_reasons =
     [''provider_transport_ambiguous'', ''provider_stream_interrupted'', ''stale_pending'']"

lemmas reader_defs =
  exact_keys_def value_string_def nullable_string_def value_string_list_def value_integer_def
  nullable_integer_def value_mapping_def string_ok_def string_is_def string_among_def
  nullable_string_ok_def integer_ok_def integer_is_def string_list_ok_def digest_at_def
  digest_or_null_at_def uuid_at_def

section \<open>What a check that passed says of the field\<close>

lemma value_string_Some: "value_string d f = Some s \<longleftrightarrow> dget d f = JStr s \<and> s \<noteq> []"
  by (auto simp: value_string_def split: json.splits if_splits)

lemma value_integer_Some:
  "value_integer d f m = Some i \<longleftrightarrow> dget d f = JInt i \<and> (case m of None \<Rightarrow> True | Some l \<Rightarrow> l \<le> i)"
  by (auto simp: value_integer_def split: json.splits option.splits)

lemma string_okD: "string_ok d f \<Longrightarrow> \<exists>s. dget d f = JStr s \<and> s \<noteq> []"
  by (auto simp: string_ok_def value_string_Some)

lemma string_isD: "string_is d f s \<Longrightarrow> dget d f = JStr s"
  by (simp add: string_is_def value_string_Some)

lemma string_amongD: "string_among d f xs \<Longrightarrow> \<exists>s \<in> set xs. dget d f = JStr s"
  by (auto simp: string_among_def value_string_Some split: option.splits)

lemma integer_isD: "integer_is d f i \<Longrightarrow> dget d f = JInt i"
  by (simp add: integer_is_def value_integer_Some)

lemma integer_okD: "integer_ok d f (Some m) \<Longrightarrow> \<exists>i. dget d f = JInt i \<and> m \<le> i"
  by (auto simp: integer_ok_def value_integer_Some)

lemma digest_atD: "digest_at d f \<Longrightarrow> \<exists>s. dget d f = JStr s \<and> is_hex64 s"
  by (auto simp: digest_at_def value_string_Some split: option.splits)

lemma exact_keysD: "exact_keys d ks \<Longrightarrow> set (keys d) = set ks"
  by (simp add: exact_keys_def)

end
