(* ===== verification/Evidence_Contracts.thy ===== *)
theory Evidence_Contracts
  imports Contract_Values
begin

text \<open>
  Validators of the records that enter the audit chain and of the status documents built from them:
  request attempts (\<^verbatim>\<open>request_attempt.py\<close>), custody execution, lifecycle, control and deletion records
  and the custody status (\<^verbatim>\<open>custody_execution.py\<close>, \<^verbatim>\<open>custody_lifecycle.py\<close>, \<^verbatim>\<open>custody.py\<close>,
  \<^verbatim>\<open>custody_retention.py\<close>), all under \<^verbatim>\<open>src/hormuz/_contract_schemas/\<close>. Each is the condition under
  which the validator returns.
\<close>

section \<open>Request attempts\<close>

definition validate_request_attempt :: "jdict \<Rightarrow> bool" where
  "validate_request_attempt d =
     (exact_keys d [''evidence_schema_id'', ''evidence_schema_version'', ''attempt_id'', ''created_at'',
        ''organization_id'', ''actor_id'', ''actor_name'', ''team_id'', ''team_name'', ''identity_type'',
        ''authentication_source'', ''client'', ''protocol'', ''requested_model'', ''resolved_alias'',
        ''upstream_model'', ''policy_version'', ''policy_action'', ''redaction_count'', ''redaction_rules'',
        ''reserved_tokens'', ''reserved_cost_microusd''] \<and>
      string_is d ''evidence_schema_id'' ''hormuz.request-attempt'' \<and>
      integer_is d ''evidence_schema_version'' 1 \<and>
      string_ok d ''attempt_id'' \<and> string_ok d ''created_at'' \<and> identity_values_ok d \<and>
      string_ok d ''client'' \<and> string_ok d ''protocol'' \<and> string_ok d ''requested_model'' \<and>
      nullable_string_ok d ''resolved_alias'' \<and> nullable_string_ok d ''upstream_model'' \<and>
      string_ok d ''policy_version'' \<and> string_among d ''policy_action'' policy_actions \<and>
      integer_ok d ''redaction_count'' (Some 0) \<and> string_list_ok d ''redaction_rules'' \<and>
      integer_ok d ''reserved_tokens'' (Some 0) \<and> integer_ok d ''reserved_cost_microusd'' (Some 0))"

definition validate_request_attempt_event :: "jdict \<Rightarrow> bool" where
  "validate_request_attempt_event d =
     (exact_keys d [''event_schema_id'', ''event_schema_version'', ''id'', ''attempt_id'', ''organization_id'',
        ''occurred_at'', ''sequence'', ''state'', ''reason_code'', ''usage_event_id''] \<and>
      string_is d ''event_schema_id'' ''hormuz.request-attempt-event'' \<and>
      integer_is d ''event_schema_version'' 1 \<and>
      string_ok d ''id'' \<and> string_ok d ''attempt_id'' \<and> string_ok d ''organization_id'' \<and>
      string_ok d ''occurred_at'' \<and> string_among d ''state'' attempt_states \<and>
      (case (value_integer d ''sequence'' (Some 1), nullable_string d ''reason_code'',
             nullable_string d ''usage_event_id'') of
         (Some sequence, Some reason, Some usage) \<Rightarrow>
           if string_is d ''state'' ''pending'' then sequence = 1 \<and> reason = None \<and> usage = None
           else if string_is d ''state'' ''outcome_unknown'' then
             1 < sequence \<and> reason \<in> Some ` set attempt_unknown_reasons \<and> usage = None
           else 1 < sequence \<and> reason = None \<and> usage \<noteq> None
       | _ \<Rightarrow> False))"

section \<open>Custody execution\<close>

definition target_kinds :: "(string \<times> string) list" where
  "target_kinds = [(''seal_envelope'', ''envelope''), (''rewrap_envelope'', ''envelope''),
     (''verify_restore'', ''restore''), (''retire_envelope'', ''envelope''),
     (''disable_provider_credential'', ''provider_credential''),
     (''retire_key_reference'', ''key_reference''), (''resolve_recovery'', ''recovery'')]"

definition lifecycle_operations :: "string list" where
  "lifecycle_operations =
     [''retire_envelope'', ''disable_provider_credential'', ''retire_key_reference'', ''resolve_recovery'']"

definition execution_states :: "string list" where
  "execution_states = [''pending'', ''succeeded'', ''failed'', ''outcome_unknown'']"

definition execution_unknown_reasons :: "string list" where
  "execution_unknown_reasons = [''external_result_ambiguous'', ''stale_pending'']"

definition execution_failure_reasons :: "string list" where
  "execution_failure_reasons = [''execution_failed'']"

definition validate_custody_execution_attempt :: "jdict \<Rightarrow> bool" where
  "validate_custody_execution_attempt d =
     (exact_keys d [''execution_schema_id'', ''execution_schema_version'', ''organization_id'', ''execution_id'',
        ''operation_id'', ''operation_type'', ''target_kind'', ''target_sha256'', ''parameters_sha256'',
        ''protected_input_ref_sha256'', ''claimed_at'', ''state''] \<and>
      string_is d ''execution_schema_id'' ''hormuz.custody-execution-attempt'' \<and>
      (integer_is d ''execution_schema_version'' 1 \<or> integer_is d ''execution_schema_version'' 2) \<and>
      string_ok d ''organization_id'' \<and> uuid_at d ''execution_id'' \<and> uuid_at d ''operation_id'' \<and>
      (case value_string d ''operation_type'' of
         None \<Rightarrow> False
       | Some operation \<Rightarrow>
           (case map_of target_kinds operation of
              None \<Rightarrow> False
            | Some kind \<Rightarrow>
                \<not> (integer_is d ''execution_schema_version'' 1 \<and> operation \<in> set lifecycle_operations) \<and>
                string_is d ''target_kind'' kind \<and>
                (if operation = ''seal_envelope'' then digest_at d ''protected_input_ref_sha256''
                 else dget d ''protected_input_ref_sha256'' = JNull))) \<and>
      digest_at d ''target_sha256'' \<and> digest_at d ''parameters_sha256'' \<and>
      string_ok d ''claimed_at'' \<and> string_among d ''state'' execution_states)"

definition validate_custody_execution_event :: "jdict \<Rightarrow> bool" where
  "validate_custody_execution_event d =
     (exact_keys d [''event_schema_id'', ''event_schema_version'', ''organization_id'', ''execution_id'',
        ''operation_id'', ''occurred_at'', ''sequence'', ''state'', ''reason_code''] \<and>
      string_is d ''event_schema_id'' ''hormuz.custody-execution-event'' \<and>
      integer_is d ''event_schema_version'' 1 \<and>
      string_ok d ''organization_id'' \<and> uuid_at d ''execution_id'' \<and> uuid_at d ''operation_id'' \<and>
      string_ok d ''occurred_at'' \<and> string_among d ''state'' execution_states \<and>
      (case (value_integer d ''sequence'' (Some 1), nullable_string d ''reason_code'') of
         (Some sequence, Some reason) \<Rightarrow>
           if sequence = 1 then string_is d ''state'' ''pending'' \<and> reason = None
           else if sequence \<noteq> 2 \<or> string_is d ''state'' ''pending'' then False
           else if string_is d ''state'' ''succeeded'' then reason = None
           else if string_is d ''state'' ''failed'' then reason \<in> Some ` set execution_failure_reasons
           else reason \<in> Some ` set execution_unknown_reasons
       | _ \<Rightarrow> False))"

section \<open>Custody lifecycle and attestations\<close>

definition asset_types :: "string list" where
  "asset_types = [''provider_credential'', ''envelope'', ''key_reference'']"

definition recovery_codes :: "string list" where
  "recovery_codes = [''confirmed_applied'', ''confirmed_not_applied'', ''compensating_action_completed'']"

definition asset_ok :: "json \<Rightarrow> json \<Rightarrow> json \<Rightarrow> json \<Rightarrow> bool" where
  "asset_ok asset_type asset_id generation fingerprint =
     (str_in asset_type asset_types \<and> string_ok [(''value'', asset_id)] ''value'' \<and>
      integer_ok [(''value'', generation)] ''value'' (Some 1) \<and> digest_at [(''value'', fingerprint)] ''value'')"

definition asset_at :: "jdict \<Rightarrow> string \<Rightarrow> json \<Rightarrow> bool" where
  "asset_at d prefix asset_type = asset_ok asset_type (dget d (prefix @ ''_id''))
     (dget d (prefix @ ''_generation'')) (dget d (prefix @ ''_binding_fingerprint''))"

definition all_null :: "jdict \<Rightarrow> string list \<Rightarrow> bool" where
  "all_null d fs = list_all (\<lambda>f. dget d f = JNull) fs"

definition validate_custody_lifecycle_event :: "jdict \<Rightarrow> bool" where
  "validate_custody_lifecycle_event d =
     (exact_keys d [''lifecycle_schema_id'', ''lifecycle_schema_version'', ''organization_id'',
        ''lifecycle_event_id'', ''execution_id'', ''operation_id'', ''occurred_at'', ''operation_type'',
        ''target_sha256'', ''parameters_sha256'', ''asset_type'', ''asset_id'', ''asset_generation'',
        ''asset_binding_fingerprint'', ''replacement_asset_type'', ''replacement_asset_id'',
        ''replacement_asset_generation'', ''replacement_asset_binding_fingerprint'',
        ''recovery_execution_id'', ''recovery_resolution_code'', ''chain_version'', ''sequence'',
        ''previous_digest'', ''event_digest''] \<and>
      string_is d ''lifecycle_schema_id'' ''hormuz.custody-lifecycle-event'' \<and>
      integer_is d ''lifecycle_schema_version'' 1 \<and> string_ok d ''organization_id'' \<and>
      uuid_at d ''lifecycle_event_id'' \<and> uuid_at d ''execution_id'' \<and> uuid_at d ''operation_id'' \<and>
      string_ok d ''occurred_at'' \<and> digest_at d ''target_sha256'' \<and> digest_at d ''parameters_sha256'' \<and>
      string_among d ''operation_type'' lifecycle_operations \<and> integer_is d ''chain_version'' 1 \<and>
      integer_ok d ''sequence'' (Some 1) \<and> digest_or_null_at d ''previous_digest'' \<and>
      digest_at d ''event_digest'' \<and>
      list_all (nullable_string_ok d) [''asset_type'', ''asset_id'', ''asset_binding_fingerprint'',
        ''replacement_asset_type'', ''replacement_asset_id'', ''replacement_asset_binding_fingerprint'',
        ''recovery_execution_id'', ''recovery_resolution_code''] \<and>
      (if string_is d ''operation_type'' ''resolve_recovery'' then
         all_null d [''asset_type'', ''asset_id'', ''asset_generation'', ''asset_binding_fingerprint'',
           ''replacement_asset_type'', ''replacement_asset_id'', ''replacement_asset_generation'',
           ''replacement_asset_binding_fingerprint''] \<and>
         uuid_at d ''recovery_execution_id'' \<and> string_among d ''recovery_resolution_code'' recovery_codes
       else
         asset_at d ''asset'' (dget d ''asset_type'') \<and>
         all_null d [''recovery_execution_id'', ''recovery_resolution_code''] \<and>
         (if string_is d ''operation_type'' ''retire_key_reference'' then
            string_is d ''replacement_asset_type'' ''key_reference'' \<and>
            asset_at d ''replacement_asset'' (dget d ''replacement_asset_type'')
          else
            all_null d [''replacement_asset_type'', ''replacement_asset_id'', ''replacement_asset_generation'',
              ''replacement_asset_binding_fingerprint''] \<and>
            string_is d ''asset_type'' (if string_is d ''operation_type'' ''disable_provider_credential''
              then ''provider_credential'' else ''envelope''))))"

definition validate_custody_envelope_attestation :: "jdict \<Rightarrow> bool" where
  "validate_custody_envelope_attestation d =
     (exact_keys d [''attestation_schema_id'', ''attestation_schema_version'', ''organization_id'',
        ''execution_id'', ''attestation_kind'', ''envelope_asset_id'', ''envelope_generation'',
        ''envelope_binding_fingerprint'', ''source_key_asset_id'', ''source_key_generation'',
        ''source_key_binding_fingerprint'', ''destination_key_asset_id'', ''destination_key_generation'',
        ''destination_key_binding_fingerprint'', ''occurred_at''] \<and>
      string_is d ''attestation_schema_id'' ''hormuz.custody-envelope-attestation'' \<and>
      integer_is d ''attestation_schema_version'' 1 \<and> string_ok d ''organization_id'' \<and>
      uuid_at d ''execution_id'' \<and> string_ok d ''attestation_kind'' \<and> string_ok d ''occurred_at'' \<and>
      asset_ok (JStr ''envelope'') (dget d ''envelope_asset_id'') (dget d ''envelope_generation'')
        (dget d ''envelope_binding_fingerprint'') \<and>
      asset_ok (JStr ''key_reference'') (dget d ''destination_key_asset_id'')
        (dget d ''destination_key_generation'') (dget d ''destination_key_binding_fingerprint'') \<and>
      nullable_string_ok d ''source_key_asset_id'' \<and> nullable_string_ok d ''source_key_binding_fingerprint'' \<and>
      (if string_is d ''attestation_kind'' ''rewrapped'' then
         asset_ok (JStr ''key_reference'') (dget d ''source_key_asset_id'') (dget d ''source_key_generation'')
           (dget d ''source_key_binding_fingerprint'')
       else string_is d ''attestation_kind'' ''restore_verified'' \<and>
         all_null d [''source_key_asset_id'', ''source_key_generation'', ''source_key_binding_fingerprint'']))"

section \<open>Custody control\<close>

definition routine_operations :: "string list" where
  "routine_operations = [''seal_envelope'', ''rewrap_envelope'', ''verify_restore'']"

definition control_event_types :: "string list" where
  "control_event_types = [''bootstrap_initialized'', ''administrator_granted'', ''administrator_revoked'',
     ''operation_requested'', ''operation_approved'', ''operation_authorized'']"

definition identity_key_ok :: "string \<Rightarrow> string \<Rightarrow> bool" where
  "identity_key_ok kind v = (kind \<in> {''static'', ''oidc''} \<and> starts_with (kind @ '':'') v \<and>
     is_hex64 (removeprefix (kind @ '':'') v))"

definition identity_key_at :: "jdict \<Rightarrow> string \<Rightarrow> string \<Rightarrow> bool" where
  "identity_key_at d kind_field key_field = (case (value_string d kind_field, value_string d key_field) of
      (Some kind, Some key) \<Rightarrow> identity_key_ok kind key | _ \<Rightarrow> False)"

definition opaque_identity_key_ok :: "string \<Rightarrow> bool" where
  "opaque_identity_key_ok v = ((starts_with ''static:'' v \<or> starts_with ''oidc:'' v) \<and>
     is_hex64 (tl (dropWhile (\<lambda>c. c \<noteq> CHR '':'') v)))"

definition operation_fields :: "string list" where
  "operation_fields = [''operation_id'', ''operation_type'', ''risk_level'', ''target_kind'', ''target_sha256'',
     ''parameters_sha256'', ''protected_input_ref_sha256'', ''required_approvals'', ''approval_count'',
     ''expires_at'']"

definition expected_risk :: "string \<Rightarrow> string" where
  "expected_risk operation = (if operation \<in> set routine_operations then ''routine'' else ''destructive'')"

definition expected_approvals :: "string \<Rightarrow> int" where
  "expected_approvals operation = (if operation \<in> set routine_operations then 1 else 2)"

definition operation_fields_ok :: "jdict \<Rightarrow> bool" where
  "operation_fields_ok d =
     (uuid_at d ''operation_id'' \<and> string_ok d ''expires_at'' \<and>
      (case value_string d ''operation_type'' of
         None \<Rightarrow> False
       | Some operation \<Rightarrow>
           (case map_of target_kinds operation of
              None \<Rightarrow> False
            | Some kind \<Rightarrow>
                string_is d ''risk_level'' (expected_risk operation) \<and> string_is d ''target_kind'' kind \<and>
                (if operation = ''seal_envelope'' then digest_at d ''protected_input_ref_sha256''
                 else dget d ''protected_input_ref_sha256'' = JNull) \<and>
                integer_is d ''required_approvals'' (expected_approvals operation) \<and>
                (case value_integer d ''approval_count'' None of
                   None \<Rightarrow> False | Some n \<Rightarrow> n \<le> expected_approvals operation))) \<and>
      digest_at d ''target_sha256'' \<and> digest_at d ''parameters_sha256'')"

definition validate_custody_control_event :: "jdict \<Rightarrow> bool" where
  "validate_custody_control_event d =
     (exact_keys d ([''event_schema_id'', ''event_schema_version'', ''organization_id'', ''occurred_at'',
        ''event_type'', ''actor_kind'', ''actor_identity_key'', ''target_identity_key''] @ operation_fields) \<and>
      string_is d ''event_schema_id'' ''hormuz.custody-control-event'' \<and>
      integer_is d ''event_schema_version'' 1 \<and> string_ok d ''organization_id'' \<and>
      string_ok d ''occurred_at'' \<and> string_among d ''event_type'' control_event_types \<and>
      identity_key_at d ''actor_kind'' ''actor_identity_key'' \<and>
      list_all (nullable_string_ok d) [''target_identity_key'', ''operation_id'', ''operation_type'',
        ''risk_level'', ''target_kind'', ''target_sha256'', ''parameters_sha256'',
        ''protected_input_ref_sha256'', ''expires_at''] \<and>
      nullable_integer d ''required_approvals'' (Some 1) \<noteq> None \<and>
      nullable_integer d ''approval_count'' (Some 0) \<noteq> None \<and>
      (if string_is d ''event_type'' ''bootstrap_initialized'' then
         dget d ''target_identity_key'' = JNull \<and> all_null d operation_fields
       else if string_among d ''event_type'' [''administrator_granted'', ''administrator_revoked''] then
         (case value_string d ''target_identity_key'' of
            None \<Rightarrow> False | Some key \<Rightarrow> opaque_identity_key_ok key) \<and> all_null d operation_fields
       else dget d ''target_identity_key'' = JNull \<and> operation_fields_ok d \<and>
         (case (value_integer d ''approval_count'' None, value_integer d ''required_approvals'' None) of
            (Some count, Some required) \<Rightarrow>
              (string_is d ''event_type'' ''operation_requested'' \<longrightarrow> count = 0) \<and>
              (string_is d ''event_type'' ''operation_approved'' \<longrightarrow> 1 \<le> count \<and> count \<le> required) \<and>
              (string_is d ''event_type'' ''operation_authorized'' \<longrightarrow> count = required)
          | _ \<Rightarrow> False)))"

section \<open>The custody status\<close>

definition administrator_ok :: "jdict \<Rightarrow> bool" where
  "administrator_ok d =
     (exact_keys d [''authentication_kind'', ''actor_id'', ''issuer'', ''subject''] \<and>
      (string_is d ''authentication_kind'' ''static'' \<and> string_ok d ''actor_id'' \<and>
         dget d ''issuer'' = JNull \<and> dget d ''subject'' = JNull \<or>
       string_is d ''authentication_kind'' ''oidc'' \<and> dget d ''actor_id'' = JNull \<and>
         string_ok d ''issuer'' \<and> string_ok d ''subject''))"

text \<open>The loop over the approvals: each has a key no earlier one has.\<close>

fun approvals_ok :: "string list \<Rightarrow> json list \<Rightarrow> bool" where
  "approvals_ok approvers [] = True"
| "approvals_ok approvers (v # vs) = (case v of
      JDict d \<Rightarrow>
        exact_keys d [''approver_kind'', ''approver_identity_key'', ''approved_at''] \<and>
        identity_key_at d ''approver_kind'' ''approver_identity_key'' \<and> string_ok d ''approved_at'' \<and>
        (case value_string d ''approver_identity_key'' of
           None \<Rightarrow> False
         | Some key \<Rightarrow> key \<notin> set approvers \<and> approvals_ok (key # approvers) vs)
    | _ \<Rightarrow> False)"

definition status_operation_ok :: "jdict \<Rightarrow> bool" where
  "status_operation_ok d =
     (exact_keys d [''operation_id'', ''operation_type'', ''risk_level'', ''target_kind'', ''target_sha256'',
        ''parameters_sha256'', ''protected_input_ref_sha256'', ''state'', ''required_approvals'',
        ''approval_count'', ''created_at'', ''expires_at'', ''authorized_at'', ''requested_by_kind'',
        ''requested_by_identity_key'', ''approvals''] \<and>
      nullable_string_ok d ''protected_input_ref_sha256'' \<and>
      integer_ok d ''required_approvals'' (Some 1) \<and> integer_ok d ''approval_count'' (Some 1) \<and>
      operation_fields_ok d \<and> string_ok d ''created_at'' \<and> nullable_string_ok d ''authorized_at'' \<and>
      (case (value_integer d ''approval_count'' None, value_integer d ''required_approvals'' None) of
         (Some count, Some required) \<Rightarrow>
           (if string_is d ''state'' ''pending'' then dget d ''authorized_at'' = JNull \<and> count < required
            else if string_is d ''state'' ''authorized'' then
              dget d ''authorized_at'' \<noteq> JNull \<and> count = required
            else string_is d ''state'' ''expired'' \<and> (dget d ''authorized_at'' = JNull) = (count < required)) \<and>
           (case dget d ''approvals'' of
              JList approvals \<Rightarrow> int (length approvals) = count \<and> approvals_ok [] approvals
            | _ \<Rightarrow> False)
       | _ \<Rightarrow> False) \<and>
      identity_key_at d ''requested_by_kind'' ''requested_by_identity_key'')"

definition dict_that :: "(jdict \<Rightarrow> bool) \<Rightarrow> json \<Rightarrow> bool" where
  "dict_that P v = (case v of JDict d \<Rightarrow> P d | _ \<Rightarrow> False)"

definition status_fields :: "string list" where
  "status_fields = [''schema_id'', ''schema_version'', ''organization_id'', ''initialized'', ''administrators'',
     ''operation_count'', ''operations'']"

definition counted_list :: "jdict \<Rightarrow> string \<Rightarrow> string \<Rightarrow> (json \<Rightarrow> bool) \<Rightarrow> bool" where
  "counted_list d count_field field P = (case (value_integer d count_field (Some 0), dget d field) of
      (Some n, JList xs) \<Rightarrow> int (length xs) \<le> n \<and> list_all P xs | _ \<Rightarrow> False)"

definition validate_custody_control_status_v1 :: "jdict \<Rightarrow> bool" where
  "validate_custody_control_status_v1 d =
     (exact_keys d status_fields \<and> string_ok d ''organization_id'' \<and> is_bool (dget d ''initialized'') \<and>
      (case dget d ''administrators'' of JList xs \<Rightarrow> list_all (dict_that administrator_ok) xs | _ \<Rightarrow> False) \<and>
      counted_list d ''operation_count'' ''operations'' (dict_that status_operation_ok))"

text \<open>One or two events in sequence; the state of the attempt is that of the last.\<close>

fun history_ok :: "jdict \<Rightarrow> string \<Rightarrow> nat \<Rightarrow> json list \<Rightarrow> bool" where
  "history_ok d organization n [] = True"
| "history_ok d organization n (v # vs) = (case v of
      JDict ev \<Rightarrow> validate_custody_execution_event ev \<and>
        dget ev ''organization_id'' = JStr organization \<and>
        dget ev ''execution_id'' = dget d ''execution_id'' \<and>
        dget ev ''operation_id'' = dget d ''operation_id'' \<and>
        dget ev ''sequence'' = JInt (int n) \<and> history_ok d organization (Suc n) vs
    | _ \<Rightarrow> False)"

definition last_state :: "json list \<Rightarrow> json" where
  "last_state events = (case last events of JDict ev \<Rightarrow> dget ev ''state'' | _ \<Rightarrow> JNull)"

definition execution_status_attempt_ok :: "bool \<Rightarrow> string \<Rightarrow> jdict \<Rightarrow> bool" where
  "execution_status_attempt_ok allow_lifecycle organization d =
     (exact_keys d [''execution_schema_id'', ''execution_schema_version'', ''organization_id'', ''execution_id'',
        ''operation_id'', ''operation_type'', ''target_kind'', ''target_sha256'', ''parameters_sha256'',
        ''protected_input_ref_sha256'', ''claimed_at'', ''state'', ''events''] \<and>
      validate_custody_execution_attempt (dict_del ''events'' d) \<and>
      (allow_lifecycle \<or> dget d ''execution_schema_version'' = JInt 1) \<and>
      dget d ''organization_id'' = JStr organization \<and>
      (case dget d ''events'' of
         JList events \<Rightarrow> events \<noteq> [] \<and> length events \<le> 2 \<and> history_ok d organization 1 events \<and>
           dget d ''state'' = last_state events
       | _ \<Rightarrow> False))"

definition validate_custody_status_with_execution :: "bool \<Rightarrow> jdict \<Rightarrow> bool" where
  "validate_custody_status_with_execution allow_lifecycle d =
     (exact_keys d (status_fields @ [''execution_attempt_count'', ''execution_attempts'']) \<and>
      validate_custody_control_status_v1 (filter (\<lambda>(k, _). k \<in> set status_fields) d) \<and>
      (case value_string d ''organization_id'' of
         None \<Rightarrow> False
       | Some organization \<Rightarrow> counted_list d ''execution_attempt_count'' ''execution_attempts''
           (dict_that (execution_status_attempt_ok allow_lifecycle organization))))"

definition validate_custody_control_status_v2 :: "jdict \<Rightarrow> bool" where
  "validate_custody_control_status_v2 d = validate_custody_status_with_execution False d"

definition validate_custody_control_status_v3 :: "jdict \<Rightarrow> bool" where
  "validate_custody_control_status_v3 d = validate_custody_status_with_execution True d"

section \<open>Refused deletions\<close>

definition deletion_block_reasons :: "string list" where
  "deletion_block_reasons = [''retention_active'', ''legal_hold_active'', ''strong_approval_required'']"

definition deletion_sources :: "(string \<times> int) list" where
  "deletion_sources = [(''hormuz.custody-control-event'', 1), (''hormuz.custody-execution-attempt'', 2),
     (''hormuz.custody-execution-event'', 1), (''hormuz.custody-lifecycle-event'', 1),
     (''hormuz.custody-envelope-attestation'', 1), (''hormuz.custody-deletion-event'', 1)]"

definition validate_custody_deletion_event :: "jdict \<Rightarrow> bool" where
  "validate_custody_deletion_event d =
     (exact_keys d [''deletion_schema_id'', ''deletion_schema_version'', ''organization_id'',
        ''deletion_event_id'', ''occurred_at'', ''source_schema_id'', ''source_schema_version'',
        ''source_event_id'', ''source_retain_until'', ''source_legal_hold'', ''decision'', ''reason_code''] \<and>
      string_is d ''deletion_schema_id'' ''hormuz.custody-deletion-event'' \<and>
      integer_is d ''deletion_schema_version'' 1 \<and> string_ok d ''organization_id'' \<and>
      uuid_at d ''deletion_event_id'' \<and> string_ok d ''occurred_at'' \<and>
      string_ok d ''source_event_id'' \<and> string_ok d ''source_retain_until'' \<and>
      is_bool (dget d ''source_legal_hold'') \<and> dget d ''decision'' = JStr ''deletion_blocked'' \<and>
      string_among d ''reason_code'' deletion_block_reasons \<and>
      (case (value_string d ''source_schema_id'', value_integer d ''source_schema_version'' (Some 1)) of
         (Some i, Some n) \<Rightarrow> (i, n) \<in> set deletion_sources | _ \<Rightarrow> False))"

section \<open>Approvals\<close>

definition approver_of :: "json \<Rightarrow> string option" where
  "approver_of v = (case v of JDict d \<Rightarrow> value_string d ''approver_identity_key'' | _ \<Rightarrow> None)"

lemma approvals_distinct:
  "approvals_ok seen vs \<Longrightarrow> distinct (map approver_of vs) \<and> (\<forall>v \<in> set vs. \<exists>k. approver_of v = Some k \<and>
     k \<notin> set seen \<and> (identity_key_ok ''static'' k \<or> identity_key_ok ''oidc'' k))"
proof (induction seen vs rule: approvals_ok.induct)
  case (2 approvers v vs)
  obtain d where v: "v = JDict d" using 2(2) by (auto split: json.splits)
  obtain key where key: "value_string d ''approver_identity_key'' = Some key" "key \<notin> set approvers"
    "approvals_ok (key # approvers) vs" "identity_key_at d ''approver_kind'' ''approver_identity_key''"
    using 2(2) by (auto simp: v split: option.splits)
  have "identity_key_ok ''static'' key \<or> identity_key_ok ''oidc'' key"
    using key(1,4) by (auto simp: identity_key_at_def identity_key_ok_def split: option.splits)
  then show ?case using 2(1) [OF v key(1,3)] key by (auto simp: v approver_of_def)
qed simp

text \<open>
  C35: A custody operation the status reports as authorized was approved by as many different
  administrators as its risk demands: the approvals carry pairwise different, well-formed identity keys,
  one for a routine operation and two for every destructive one.
\<close>
theorem authorized_operation_approved:
  assumes "status_operation_ok d" and "string_is d ''state'' ''authorized''"
  shows "\<exists>operation approvals. value_string d ''operation_type'' = Some operation \<and>
     dget d ''approvals'' = JList approvals \<and> distinct (map approver_of approvals) \<and>
     (\<forall>v \<in> set approvals. \<exists>k. approver_of v = Some k \<and> (identity_key_ok ''static'' k \<or> identity_key_ok ''oidc'' k)) \<and>
     length approvals = (if operation \<in> set routine_operations then 1 else 2)"
proof -
  obtain operation where o: "value_string d ''operation_type'' = Some operation"
    "integer_is d ''required_approvals'' (expected_approvals operation)"
    using assms(1) by (auto simp: status_operation_ok_def operation_fields_ok_def split: option.splits)
  obtain count required approvals where c: "value_integer d ''approval_count'' None = Some count"
    "value_integer d ''required_approvals'' None = Some required" "dget d ''approvals'' = JList approvals"
    "int (length approvals) = count" "approvals_ok [] approvals"
    and authorized: "\<not> string_is d ''state'' ''pending'' \<Longrightarrow> string_is d ''state'' ''authorized'' \<Longrightarrow> count = required"
    using assms(1) by (auto simp: status_operation_ok_def split: option.splits json.splits)
  have "\<not> string_is d ''state'' ''pending''" using assms(2) by (simp add: string_is_def)
  then have "count = required" using authorized assms(2) by blast
  moreover have "required = expected_approvals operation" using o(2) c(2) by (simp add: integer_is_def)
  ultimately have "int (length approvals) = expected_approvals operation" using c(4) by simp
  then have "length approvals = (if operation \<in> set routine_operations then 1 else 2)"
    by (auto simp: expected_approvals_def split: if_splits)
  then show ?thesis using approvals_distinct [OF c(5)] o(1) c(3) by (intro exI [of _ operation] exI [of _ approvals]) auto
qed

definition example_digest_text :: string where
  "example_digest_text = replicate 64 (CHR ''0'')"

definition example_approval :: "string \<Rightarrow> json" where
  "example_approval kind = JDict [(''approver_kind'', JStr kind),
     (''approver_identity_key'', JStr (kind @ '':'' @ example_digest_text)), (''approved_at'', JStr ''t'')]"

definition example_operation :: jdict where
  "example_operation = [(''operation_id'', JStr ''00000000-0000-4000-8000-000000000000''),
     (''operation_type'', JStr ''retire_envelope''), (''risk_level'', JStr ''destructive''),
     (''target_kind'', JStr ''envelope''), (''target_sha256'', JStr example_digest_text),
     (''parameters_sha256'', JStr example_digest_text), (''protected_input_ref_sha256'', JNull),
     (''state'', JStr ''authorized''), (''required_approvals'', JInt 2), (''approval_count'', JInt 2),
     (''created_at'', JStr ''t''), (''expires_at'', JStr ''t''), (''authorized_at'', JStr ''t''),
     (''requested_by_kind'', JStr ''static''),
     (''requested_by_identity_key'', JStr (''static:'' @ example_digest_text)),
     (''approvals'', JList [example_approval ''static'', example_approval ''oidc''])]"

theorem authorized_operation_approved_witness:
  "status_operation_ok example_operation \<and> (\<exists>approvals. dget example_operation ''approvals'' = JList approvals \<and>
     distinct (map approver_of approvals) \<and> length approvals = 2)"
proof -
  have ok: "status_operation_ok example_operation" "string_is example_operation ''state'' ''authorized''"
    by code_simp+
  have "value_string example_operation ''operation_type'' = Some ''retire_envelope''" by code_simp
  then show ?thesis using authorized_operation_approved [OF ok] ok(1) by (auto simp: routine_operations_def)
qed

section \<open>A lax check\<close>

definition mistyped_retirement :: jdict where
  "mistyped_retirement = [(''lifecycle_schema_id'', JStr ''hormuz.custody-lifecycle-event''),
     (''lifecycle_schema_version'', JInt 1), (''organization_id'', JStr ''org''),
     (''lifecycle_event_id'', JStr ''00000000-0000-4000-8000-000000000000''),
     (''execution_id'', JStr ''00000000-0000-4000-8000-000000000000''),
     (''operation_id'', JStr ''00000000-0000-4000-8000-000000000000''), (''occurred_at'', JStr ''t''),
     (''operation_type'', JStr ''retire_key_reference''), (''target_sha256'', JStr example_digest_text),
     (''parameters_sha256'', JStr example_digest_text), (''asset_type'', JStr ''envelope''),
     (''asset_id'', JStr ''a''), (''asset_generation'', JInt 1),
     (''asset_binding_fingerprint'', JStr example_digest_text),
     (''replacement_asset_type'', JStr ''key_reference''), (''replacement_asset_id'', JStr ''b''),
     (''replacement_asset_generation'', JInt 1),
     (''replacement_asset_binding_fingerprint'', JStr example_digest_text),
     (''recovery_execution_id'', JNull), (''recovery_resolution_code'', JNull), (''chain_version'', JInt 1),
     (''sequence'', JInt 1), (''previous_digest'', JNull), (''event_digest'', JStr example_digest_text)]"

text \<open>
  The lifecycle contract does not look at the type of the asset a key retirement retires: it accepts the
  retirement of an envelope as that of a key.
\<close>

lemma mistyped_retirement_accepted: "validate_custody_lifecycle_event mistyped_retirement"
  by code_simp

end
