(* ===== verification/Audit_Contracts.thy ===== *)
theory Audit_Contracts
  imports Evidence_Contracts Finance_Evidence
begin

text \<open>
  Validators of audit events, anchors, chain entries and checkpoints
  (\<^verbatim>\<open>src/hormuz/_contract_schemas/audit.py\<close>) and of the custody evidence export
  (\<^verbatim>\<open>custody_retention.py\<close>). The source identities of the association, Linear, finance account and
  finance collection modules enter as the parameter \<open>external\<close>: the identity the module gives for a
  schema and a record, or \<^const>\<open>None\<close> when it raises or the schema is not its own.
\<close>

section \<open>Audit events\<close>

definition v1_usage_fields :: "string list" where
  "v1_usage_fields = [''schema_version'', ''event_type'', ''id'', ''occurred_at'', ''actor_id'', ''actor_name'',
     ''team_id'', ''team_name'', ''client'', ''protocol'', ''requested_model'', ''resolved_alias'',
     ''upstream_model'', ''policy_action'', ''status'', ''input_tokens'', ''output_tokens'',
     ''cache_read_tokens'', ''cache_write_tokens'', ''reasoning_tokens'', ''cost_microusd'',
     ''provider_request_id'', ''redaction_count'', ''redaction_rules'']"

definition v1_security_fields :: "string list" where
  "v1_security_fields = [''schema_version'', ''event_type'', ''id'', ''occurred_at'', ''actor_id'',
     ''actor_name'', ''team_id'', ''team_name'', ''client'', ''protocol'', ''requested_model'', ''action'',
     ''detection_count'', ''rules'']"

definition v2_usage_fields :: "string list" where
  "v2_usage_fields = [''schema_id'', ''schema_version'', ''event_type'', ''id'', ''occurred_at'',
     ''organization_id'', ''actor_id'', ''actor_name'', ''team_id'', ''team_name'', ''identity_type'',
     ''authentication_source'', ''client'', ''protocol'', ''requested_model'', ''resolved_alias'',
     ''routed_model'', ''provider_reported_model'', ''policy_version'', ''policy_action'', ''status'',
     ''input_tokens'', ''output_tokens'', ''cache_read_tokens'', ''cache_write_tokens'',
     ''reasoning_tokens'', ''cost_microusd'', ''cost_basis'', ''allocation_basis'', ''coverage'',
     ''provider_request_id'', ''redaction_count'', ''redaction_rules'']"

definition v2_security_fields :: "string list" where
  "v2_security_fields = [''schema_id'', ''schema_version'', ''event_type'', ''id'', ''occurred_at'',
     ''organization_id'', ''actor_id'', ''actor_name'', ''team_id'', ''team_name'', ''identity_type'',
     ''authentication_source'', ''client'', ''protocol'', ''requested_model'', ''policy_version'',
     ''coverage'', ''action'', ''detection_count'', ''rules'']"

definition audit_header_ok :: "jdict \<Rightarrow> bool" where
  "audit_header_ok d = list_all (string_ok d) [''id'', ''occurred_at'', ''actor_id'', ''actor_name'',
     ''team_id'', ''team_name'', ''client'', ''protocol'', ''requested_model'']"

definition usage_common_ok :: "bool \<Rightarrow> jdict \<Rightarrow> bool" where
  "usage_common_ok v2 d =
     (audit_header_ok d \<and> nullable_string_ok d ''resolved_alias'' \<and>
      nullable_string_ok d (if v2 then ''routed_model'' else ''upstream_model'') \<and>
      string_among d ''policy_action'' policy_actions \<and> string_among d ''status'' request_statuses \<and>
      list_all (\<lambda>f. integer_ok d f (Some 0)) [''input_tokens'', ''output_tokens'', ''cache_read_tokens'',
        ''cache_write_tokens'', ''reasoning_tokens'', ''cost_microusd'', ''redaction_count''] \<and>
      nullable_string_ok d ''provider_request_id'' \<and> string_list_ok d ''redaction_rules'' \<and>
      (v2 \<longrightarrow> identity_values_ok d \<and> string_ok d ''policy_version'' \<and>
         nullable_string_ok d ''provider_reported_model'' \<and> cost_coverage_values_ok d))"

definition security_common_ok :: "bool \<Rightarrow> jdict \<Rightarrow> bool" where
  "security_common_ok v2 d =
     (audit_header_ok d \<and> string_among d ''action'' [''redacted'', ''denied''] \<and>
      integer_ok d ''detection_count'' (Some 0) \<and> string_list_ok d ''rules'' \<and>
      (v2 \<longrightarrow> identity_values_ok d \<and> string_ok d ''policy_version'' \<and>
         string_is d ''coverage'' ''gateway_captured_requests_only''))"

definition validate_audit_event :: "jdict \<Rightarrow> bool" where
  "validate_audit_event d =
     (if integer_is d ''schema_version'' 1 \<and> string_is d ''event_type'' ''usage''
      then exact_keys d v1_usage_fields \<and> usage_common_ok False d
      else if integer_is d ''schema_version'' 1 \<and> string_is d ''event_type'' ''security.secret''
      then exact_keys d v1_security_fields \<and> security_common_ok False d
      else integer_is d ''schema_version'' 2 \<and> dget d ''schema_id'' = JStr ''hormuz.audit-event'' \<and>
        (if string_is d ''event_type'' ''usage'' then exact_keys d v2_usage_fields \<and> usage_common_ok True d
         else string_is d ''event_type'' ''security.secret'' \<and>
           exact_keys d v2_security_fields \<and> security_common_ok True d))"

text \<open>Current evidence: an event of version 2.\<close>

definition current_audit_event :: "jdict \<Rightarrow> bool" where
  "current_audit_event d = (validate_audit_event d \<and> dget d ''schema_id'' = JStr ''hormuz.audit-event'' \<and>
     dget d ''schema_version'' = JInt 2)"

section \<open>The source union of version 2 entries\<close>

text \<open>
  The identity a source of the finite union has, after its record was validated. The chain itself
  (\<^verbatim>\<open>_normalized_v2_source_event\<close> of \<^verbatim>\<open>audit_chain.py\<close>) repeats these branches; the two differ in
  the check \<open>uuid_ok\<close> of the identity of a custody control event only.
\<close>

definition source_identity :: "(string \<Rightarrow> bool) \<Rightarrow> (string \<Rightarrow> string) \<Rightarrow> (string \<Rightarrow> jdict \<Rightarrow> string option)
    \<Rightarrow> string \<Rightarrow> int \<Rightarrow> string \<Rightarrow> jdict \<Rightarrow> string option" where
  "source_identity uuid_ok sha external schema version event_id ev =
     (let checked = (\<lambda>ok k. if ok then k else None);
          text = (\<lambda>f. value_string ev f)
      in if schema = ''hormuz.custody-control-event'' \<and> version = 1 then
           checked (validate_custody_control_event ev \<and> uuid_ok event_id) (Some event_id)
         else if schema = ''hormuz.custody-execution-attempt'' \<and> version = 2 then
           checked (validate_custody_execution_attempt ev) (text ''execution_id'')
         else if schema = ''hormuz.custody-execution-event'' \<and> version = 1 then
           checked (validate_custody_execution_event ev)
             (case (text ''execution_id'', value_integer ev ''sequence'' (Some 1)) of
                (Some i, Some n) \<Rightarrow> Some (i @ '':'' @ int_text n) | _ \<Rightarrow> None)
         else if schema = ''hormuz.custody-lifecycle-event'' \<and> version = 1 then
           checked (validate_custody_lifecycle_event ev) (text ''lifecycle_event_id'')
         else if schema = ''hormuz.custody-envelope-attestation'' \<and> version = 1 then
           checked (validate_custody_envelope_attestation ev)
             (case (text ''execution_id'', text ''attestation_kind'') of
                (Some i, Some k) \<Rightarrow> Some (i @ '':'' @ k) | _ \<Rightarrow> None)
         else if schema = ''hormuz.custody-deletion-event'' \<and> version = 1 then
           checked (validate_custody_deletion_event ev) (text ''deletion_event_id'')
         else if schema = ''hormuz.finance-attempt-evidence'' \<and> version = 1 then
           checked (is_ok (validate_finance_attempt_event sha ev)) (text ''evidence_event_id'')
         else if version = 1 then external schema ev else None)"

definition validate_v2_source :: "(string \<Rightarrow> string) \<Rightarrow> (string \<Rightarrow> jdict \<Rightarrow> string option) \<Rightarrow> jdict
    \<Rightarrow> string \<Rightarrow> string \<Rightarrow> int \<Rightarrow> string \<Rightarrow> bool" where
  "validate_v2_source sha external ev organization schema version event_id =
     (source_identity uuid_parses sha external schema version event_id ev = Some event_id \<and>
      dget ev ''organization_id'' = JStr organization)"

section \<open>Chain entries and checkpoints\<close>

definition position_fields_ok :: "jdict \<Rightarrow> bool" where
  "position_fields_ok d = (string_ok d ''organization_id'' \<and> integer_is d ''chain_version'' 1 \<and>
     integer_ok d ''chain_epoch'' (Some 1) \<and> integer_ok d ''sequence'' (Some 1))"

definition entry_fields_v1 :: "string list" where
  "entry_fields_v1 = [''schema_id'', ''schema_version'', ''organization_id'', ''chain_version'',
     ''chain_epoch'', ''sequence'', ''previous_digest'', ''event_digest'', ''event'']"

definition entry_fields_v2 :: "string list" where
  "entry_fields_v2 = [''schema_id'', ''schema_version'', ''organization_id'', ''chain_version'',
     ''chain_epoch'', ''sequence'', ''previous_digest'', ''event_digest'', ''source_schema_id'',
     ''source_schema_version'', ''source_event_id'', ''event'']"

definition validate_audit_chain_entry_v1 :: "jdict \<Rightarrow> bool" where
  "validate_audit_chain_entry_v1 d =
     (exact_keys d entry_fields_v1 \<and> string_is d ''schema_id'' ''hormuz.commit-audit-chain-entry'' \<and>
      integer_is d ''schema_version'' 1 \<and> position_fields_ok d \<and> digest_or_null_at d ''previous_digest'' \<and>
      digest_at d ''event_digest'' \<and>
      (case value_mapping d ''event'' of
         None \<Rightarrow> False
       | Some ev \<Rightarrow> current_audit_event ev \<and> dget ev ''organization_id'' = dget d ''organization_id''))"

definition validate_audit_chain_entry_v2 :: "(string \<Rightarrow> string) \<Rightarrow> (string \<Rightarrow> jdict \<Rightarrow> string option)
    \<Rightarrow> jdict \<Rightarrow> bool" where
  "validate_audit_chain_entry_v2 sha external d =
     (exact_keys d entry_fields_v2 \<and> string_is d ''schema_id'' ''hormuz.commit-audit-chain-entry'' \<and>
      integer_is d ''schema_version'' 2 \<and> position_fields_ok d \<and> digest_or_null_at d ''previous_digest'' \<and>
      digest_at d ''event_digest'' \<and>
      (case (value_mapping d ''event'', value_string d ''organization_id'', value_string d ''source_schema_id'',
             value_integer d ''source_schema_version'' (Some 1), value_string d ''source_event_id'') of
         (Some ev, Some organization, Some schema, Some version, Some event_id) \<Rightarrow>
           validate_v2_source sha external ev organization schema version event_id
       | _ \<Rightarrow> False))"

definition validate_audit_chain_entry :: "(string \<Rightarrow> string) \<Rightarrow> (string \<Rightarrow> jdict \<Rightarrow> string option)
    \<Rightarrow> jdict \<Rightarrow> bool" where
  "validate_audit_chain_entry sha external d =
     (if integer_is d ''schema_version'' 1 then validate_audit_chain_entry_v1 d
      else if integer_is d ''schema_version'' 2 then validate_audit_chain_entry_v2 sha external d
      else False)"

definition checkpoint_fields :: "string list" where
  "checkpoint_fields = [''schema_id'', ''schema_version'', ''checkpoint_id'', ''organization_id'',
     ''chain_version'', ''chain_epoch'', ''sequence'', ''head_digest'', ''created_at'']"

definition validate_audit_chain_checkpoint :: "jdict \<Rightarrow> bool" where
  "validate_audit_chain_checkpoint d =
     (exact_keys d checkpoint_fields \<and> string_is d ''schema_id'' ''hormuz.audit-chain-checkpoint'' \<and>
      integer_is d ''schema_version'' 1 \<and> string_ok d ''checkpoint_id'' \<and> position_fields_ok d \<and>
      digest_at d ''head_digest'' \<and> string_ok d ''created_at'')"

section \<open>Anchors and exports\<close>

text \<open>The loop over the entries of an anchor, from a sequence, a predecessor and the event ids seen.\<close>

fun anchor_entries_ok :: "string \<Rightarrow> nat \<Rightarrow> json \<Rightarrow> string list \<Rightarrow> json list \<Rightarrow> bool" where
  "anchor_entries_ok organization n previous seen [] = True"
| "anchor_entries_ok organization n previous seen (v # vs) = (case v of
      JDict d \<Rightarrow>
        exact_keys d [''schema_id'', ''schema_version'', ''sequence'', ''previous_digest'', ''event_digest'',
          ''event''] \<and>
        string_is d ''schema_id'' ''hormuz.audit-chain-entry'' \<and> integer_is d ''schema_version'' 1 \<and>
        integer_is d ''sequence'' (int n) \<and> dget d ''previous_digest'' = previous \<and>
        digest_at d ''event_digest'' \<and>
        (case value_mapping d ''event'' of
           None \<Rightarrow> False
         | Some ev \<Rightarrow> current_audit_event ev \<and> dget ev ''organization_id'' = JStr organization \<and>
             (case value_string ev ''id'' of
                None \<Rightarrow> False
              | Some i \<Rightarrow> i \<notin> set seen \<and>
                  anchor_entries_ok organization (Suc n) (dget d ''event_digest'') (i # seen) vs))
    | _ \<Rightarrow> False)"

definition validate_audit_anchor :: "jdict \<Rightarrow> bool" where
  "validate_audit_anchor d =
     (exact_keys d [''schema_id'', ''schema_version'', ''artifact_id'', ''organization_id'', ''created_at'',
        ''chain_algorithm'', ''event_count'', ''entries'', ''head_digest''] \<and>
      string_is d ''schema_id'' ''hormuz.audit-anchor'' \<and> integer_is d ''schema_version'' 1 \<and>
      string_ok d ''artifact_id'' \<and> string_ok d ''created_at'' \<and> string_is d ''chain_algorithm'' ''sha256'' \<and>
      digest_at d ''head_digest'' \<and>
      (case (value_string d ''organization_id'', value_integer d ''event_count'' (Some 1), dget d ''entries'') of
         (Some organization, Some n, JList entries) \<Rightarrow>
           int (length entries) = n \<and> anchor_entries_ok organization 1 JNull [] entries
       | _ \<Rightarrow> False))"

text \<open>The loop over the records of an export: increasing positions, no source identity twice.\<close>

fun export_records_ok :: "(string \<Rightarrow> string) \<Rightarrow> (string \<Rightarrow> jdict \<Rightarrow> string option) \<Rightarrow> string
    \<Rightarrow> int \<times> int \<Rightarrow> (string \<times> int \<times> string) list \<Rightarrow> json list \<Rightarrow> bool" where
  "export_records_ok sha external organization position seen [] = True"
| "export_records_ok sha external organization position seen (v # vs) = (case v of
      JDict r \<Rightarrow> exact_keys r [''entry'', ''retain_until'', ''legal_hold''] \<and>
        (case value_mapping r ''entry'' of
           None \<Rightarrow> False
         | Some e \<Rightarrow> validate_audit_chain_entry sha external e \<and> dget e ''schema_version'' = JInt 2 \<and>
             dget e ''organization_id'' = JStr organization \<and> string_ok r ''retain_until'' \<and>
             is_bool (dget r ''legal_hold'') \<and>
             (case (value_integer e ''chain_epoch'' (Some 1), value_integer e ''sequence'' (Some 1),
                    value_string e ''source_schema_id'', value_integer e ''source_schema_version'' (Some 1),
                    value_string e ''source_event_id'') of
                (Some ep, Some sq, Some i, Some n, Some x) \<Rightarrow>
                  (fst position < ep \<or> fst position = ep \<and> snd position < sq) \<and> (i, n, x) \<notin> set seen \<and>
                  export_records_ok sha external organization (ep, sq) ((i, n, x) # seen) vs
              | _ \<Rightarrow> False))
    | _ \<Rightarrow> False)"

definition validate_custody_evidence_export :: "(string \<Rightarrow> string) \<Rightarrow> (string \<Rightarrow> jdict \<Rightarrow> string option)
    \<Rightarrow> jdict \<Rightarrow> bool" where
  "validate_custody_evidence_export sha external d =
     (exact_keys d [''schema_id'', ''schema_version'', ''organization_id'', ''generated_at'', ''records''] \<and>
      string_is d ''schema_id'' ''hormuz.custody-evidence-export'' \<and> integer_is d ''schema_version'' 1 \<and>
      string_ok d ''generated_at'' \<and>
      (case (value_string d ''organization_id'', dget d ''records'') of
         (Some organization, JList records) \<Rightarrow>
           export_records_ok sha external organization (0, 0) [] records
       | _ \<Rightarrow> False))"

end
