(* ===== verification/Linked_Log.thy ===== *)
theory Linked_Log
  imports Py_Prelude
begin

text \<open>
  The interface of an append-only log whose records are linked by digests: a verifier that accepts a
  record at a position after a predecessor digest and gives its digest. Its one law says what a digest
  binds; the client's lemma is that the digest at the head then binds the complete log.
\<close>

locale linked_log =
  fixes link :: "nat \<Rightarrow> 'd option \<Rightarrow> 'e \<Rightarrow> 'd option"
    and collide :: "'e \<Rightarrow> 'e \<Rightarrow> bool"
    and same :: "'e \<Rightarrow> 'e \<Rightarrow> bool"
  assumes link_binds: "link n p e = Some d \<Longrightarrow> link n' p' e' = Some d \<Longrightarrow>
      collide e e' \<or> n = n' \<and> p = p' \<and> same e e'"
begin

fun run :: "nat \<Rightarrow> 'd option \<Rightarrow> 'e list \<Rightarrow> 'd option option" where
  "run n p [] = Some p"
| "run n p (e # es) = (case link n p e of None \<Rightarrow> None | Some d \<Rightarrow> run (Suc n) (Some d) es)"

lemma run_append:
  "run n p (es @ fs) = (case run n p es of None \<Rightarrow> None | Some q \<Rightarrow> run (n + length es) q fs)"
  by (induction es arbitrary: n p) (auto split: option.splits)

lemma run_snoc:
  "run n p (es @ [e]) = Some (Some d) \<longleftrightarrow>
     (\<exists>q. run n p es = Some q \<and> link (n + length es) q e = Some d)"
  by (simp add: run_append split: option.splits)

lemma run_snoc_Some: "run n p (es @ [e]) = Some x \<Longrightarrow> \<exists>d. x = Some d"
  by (simp add: run_append split: option.splits) metis

text \<open>Two logs that end in the same digest are the same log, or two of their records collide.\<close>

lemma run_unique:
  assumes "run n p es = Some (Some d)" and "run n p' es' = Some (Some d)"
    and "es \<noteq> []" and "es' \<noteq> []"
  shows "(\<exists>e \<in> set es. \<exists>e' \<in> set es'. collide e e') \<or> p = p' \<and> list_all2 same es es'"
  using assms
proof (induction es arbitrary: es' d rule: rev_induct)
  case (snoc e es)
  obtain f fs where f: "es' = fs @ [f]" using snoc.prems(4) by (metis rev_exhaust)
  obtain q where q: "run n p es = Some q" "link (n + length es) q e = Some d"
    using snoc.prems(1) run_snoc by blast
  obtain q' where q': "run n p' fs = Some q'" "link (n + length fs) q' f = Some d"
    using snoc.prems(2) run_snoc unfolding f by blast
  show ?case
  proof (cases "collide e f")
    case False
    then have b: "length es = length fs" "q = q'" "same e f"
      using link_binds [OF q(2) q'(2)] by auto
    show ?thesis
    proof (cases es rule: rev_cases)
      case Nil
      then show ?thesis using b q(1) q'(1) f by auto
    next
      case ys: (snoc ys y)
      obtain c where c: "q = Some c" using run_snoc_Some q(1) unfolding ys by blast
      have ne: "fs \<noteq> []" "es \<noteq> []" using b(1) ys by auto
      then show ?thesis
        using snoc.IH [OF q(1) [unfolded c] q'(1) [folded b(2), unfolded c]] b(3) f ne
        by (auto simp: list_all2_appendI)
    qed
  qed (auto simp: f)
qed simp

end

end
