(* ===== verification/Audit_Chain.thy ===== *)
theory Audit_Chain
  imports Audit_Contracts Linked_Log
begin

text \<open>
  The commit-time audit chain (\<^verbatim>\<open>src/hormuz/audit_chain.py\<close>): entries whose digest binds the complete
  source event, the position and the predecessor; their verification; and checkpoints. \<open>sha\<close> is the
  hexadecimal SHA-256 of a byte string.
\<close>

record chain_head =
  ch_organization :: string
  ch_version :: int
  ch_epoch :: int
  ch_sequence :: int
  ch_digest :: "string option"

record chain_source =
  cs_schema :: string
  cs_version :: int
  cs_event_id :: string

type_synonym externals = "string \<Rightarrow> jdict \<Rightarrow> string option"

section \<open>Checks\<close>

definition validate_chain_position :: "int \<Rightarrow> int \<Rightarrow> int \<Rightarrow> unit res" where
  "validate_chain_position version epoch sequence =
     (if version \<noteq> 1 \<or> epoch < 1 \<or> sequence < 0 then Inl ''audit_chain_position_invalid'' else Inr ())"

definition validate_digest :: "string option \<Rightarrow> bool \<Rightarrow> string \<Rightarrow> unit res" where
  "validate_digest v allow_none code = (case v of
      None \<Rightarrow> if allow_none then Inr () else Inl code
    | Some s \<Rightarrow> if is_hex64 s then Inr () else Inl code)"

definition validate_uuid :: "json \<Rightarrow> string \<Rightarrow> unit res" where
  "validate_uuid v code = (case v of JStr s \<Rightarrow> if uuid_text s then Inr () else Inl code | _ \<Rightarrow> Inl code)"

definition validate_entry :: "(string \<Rightarrow> string) \<Rightarrow> externals \<Rightarrow> jdict \<Rightarrow> unit res" where
  "validate_entry sha external e =
     (if validate_audit_chain_entry sha external e then Inr () else Inl ''audit_chain_entry_malformed'')"

definition validate_checkpoint :: "jdict \<Rightarrow> unit res" where
  "validate_checkpoint c =
     (if validate_audit_chain_checkpoint c
      then validate_uuid (dget c ''checkpoint_id'') ''audit_chain_checkpoint_malformed''
      else Inl ''audit_chain_checkpoint_malformed'')"

section \<open>Normalisation of events\<close>

text \<open>Writing an event canonically and reading it back: what is hashed is a JSON value of its own.\<close>

definition reread :: "jdict \<Rightarrow> jdict option" where
  "reread ev = (case canonical_json_text [] (JDict ev) of
      Inl _ \<Rightarrow> None
    | Inr t \<Rightarrow> (case loads t of Some (JDict parsed) \<Rightarrow> Some parsed | _ \<Rightarrow> None))"

definition organization_known :: "jdict \<Rightarrow> bool" where
  "organization_known ev = (case dget ev ''organization_id'' of JStr s \<Rightarrow> s \<noteq> [] | _ \<Rightarrow> False)"

definition normalized_v1_audit_event :: "jdict \<Rightarrow> jdict res" where
  "normalized_v1_audit_event ev = (case reread ev of
      None \<Rightarrow> Inl ''audit_chain_event_malformed''
    | Some parsed \<Rightarrow>
        if \<not> validate_audit_event parsed then Inl ''audit_chain_event_malformed''
        else if dget parsed ''schema_id'' \<noteq> JStr ''hormuz.audit-event'' \<or> dget parsed ''schema_version'' \<noteq> JInt 2
        then Inl ''audit_chain_event_schema_unsupported''
        else if organization_known parsed then Inr parsed else Inl ''audit_chain_event_malformed'')"

definition normalized_v2_source_event :: "(string \<Rightarrow> string) \<Rightarrow> externals \<Rightarrow> chain_source \<Rightarrow> jdict \<Rightarrow> jdict res" where
  "normalized_v2_source_event sha external source ev = (case reread ev of
      None \<Rightarrow> Inl ''audit_chain_event_malformed''
    | Some parsed \<Rightarrow>
        if source_identity uuid_text sha external (cs_schema source) (cs_version source)
             (cs_event_id source) parsed = Some (cs_event_id source) \<and> organization_known parsed
        then Inr parsed else Inl ''audit_chain_event_malformed'')"

section \<open>Digests\<close>

definition position_members :: "string \<Rightarrow> int \<Rightarrow> int \<Rightarrow> int \<Rightarrow> string option \<Rightarrow> jdict" where
  "position_members organization version epoch sequence previous =
     [(''organization_id'', JStr organization), (''chain_version'', JInt version), (''chain_epoch'', JInt epoch),
      (''sequence'', JInt sequence), (''previous_digest'', opt_str previous)]"

definition hashed_v1 :: "string \<Rightarrow> int \<Rightarrow> int \<Rightarrow> int \<Rightarrow> string option \<Rightarrow> jdict \<Rightarrow> json" where
  "hashed_v1 organization version epoch sequence previous ev = JDict (
     (''domain'', JStr ''hormuz.commit-audit-chain-entry.v1'') #
     position_members organization version epoch sequence previous @ [(''event'', JDict ev)])"

definition source_members :: "chain_source \<Rightarrow> jdict" where
  "source_members source = [(''source_schema_id'', JStr (cs_schema source)),
     (''source_schema_version'', JInt (cs_version source)), (''source_event_id'', JStr (cs_event_id source))]"

definition hashed_v2 :: "string \<Rightarrow> int \<Rightarrow> int \<Rightarrow> int \<Rightarrow> string option \<Rightarrow> chain_source \<Rightarrow> jdict \<Rightarrow> json" where
  "hashed_v2 organization version epoch sequence previous source ev = JDict (
     (''domain'', JStr ''hormuz.commit-audit-chain-entry.v2'') #
     position_members organization version epoch sequence previous @ source_members source @
     [(''event'', JDict ev)])"

definition digest_of :: "(string \<Rightarrow> string) \<Rightarrow> json \<Rightarrow> string res" where
  "digest_of sha v = rbind (canonical_json_bytes ''audit_chain_malformed'' v) (\<lambda>b. Inr (sha b))"

definition entry_digest_v1 :: "(string \<Rightarrow> string) \<Rightarrow> string \<Rightarrow> int \<Rightarrow> int \<Rightarrow> int \<Rightarrow> string option \<Rightarrow> jdict
    \<Rightarrow> string res" where
  "entry_digest_v1 sha organization version epoch sequence previous ev =
     digest_of sha (hashed_v1 organization version epoch sequence previous ev)"

definition entry_digest_v2 :: "(string \<Rightarrow> string) \<Rightarrow> string \<Rightarrow> int \<Rightarrow> int \<Rightarrow> int \<Rightarrow> string option
    \<Rightarrow> chain_source \<Rightarrow> jdict \<Rightarrow> string res" where
  "entry_digest_v2 sha organization version epoch sequence previous source ev =
     digest_of sha (hashed_v2 organization version epoch sequence previous source ev)"

section \<open>Building an entry\<close>

definition organization_of :: "jdict \<Rightarrow> string" where
  "organization_of ev = (case dget ev ''organization_id'' of JStr s \<Rightarrow> s | _ \<Rightarrow> [])"

definition entry_v1 :: "int \<Rightarrow> int \<Rightarrow> int \<Rightarrow> string option \<Rightarrow> string \<Rightarrow> jdict \<Rightarrow> jdict" where
  "entry_v1 version epoch sequence previous digest ev =
     [(''schema_id'', JStr ''hormuz.commit-audit-chain-entry''), (''schema_version'', JInt 1)] @
     position_members (organization_of ev) version epoch sequence previous @
     [(''event_digest'', JStr digest), (''event'', JDict ev)]"

definition entry_v2 :: "int \<Rightarrow> int \<Rightarrow> int \<Rightarrow> string option \<Rightarrow> string \<Rightarrow> chain_source \<Rightarrow> jdict \<Rightarrow> jdict" where
  "entry_v2 version epoch sequence previous digest source ev =
     [(''schema_id'', JStr ''hormuz.commit-audit-chain-entry''), (''schema_version'', JInt 2)] @
     position_members (organization_of ev) version epoch sequence previous @
     [(''event_digest'', JStr digest)] @ source_members source @ [(''event'', JDict ev)]"

definition build_audit_chain_entry :: "(string \<Rightarrow> string) \<Rightarrow> externals \<Rightarrow> jdict \<Rightarrow> int \<Rightarrow> int \<Rightarrow> int
    \<Rightarrow> string option \<Rightarrow> int \<Rightarrow> chain_source option \<Rightarrow> jdict res" where
  "build_audit_chain_entry sha external ev version epoch sequence previous schema_version source =
     rbind (validate_chain_position version epoch sequence) (\<lambda>_.
     rbind (validate_digest previous True ''audit_chain_predecessor_invalid'') (\<lambda>_.
     rbind (if schema_version = 1 then (case source of
              Some _ \<Rightarrow> Inl ''audit_chain_source_schema_unsupported''
            | None \<Rightarrow> rbind (normalized_v1_audit_event ev) (\<lambda>n.
                rbind (entry_digest_v1 sha (organization_of n) version epoch sequence previous n) (\<lambda>digest.
                  Inr (entry_v1 version epoch sequence previous digest n))))
          else if schema_version = 2 then (case source of
              None \<Rightarrow> Inl ''audit_chain_source_schema_unsupported''
            | Some s \<Rightarrow> rbind (normalized_v2_source_event sha external s ev) (\<lambda>n.
                rbind (entry_digest_v2 sha (organization_of n) version epoch sequence previous s n) (\<lambda>digest.
                  Inr (entry_v2 version epoch sequence previous digest s n))))
          else Inl ''audit_chain_entry_schema_unsupported'') (\<lambda>e.
     rbind (validate_entry sha external e) (\<lambda>_. Inr e))))"

definition build_custody_audit_chain_entry :: "(string \<Rightarrow> string) \<Rightarrow> externals \<Rightarrow> jdict \<Rightarrow> string \<Rightarrow> int
    \<Rightarrow> string \<Rightarrow> int \<Rightarrow> int \<Rightarrow> int \<Rightarrow> string option \<Rightarrow> jdict res" where
  "build_custody_audit_chain_entry sha external ev schema schema_version event_id version epoch sequence previous =
     build_audit_chain_entry sha external ev version epoch sequence previous 2
       (Some \<lparr>cs_schema = schema, cs_version = schema_version, cs_event_id = event_id\<rparr>)"

section \<open>Verifying an entry\<close>

definition audit_chain_entry_source :: "(string \<Rightarrow> string) \<Rightarrow> externals \<Rightarrow> jdict \<Rightarrow> chain_source res" where
  "audit_chain_entry_source sha external e =
     rbind (validate_entry sha external e) (\<lambda>_.
       if dget e ''schema_version'' \<noteq> JInt 2 then Inl ''audit_chain_entry_schema_unsupported''
       else (case (dget e ''source_schema_id'', dget e ''source_schema_version'', dget e ''source_event_id'') of
          (JStr i, JInt n, JStr x) \<Rightarrow> Inr \<lparr>cs_schema = i, cs_version = n, cs_event_id = x\<rparr>
        | _ \<Rightarrow> Inl ''audit_chain_source_schema_unsupported''))"

text \<open>The comparison of the entry's event with the event the store still holds.\<close>

definition match_source :: "jdict \<Rightarrow> jdict res \<Rightarrow> unit res" where
  "match_source n source = rbind source (\<lambda>s.
     rbind (canonical_json_bytes ''audit_chain_malformed'' (JDict s)) (\<lambda>a.
     rbind (canonical_json_bytes ''audit_chain_malformed'' (JDict n)) (\<lambda>b.
       if a = b then Inr () else Inl ''audit_chain_source_event_mismatch'')))"

definition check_tenant :: "string \<Rightarrow> jdict \<Rightarrow> unit res" where
  "check_tenant organization n = (if dget n ''organization_id'' = JStr organization then Inr ()
     else Inl ''audit_chain_tenant_mismatch'')"

definition event_of :: "jdict \<Rightarrow> jdict" where
  "event_of e = (case dget e ''event'' of JDict ev \<Rightarrow> ev | _ \<Rightarrow> [])"

definition stored_source :: "(jdict \<Rightarrow> jdict res) \<Rightarrow> jdict option \<Rightarrow> jdict res" where
  "stored_source norm_event source_event = (case source_event of
      None \<Rightarrow> Inl ''audit_chain_source_event_missing'' | Some ev \<Rightarrow> norm_event ev)"

definition actual_digest :: "(string \<Rightarrow> string) \<Rightarrow> externals \<Rightarrow> jdict \<Rightarrow> string \<Rightarrow> int \<Rightarrow> int \<Rightarrow> int
    \<Rightarrow> string option \<Rightarrow> jdict option \<Rightarrow> string res" where
  "actual_digest sha external e organization version epoch sequence previous source_event =
     (if dget e ''schema_version'' = JInt 1 then
        rbind (normalized_v1_audit_event (event_of e)) (\<lambda>n.
        rbind (check_tenant organization n) (\<lambda>_.
        rbind (match_source n (stored_source normalized_v1_audit_event source_event)) (\<lambda>_.
          entry_digest_v1 sha organization version epoch sequence previous n)))
      else if dget e ''schema_version'' = JInt 2 then
        rbind (audit_chain_entry_source sha external e) (\<lambda>s.
        rbind (normalized_v2_source_event sha external s (event_of e)) (\<lambda>n.
        rbind (check_tenant organization n) (\<lambda>_.
        rbind (match_source n (stored_source (normalized_v2_source_event sha external s) source_event)) (\<lambda>_.
          entry_digest_v2 sha organization version epoch sequence previous s n))))
      else Inl ''audit_chain_entry_schema_unsupported'')"

definition verify_audit_chain_entry :: "(string \<Rightarrow> string) \<Rightarrow> externals \<Rightarrow> jdict \<Rightarrow> string \<Rightarrow> int \<Rightarrow> int \<Rightarrow> int
    \<Rightarrow> string option \<Rightarrow> jdict option \<Rightarrow> string res" where
  "verify_audit_chain_entry sha external e organization version epoch sequence previous source_event =
     rbind (validate_entry sha external e) (\<lambda>_.
     if dget e ''organization_id'' \<noteq> JStr organization \<or> dget e ''chain_version'' \<noteq> JInt version
        \<or> dget e ''chain_epoch'' \<noteq> JInt epoch \<or> dget e ''sequence'' \<noteq> JInt sequence
     then Inl ''audit_chain_sequence_invalid''
     else if dget e ''previous_digest'' \<noteq> opt_str previous then Inl ''audit_chain_predecessor_invalid''
     else rbind (actual_digest sha external e organization version epoch sequence previous source_event)
       (\<lambda>actual. if dget e ''event_digest'' = JStr actual then Inr actual
                 else Inl ''audit_chain_digest_invalid''))"

section \<open>Checkpoints\<close>

definition build_audit_chain_checkpoint :: "chain_head \<Rightarrow> string \<Rightarrow> string \<Rightarrow> jdict res" where
  "build_audit_chain_checkpoint h created_at checkpoint_id =
     rbind (validate_chain_position (ch_version h) (ch_epoch h) (ch_sequence h)) (\<lambda>_.
     if ch_sequence h < 1 \<or> ch_digest h = None then Inl ''audit_chain_checkpoint_empty''
     else rbind (validate_digest (ch_digest h) False ''audit_chain_digest_invalid'') (\<lambda>_.
     rbind (validate_uuid (JStr checkpoint_id) ''audit_chain_checkpoint_malformed'') (\<lambda>_.
     let c = [(''schema_id'', JStr ''hormuz.audit-chain-checkpoint''), (''schema_version'', JInt 1),
        (''checkpoint_id'', JStr checkpoint_id), (''organization_id'', JStr (ch_organization h)),
        (''chain_version'', JInt (ch_version h)), (''chain_epoch'', JInt (ch_epoch h)),
        (''sequence'', JInt (ch_sequence h)), (''head_digest'', opt_str (ch_digest h)),
        (''created_at'', JStr created_at)]
     in rbind (validate_checkpoint c) (\<lambda>_. Inr c))))"

definition serialize_audit_chain_checkpoint :: "jdict \<Rightarrow> string res" where
  "serialize_audit_chain_checkpoint c = rbind (validate_checkpoint c) (\<lambda>_.
     canonical_json_bytes ''audit_chain_checkpoint_malformed'' (JDict c))"

definition max_checkpoint_bytes :: nat where
  "max_checkpoint_bytes = 64 * 1024"

definition parse_audit_chain_checkpoint :: "string \<Rightarrow> jdict res" where
  "parse_audit_chain_checkpoint raw =
     (if raw = [] \<or> max_checkpoint_bytes < length raw then Inl ''audit_chain_checkpoint_malformed''
      else (case Option.bind (utf8_decode raw) loads of
          Some (JDict parsed) \<Rightarrow>
            rbind (validate_checkpoint parsed) (\<lambda>_.
            rbind (serialize_audit_chain_checkpoint parsed) (\<lambda>canonical.
              if raw = canonical then Inr parsed else Inl ''audit_chain_checkpoint_noncanonical''))
        | _ \<Rightarrow> Inl ''audit_chain_checkpoint_malformed''))"

record chain_position =
  cp_id :: string
  cp_organization :: string
  cp_version :: int
  cp_epoch :: int
  cp_sequence :: int
  cp_digest :: string

definition audit_chain_checkpoint_position :: "jdict \<Rightarrow> chain_position res" where
  "audit_chain_checkpoint_position c = rbind (validate_checkpoint c) (\<lambda>_.
     case (value_string c ''checkpoint_id'', value_string c ''organization_id'', value_integer c ''chain_version'' None,
           value_integer c ''chain_epoch'' None, value_integer c ''sequence'' None, value_string c ''head_digest'') of
       (Some i, Some organization, Some v, Some ep, Some sq, Some d) \<Rightarrow>
         Inr \<lparr>cp_id = i, cp_organization = organization, cp_version = v, cp_epoch = ep, cp_sequence = sq,
              cp_digest = d\<rparr>
     | _ \<Rightarrow> Inl ''AssertionError'')"

section \<open>Lemmas\<close>

lemma dget_Cons [simp]: "dget ((k, v) # d) f = (if f = k then v else dget d f)"
  by (simp add: dget_def)

lemma dget_Nil [simp]: "dget [] f = JNull"
  by (simp add: dget_def)

lemma canon_dict: "\<exists>d'. canon (JDict d) = JDict d'"
  by simp

lemma canon_dget:
  assumes "canon (JDict d) = JDict d'" and "distinct (keys d)"
  shows "dget d' f = canon (dget d f)"
proof -
  have "d' = sort_key fst (map (\<lambda>(k, v). (k, canon v)) d)" using assms(1) by simp
  then have "map_of d' f = map_option canon (map_of d f)"
    using map_of_sort_key [of "map (\<lambda>(k, v). (k, canon v)) d"] assms(2) map_of_map_snd [of canon d f]
    by simp
  then show ?thesis by (simp add: dget_def split: option.splits)
qed

lemma plain_dictD: "plain (JDict d) \<Longrightarrow> distinct (keys d)"
  by simp

text \<open>A plain event is read back as its canonical form, which is read back as itself.\<close>

lemma reread_plain:
  assumes "plain (JDict ev)"
  obtains n where "reread ev = Some n" "canon (JDict ev) = JDict n" "plain (JDict n)" "reread n = Some n"
    "canon (JDict n) = JDict n"
proof -
  obtain n where n: "canon (JDict ev) = JDict n" using canon_dict by blast
  have p: "plain (JDict n)" using plain_canon [OF assms] unfolding n .
  have idem: "canon (JDict n) = JDict n" using canon_canon [OF assms] unfolding n .
  have "reread ev = Some n"
    using loads_dump [OF plain_canon [OF assms], of False] plain_finite [OF assms] n
    by (simp only: reread_def canonical_json_text_def if_True sum.case option.case json.case)
  moreover have "reread n = Some n"
    using loads_dump [OF p, of False] plain_finite [OF p] idem
    by (simp only: reread_def canonical_json_text_def if_True sum.case option.case json.case)
  ultimately show ?thesis using that n p idem by blast
qed

lemma normalized_v1_shape:
  assumes "normalized_v1_audit_event ev = Inr n"
  shows "reread ev = Some n" "current_audit_event n" "\<exists>org. dget n ''organization_id'' = JStr org \<and> org \<noteq> []"
  using assms
  by (auto simp: normalized_v1_audit_event_def current_audit_event_def organization_known_def
      split: option.splits if_splits json.splits)

lemma normalized_v1_again:
  assumes "normalized_v1_audit_event ev = Inr n" and "reread n = Some n"
  shows "normalized_v1_audit_event n = Inr n"
  using assms by (auto simp: normalized_v1_audit_event_def split: option.splits if_splits)

lemma normalized_v2_shape:
  assumes "normalized_v2_source_event sha external s ev = Inr n"
  shows "reread ev = Some n"
    "source_identity uuid_text sha external (cs_schema s) (cs_version s) (cs_event_id s) n = Some (cs_event_id s)"
    "\<exists>org. dget n ''organization_id'' = JStr org \<and> org \<noteq> []"
  using assms
  by (auto simp: normalized_v2_source_event_def organization_known_def
      split: option.splits if_splits json.splits)

lemma normalized_v2_again:
  assumes "normalized_v2_source_event sha external s ev = Inr n" and "reread n = Some n"
  shows "normalized_v2_source_event sha external s n = Inr n"
  using assms by (auto simp: normalized_v2_source_event_def split: option.splits if_splits)

lemma match_self:
  assumes "plain (JDict n)" shows "match_source n (Inr n) = Inr ()"
  using plain_finite [OF assms]
  by (simp add: match_source_def canonical_json_bytes_def canonical_json_text_def del: finite_tree.simps canon.simps)

lemma opt_str_eq [simp]: "opt_str a = opt_str b \<longleftrightarrow> a = b"
  by (auto simp: opt_str_def split: option.splits)

lemma entry_v1_members:
  "dget (entry_v1 v ep sq prev d n) ''schema_version'' = JInt 1"
  "dget (entry_v1 v ep sq prev d n) ''organization_id'' = JStr (organization_of n)"
  "dget (entry_v1 v ep sq prev d n) ''chain_version'' = JInt v"
  "dget (entry_v1 v ep sq prev d n) ''chain_epoch'' = JInt ep"
  "dget (entry_v1 v ep sq prev d n) ''sequence'' = JInt sq"
  "dget (entry_v1 v ep sq prev d n) ''previous_digest'' = opt_str prev"
  "dget (entry_v1 v ep sq prev d n) ''event_digest'' = JStr d"
  "event_of (entry_v1 v ep sq prev d n) = n"
  by (simp_all add: entry_v1_def position_members_def event_of_def)

lemma entry_v2_members:
  "dget (entry_v2 v ep sq prev d s n) ''schema_version'' = JInt 2"
  "dget (entry_v2 v ep sq prev d s n) ''organization_id'' = JStr (organization_of n)"
  "dget (entry_v2 v ep sq prev d s n) ''chain_version'' = JInt v"
  "dget (entry_v2 v ep sq prev d s n) ''chain_epoch'' = JInt ep"
  "dget (entry_v2 v ep sq prev d s n) ''sequence'' = JInt sq"
  "dget (entry_v2 v ep sq prev d s n) ''previous_digest'' = opt_str prev"
  "dget (entry_v2 v ep sq prev d s n) ''event_digest'' = JStr d"
  "dget (entry_v2 v ep sq prev d s n) ''source_schema_id'' = JStr (cs_schema s)"
  "dget (entry_v2 v ep sq prev d s n) ''source_schema_version'' = JInt (cs_version s)"
  "dget (entry_v2 v ep sq prev d s n) ''source_event_id'' = JStr (cs_event_id s)"
  "event_of (entry_v2 v ep sq prev d s n) = n"
  by (simp_all add: entry_v2_def position_members_def source_members_def event_of_def)

lemma organization_of_eq: "dget n ''organization_id'' = JStr org \<Longrightarrow> organization_of n = org"
  by (simp add: organization_of_def)

text \<open>An entry verifies, at the position it was built for, against the event it was built from.\<close>

lemma build_verifies:
  assumes b: "build_audit_chain_entry sha external ev version epoch sequence previous schema source = Inr e"
    and p: "plain (JDict ev)"
  shows "\<exists>org d. dget e ''organization_id'' = JStr org \<and> dget e ''event_digest'' = JStr d \<and> is_hex64 d \<and>
     dget e ''sequence'' = JInt sequence \<and> 1 \<le> sequence \<and> version = 1 \<and> 1 \<le> epoch \<and>
     verify_audit_chain_entry sha external e org version epoch sequence previous (Some ev) = Inr d"
proof -
  have pos: "version = 1" "1 \<le> epoch"
    using b by (auto simp: build_audit_chain_entry_def validate_chain_position_def split: if_splits)
  have valid: "validate_entry sha external e = Inr ()"
    using b by (auto simp: build_audit_chain_entry_def)
  then have "position_fields_ok e" "digest_at e ''event_digest''"
    by (auto simp: validate_entry_def validate_audit_chain_entry_def validate_audit_chain_entry_v1_def
        validate_audit_chain_entry_v2_def split: if_splits)
  then obtain d sq where hex: "dget e ''event_digest'' = JStr d" "is_hex64 d" "dget e ''sequence'' = JInt sq" "1 \<le> sq"
    using digest_atD integer_okD unfolding position_fields_ok_def by metis
  obtain n where n: "reread ev = Some n" "plain (JDict n)" "reread n = Some n" "canon (JDict n) = JDict n"
    using reread_plain [OF p] by metis
  show ?thesis
  proof (cases "schema = 1")
    case True
    have "source = None \<and> rbind (normalized_v1_audit_event ev) (\<lambda>n.
        rbind (entry_digest_v1 sha (organization_of n) version epoch sequence previous n) (\<lambda>digest.
          Inr (entry_v1 version epoch sequence previous digest n))) = Inr e"
      using b True by (cases source) (auto simp: build_audit_chain_entry_def)
    then obtain m d' where m: "normalized_v1_audit_event ev = Inr m" "source = None"
      "entry_digest_v1 sha (organization_of m) version epoch sequence previous m = Inr d'"
      "e = entry_v1 version epoch sequence previous d' m" by auto
    have "m = n" using normalized_v1_shape(1) [OF m(1)] n(1) by simp
    note v1 = m [unfolded this]
    note again = normalized_v1_again [OF v1(1) n(3)]
    obtain org where org: "dget n ''organization_id'' = JStr org" using normalized_v1_shape(3) [OF v1(1)] by blast
    have "actual_digest sha external e org version epoch sequence previous (Some ev) = Inr d'"
      using again v1 org by (simp add: actual_digest_def entry_v1_members stored_source_def check_tenant_def
          match_self [OF n(2)] organization_of_eq)
    then show ?thesis
      using hex pos valid v1(4) organization_of_eq [OF org]
      by (auto simp: verify_audit_chain_entry_def entry_v1_members)
  next
    case False
    have "\<exists>s. source = Some s \<and> rbind (normalized_v2_source_event sha external s ev) (\<lambda>n.
        rbind (entry_digest_v2 sha (organization_of n) version epoch sequence previous s n) (\<lambda>digest.
          Inr (entry_v2 version epoch sequence previous digest s n))) = Inr e"
      using b False by (cases source) (auto simp: build_audit_chain_entry_def split: if_splits)
    then obtain s m d' where m: "normalized_v2_source_event sha external s ev = Inr m" "source = Some s"
      "entry_digest_v2 sha (organization_of m) version epoch sequence previous s m = Inr d'"
      "e = entry_v2 version epoch sequence previous d' s m" by auto
    have "m = n" using normalized_v2_shape(1) [OF m(1)] n(1) by simp
    note v2 = m [unfolded this]
    note again = normalized_v2_again [OF v2(1) n(3)]
    obtain org where org: "dget n ''organization_id'' = JStr org" using normalized_v2_shape(3) [OF v2(1)] by blast
    have "audit_chain_entry_source sha external e = Inr s"
      using valid v2(4) by (simp add: audit_chain_entry_source_def entry_v2_members)
    then have "actual_digest sha external e org version epoch sequence previous (Some ev) = Inr d'"
      using again v2 org by (simp add: actual_digest_def entry_v2_members stored_source_def check_tenant_def
          match_self [OF n(2)] organization_of_eq)
    then show ?thesis
      using hex pos valid v2(4) organization_of_eq [OF org]
      by (auto simp: verify_audit_chain_entry_def entry_v2_members)
  qed
qed


section \<open>What a digest binds\<close>

definition position_names :: "string list" where
  "position_names = [''organization_id'', ''chain_version'', ''chain_epoch'', ''sequence'', ''previous_digest'']"

definition source_names :: "string list" where
  "source_names = [''source_schema_id'', ''source_schema_version'', ''source_event_id'']"

text \<open>The value an entry's digest is taken of, from the members of the entry, and its bytes.\<close>

definition entry_hashed :: "jdict \<Rightarrow> json" where
  "entry_hashed e = (let v1 = (dget e ''schema_version'' = JInt 1) in JDict (
     (''domain'', JStr (if v1 then ''hormuz.commit-audit-chain-entry.v1'' else ''hormuz.commit-audit-chain-entry.v2'')) #
     map (\<lambda>f. (f, dget e f)) (position_names @ (if v1 then [] else source_names) @ [''event''])))"

definition entry_bytes :: "jdict \<Rightarrow> string" where
  "entry_bytes e = utf8_encode (dump False (canon (entry_hashed e)))"

text \<open>Two entries are the same record: all members agree, the event up to the order of its members.\<close>

definition same_entry :: "jdict \<Rightarrow> jdict \<Rightarrow> bool" where
  "same_entry e e' \<longleftrightarrow> list_all (\<lambda>f. dget e f = dget e' f) (''schema_version'' # position_names @ source_names) \<and>
     same_json (JDict (event_of e)) (JDict (event_of e'))"

lemma verifyD:
  assumes "verify_audit_chain_entry sha external e org version epoch sequence previous source_event = Inr d"
  shows "validate_audit_chain_entry sha external e" "dget e ''organization_id'' = JStr org"
    "dget e ''chain_version'' = JInt version" "dget e ''chain_epoch'' = JInt epoch"
    "dget e ''sequence'' = JInt sequence" "dget e ''previous_digest'' = opt_str previous"
    "dget e ''event_digest'' = JStr d"
    "actual_digest sha external e org version epoch sequence previous source_event = Inr d"
  using assms by (auto simp: verify_audit_chain_entry_def validate_entry_def split: if_splits)

lemma valid_entry_event:
  assumes "validate_audit_chain_entry sha external e"
  shows "dget e ''event'' = JDict (event_of e)" "dget e ''schema_version'' = JInt 1 \<or> dget e ''schema_version'' = JInt 2"
    "dget e ''schema_version'' = JInt 1 \<Longrightarrow> f \<in> set source_names \<Longrightarrow> dget e f = JNull"
proof -
  have keys: "dget e f = JNull" if "f \<notin> set (keys e)" for f
    using map_of_NoneI [OF that] by (simp add: dget_def)
  show "dget e ''event'' = JDict (event_of e)"
    using assms by (auto simp: validate_audit_chain_entry_def validate_audit_chain_entry_v1_def
        validate_audit_chain_entry_v2_def value_mapping_def event_of_def split: if_splits option.splits json.splits)
  show "dget e ''schema_version'' = JInt 1 \<or> dget e ''schema_version'' = JInt 2"
    using assms by (auto simp: validate_audit_chain_entry_def dest: integer_isD split: if_splits)
  show "dget e f = JNull" if "dget e ''schema_version'' = JInt 1" "f \<in> set source_names"
  proof -
    have "exact_keys e entry_fields_v1"
      using assms that(1) by (auto simp: validate_audit_chain_entry_def validate_audit_chain_entry_v1_def
          dest: integer_isD split: if_splits)
    then show ?thesis
      using that(2) by (intro keys) (auto simp: exact_keys_def entry_fields_v1_def source_names_def)
  qed
qed

lemma canon_last: "canon a = canon b \<Longrightarrow> canon (JDict (d @ [(k, a)])) = canon (JDict (d @ [(k, b)]))"
  by simp

lemma digest_ofD: "digest_of sha v = Inr d \<Longrightarrow> finite_tree v \<and> d = sha (utf8_encode (dump False (canon v)))"
  by (auto simp: digest_of_def canonical_json_bytes_def canonical_json_text_def split: if_splits)

lemma audit_chain_entry_sourceD:
  "audit_chain_entry_source sha external e = Inr s \<Longrightarrow> dget e ''source_schema_id'' = JStr (cs_schema s) \<and>
     dget e ''source_schema_version'' = JInt (cs_version s) \<and> dget e ''source_event_id'' = JStr (cs_event_id s)"
  by (auto simp: audit_chain_entry_source_def split: if_splits json.splits)

lemma reread_canon:
  assumes "reread ev = Some n" and "plain (JDict ev)"
  shows "canon (JDict n) = canon (JDict ev)" "plain (JDict n)"
  using reread_plain [OF assms(2)] assms(1) by (metis option.inject)+

lemma plain_members: "plain (JDict d) \<longleftrightarrow> distinct (keys d) \<and> list_all (\<lambda>(k, v). plain v) d"
  by simp

lemma opt_str_plain [simp]: "plain (opt_str x)"
  by (cases x) (simp_all add: opt_str_def)

lemma verified_bytes:
  assumes v: "verify_audit_chain_entry sha external e org version epoch sequence previous source_event = Inr d"
    and p: "plain (JDict (event_of e))"
  shows "d = sha (entry_bytes e)" "plain (entry_hashed e)"
proof -
  note m = verifyD [OF v] and ev = valid_entry_event [OF verifyD(1) [OF v]]
  have both: "d = sha (entry_bytes e) \<and> plain (entry_hashed e)"
  proof (cases "dget e ''schema_version'' = JInt 1")
    case True
    obtain n where n: "normalized_v1_audit_event (event_of e) = Inr n"
      "entry_digest_v1 sha org version epoch sequence previous n = Inr d"
      using m(8) True by (auto simp: actual_digest_def)
    note c = reread_canon [OF normalized_v1_shape(1) [OF n(1)] p]
    have h: "entry_hashed e = JDict (((''domain'', JStr ''hormuz.commit-audit-chain-entry.v1'') #
        position_members org version epoch sequence previous) @ [(''event'', JDict (event_of e))])"
      using True m ev(1) by (simp add: entry_hashed_def position_names_def position_members_def Let_def)
    have h': "hashed_v1 org version epoch sequence previous n =
        JDict (((''domain'', JStr ''hormuz.commit-audit-chain-entry.v1'') #
          position_members org version epoch sequence previous) @ [(''event'', JDict n)])"
      by (simp add: hashed_v1_def)
    note d = digest_ofD [OF n(2) [unfolded entry_digest_v1_def]]
    have "d = sha (entry_bytes e)"
      using d unfolding h' entry_bytes_def h canon_last [OF c(1)] by simp
    moreover have "plain (entry_hashed e)"
      using d p unfolding h h' by (simp add: position_members_def)
    ultimately show ?thesis by simp
  next
    case False
    then have two: "dget e ''schema_version'' = JInt 2" using ev(2) by simp
    obtain s n where n: "audit_chain_entry_source sha external e = Inr s"
      "normalized_v2_source_event sha external s (event_of e) = Inr n"
      "entry_digest_v2 sha org version epoch sequence previous s n = Inr d"
      using m(8) two by (auto simp: actual_digest_def)
    note c = reread_canon [OF normalized_v2_shape(1) [OF n(2)] p]
    have h: "entry_hashed e = JDict (((''domain'', JStr ''hormuz.commit-audit-chain-entry.v2'') #
        position_members org version epoch sequence previous @ source_members s) @ [(''event'', JDict (event_of e))])"
      using two m ev(1) audit_chain_entry_sourceD [OF n(1)]
      by (simp add: entry_hashed_def position_names_def source_names_def position_members_def source_members_def Let_def)
    have h': "hashed_v2 org version epoch sequence previous s n =
        JDict (((''domain'', JStr ''hormuz.commit-audit-chain-entry.v2'') #
          position_members org version epoch sequence previous @ source_members s) @ [(''event'', JDict n)])"
      by (simp add: hashed_v2_def)
    note d = digest_ofD [OF n(3) [unfolded entry_digest_v2_def]]
    have "d = sha (entry_bytes e)"
      using d unfolding h' entry_bytes_def h canon_last [OF c(1)] by simp
    moreover have "plain (entry_hashed e)"
      using d p unfolding h h' by (simp add: position_members_def source_members_def)
    ultimately show ?thesis by simp
  qed
  then show "d = sha (entry_bytes e)" "plain (entry_hashed e)" by simp_all
qed

lemma utf8_encode_inj: "utf8_encode a = utf8_encode b \<longleftrightarrow> a = b"
  by (metis utf8_decode_encode option.inject)

lemma dget_map_fields: "dget (map (\<lambda>f. (f, g f)) fs) f = (if f \<in> set fs then g f else JNull)"
  by (induction fs) (auto simp: dget_def)

lemma member_of:
  assumes "h = (k, a) # map (\<lambda>f. (f, g f)) fs" and "h' = (k, a') # map (\<lambda>f. (f, g' f)) fs"
    and "canon (dget h f) = canon (dget h' f)" and "f \<in> set fs" and "f \<noteq> k"
  shows "canon (g f) = canon (g' f)"
  using assms by (simp add: dget_map_fields del: canon.simps map_append)

lemma entry_bytes_bind:
  assumes "entry_bytes e = entry_bytes e'" and "plain (entry_hashed e)" and "plain (entry_hashed e')"
    and valid: "validate_audit_chain_entry sha external e" "validate_audit_chain_entry sha' external' e'"
    and "plain (JDict (event_of e))" and "plain (JDict (event_of e'))"
  shows "list_all (\<lambda>f. canon (dget e f) = canon (dget e' f)) (''schema_version'' # position_names @ source_names) \<and>
     same_json (JDict (event_of e)) (JDict (event_of e'))"
proof -
  note ev = valid_entry_event [OF valid(1)] and ev' = valid_entry_event [OF valid(2)]
  obtain h h' where h: "entry_hashed e = JDict h" "entry_hashed e' = JDict h'"
    by (simp add: entry_hashed_def Let_def)
  have "dump False (canon (entry_hashed e)) = dump False (canon (entry_hashed e'))"
    using assms(1) by (simp add: entry_bytes_def utf8_encode_inj)
  then have same: "canon (JDict h) = canon (JDict h')"
    using dump_canon_eq_iff [OF assms(2,3), of False] same_json_canon [OF _ assms(2,3)] unfolding h by blast
  obtain c where c: "canon (JDict h) = JDict c" using canon_dict by blast
  have dist: "distinct (keys h)" "distinct (keys h')" using assms(2,3) h by simp_all
  have eq: "canon (dget h f) = canon (dget h' f)" for f
    using canon_dget [OF c dist(1), of f] canon_dget [OF c [unfolded same] dist(2), of f] by simp
  define dom where "dom = (\<lambda>e. if dget e ''schema_version'' = JInt 1
      then ''hormuz.commit-audit-chain-entry.v1'' else ''hormuz.commit-audit-chain-entry.v2'')"
  define fs where "fs = (\<lambda>e. position_names @ (if dget e ''schema_version'' = JInt 1 then [] else source_names) @ [''event''])"
  have shape: "h = (''domain'', JStr (dom e)) # map (\<lambda>f. (f, dget e f)) (fs e)"
    "h' = (''domain'', JStr (dom e')) # map (\<lambda>f. (f, dget e' f)) (fs e')"
    using h by (simp_all only: entry_hashed_def Let_def dom_def fs_def json.inject)
  have "dom e = dom e'" using eq [of "''domain''"] unfolding shape by simp
  then have version: "dget e ''schema_version'' = dget e' ''schema_version''"
    using ev(2) ev'(2) by (auto simp: dom_def split: if_splits)
  then have fs: "fs e' = fs e" by (simp add: fs_def)
  have member: "canon (dget e f) = canon (dget e' f)" if "f \<in> set (fs e)" "f \<noteq> ''domain''" for f
    by (rule member_of [OF shape(1) shape(2) [unfolded fs] eq that])
  have pos: "canon (dget e f) = canon (dget e' f)" if "f \<in> set position_names" for f
    by (rule member) (use that in \<open>auto simp: fs_def position_names_def\<close>)
  have src: "canon (dget e f) = canon (dget e' f)" if "f \<in> set source_names" for f
  proof (cases "dget e ''schema_version'' = JInt 1")
    case True
    then show ?thesis using ev(3) [OF _ that] ev'(3) [OF _ that] version by simp
  next
    case False
    then show ?thesis by (intro member) (use that in \<open>auto simp: fs_def source_names_def\<close>)
  qed
  have "canon (JDict (event_of e)) = canon (JDict (event_of e'))"
    using member [of "''event''"] ev(1) ev'(1) by (simp add: fs_def del: canon.simps)
  then have "same_json (JDict (event_of e)) (JDict (event_of e'))"
    using canon_same_json [OF assms(6,7)] by blast
  then show ?thesis using version pos src by (auto simp: list_all_iff simp del: canon.simps)
qed


text \<open>Two entries whose hashed bytes collide under SHA-256.\<close>

definition colliding :: "(string \<Rightarrow> string) \<Rightarrow> jdict \<Rightarrow> jdict \<Rightarrow> bool" where
  "colliding sha e e' \<longleftrightarrow> entry_bytes e \<noteq> entry_bytes e' \<and> sha (entry_bytes e) = sha (entry_bytes e')"

fun scalar :: "json \<Rightarrow> bool" where
  "scalar (JList _) = False"
| "scalar (JDict _) = False"
| "scalar _ = True"

lemma canon_scalar: "scalar v \<Longrightarrow> canon v = v"
  by (cases v) simp_all

lemma opt_str_scalar [simp]: "scalar (opt_str x)"
  by (cases x) (simp_all add: opt_str_def)

lemma valid_entry_scalar:
  assumes "verify_audit_chain_entry sha external e org version epoch sequence previous source_event = Inr d"
    and "f \<in> set (''schema_version'' # position_names @ source_names)"
  shows "scalar (dget e f)"
proof -
  note m = verifyD [OF assms(1)] and ev = valid_entry_event [OF verifyD(1) [OF assms(1)]]
  have source: "scalar (dget e f)" if f: "f \<in> set source_names"
  proof (cases "dget e ''schema_version'' = JInt 1")
    case False
    then obtain s where "audit_chain_entry_source sha external e = Inr s"
      using m(8) ev(2) by (auto simp: actual_digest_def)
    then show ?thesis using f by (auto simp: source_names_def dest: audit_chain_entry_sourceD)
  qed (simp add: ev(3) [OF _ f])
  show ?thesis
    using assms(2) m ev(2) source by (auto simp: position_names_def)
qed

text \<open>
  Equal digests bind the whole entry: two entries that verify with the same digest are the same record
  at the same position after the same predecessor, unless their hashed bytes collide.
\<close>

lemma verify_binds:
  assumes v: "verify_audit_chain_entry sha external e org version epoch sequence previous source = Inr d"
    and v': "verify_audit_chain_entry sha external' e' org' version' epoch' sequence' previous' source' = Inr d"
    and p: "plain (JDict (event_of e))" "plain (JDict (event_of e'))"
  shows "colliding sha e e' \<or> org = org' \<and> version = version' \<and> epoch = epoch' \<and> sequence = sequence' \<and>
     previous = previous' \<and> same_entry e e'"
proof (cases "entry_bytes e = entry_bytes e'")
  case False
  then show ?thesis using verified_bytes(1) [OF v p(1)] verified_bytes(1) [OF v' p(2)] by (simp add: colliding_def)
next
  case True
  note m = verifyD [OF v] and m' = verifyD [OF v']
  note b = entry_bytes_bind [OF True verified_bytes(2) [OF v p(1)] verified_bytes(2) [OF v' p(2)] m(1) m'(1) p]
  have "dget e f = dget e' f" if f: "f \<in> set (''schema_version'' # position_names @ source_names)" for f
  proof -
    have "canon (dget e f) = canon (dget e' f)" using b f unfolding list_all_iff by blast
    then show ?thesis
      by (simp only: canon_scalar [OF valid_entry_scalar [OF v f]] canon_scalar [OF valid_entry_scalar [OF v' f]])
  qed
  then have eq: "list_all (\<lambda>f. dget e f = dget e' f) (''schema_version'' # position_names @ source_names)"
    by (simp only: list_all_iff) blast
  then have "same_entry e e'" using b by (simp only: same_entry_def)
  moreover have "JStr org = JStr org'" "JInt version = JInt version'" "JInt epoch = JInt epoch'"
    "JInt sequence = JInt sequence'" "opt_str previous = opt_str previous'"
    using eq m(2-6) m'(2-6) by (simp_all add: position_names_def)
  ultimately show ?thesis by simp
qed


section \<open>The entries as a linked log\<close>

text \<open>A stored entry with the source event the store still holds for it.\<close>

type_synonym chain_row = "jdict \<times> jdict option"

definition row_link :: "(string \<Rightarrow> string) \<Rightarrow> externals \<Rightarrow> string \<Rightarrow> int \<Rightarrow> int \<Rightarrow> nat \<Rightarrow> string option
    \<Rightarrow> chain_row \<Rightarrow> string option" where
  "row_link sha external org version epoch n previous r =
     (case verify_audit_chain_entry sha external (fst r) org version epoch (int n) previous (snd r) of
        Inl _ \<Rightarrow> None | Inr d \<Rightarrow> Some d)"

text \<open>Rows whose events hold no floats, which is what the validators of the source union admit.\<close>

definition row_plain :: "chain_row \<Rightarrow> bool" where
  "row_plain r = plain (JDict (event_of (fst r)))"

definition rows_collide :: "(string \<Rightarrow> string) \<Rightarrow> chain_row \<Rightarrow> chain_row \<Rightarrow> bool" where
  "rows_collide sha r r' = colliding sha (fst r) (fst r')"

definition same_row :: "chain_row \<Rightarrow> chain_row \<Rightarrow> bool" where
  "same_row r r' = same_entry (fst r) (fst r')"

text \<open>A row with a float is left out of the interface: the verifier accepts it, the link does not.\<close>

definition plain_link :: "(string \<Rightarrow> string) \<Rightarrow> externals \<Rightarrow> string \<Rightarrow> int \<Rightarrow> int \<Rightarrow> nat \<Rightarrow> string option
    \<Rightarrow> chain_row \<Rightarrow> string option" where
  "plain_link sha external org version epoch n previous r =
     (if row_plain r then row_link sha external org version epoch n previous r else None)"

interpretation chain: linked_log "plain_link sha external org version epoch" "rows_collide sha" same_row
  for sha external org version epoch
proof
  fix n n' :: nat and p p' and r r' :: chain_row and d
  assume l: "plain_link sha external org version epoch n p r = Some d"
    "plain_link sha external org version epoch n' p' r' = Some d"
  then have v: "verify_audit_chain_entry sha external (fst r) org version epoch (int n) p (snd r) = Inr d"
    "verify_audit_chain_entry sha external (fst r') org version epoch (int n') p' (snd r') = Inr d"
    and p: "row_plain r" "row_plain r'"
    by (auto simp: plain_link_def row_link_def split: if_splits sum.splits)
  show "rows_collide sha r r' \<or> n = n' \<and> p = p' \<and> same_row r r'"
    using verify_binds [OF v p [unfolded row_plain_def]] by (auto simp: rows_collide_def same_row_def)
qed

section \<open>An example\<close>

definition audit_example :: jdict where
  "audit_example = [(''action'', JStr ''denied''), (''actor_id'', JStr ''a''), (''actor_name'', JStr ''A''),
     (''authentication_source'', JStr ''static''), (''client'', JStr ''cli''),
     (''coverage'', JStr ''gateway_captured_requests_only''), (''detection_count'', JInt 1),
     (''event_type'', JStr ''security.secret''), (''id'', JStr ''e1''), (''identity_type'', JStr ''human''),
     (''occurred_at'', JStr ''t''), (''organization_id'', JStr ''org''), (''policy_version'', JStr ''p1''),
     (''protocol'', JStr ''openai''), (''requested_model'', JStr ''m''), (''rules'', JList [JStr ''key'']),
     (''schema_id'', JStr ''hormuz.audit-event''), (''schema_version'', JInt 2), (''team_id'', JStr ''t''),
     (''team_name'', JStr ''T'')]"

definition no_externals :: externals where
  "no_externals schema ev = None"

lemma audit_example_plain: "plain (JDict audit_example)"
  by code_simp

lemma audit_example_canon: "canon (JDict audit_example) = JDict audit_example"
  by code_simp

lemma audit_example_current: "validate_audit_event audit_example" "organization_known audit_example"
  by code_simp+

lemma audit_example_finite: "finite_tree (hashed_v1 ''org'' 1 1 1 None audit_example)"
  by code_simp

lemma audit_example_entry:
  "validate_audit_chain_entry example_sha no_externals (entry_v1 1 1 1 None (example_sha []) audit_example)"
  by code_simp

lemma audit_example_reread: "reread audit_example = Some audit_example"
  using reread_plain [OF audit_example_plain] audit_example_canon by (metis json.inject(6))

abbreviation "example_digest \<equiv> example_sha []"

lemma audit_example_built:
  "build_audit_chain_entry example_sha no_externals audit_example 1 1 1 None 1 None =
     Inr (entry_v1 1 1 1 None example_digest audit_example)"
proof -
  have n: "normalized_v1_audit_event audit_example = Inr audit_example"
    using audit_example_reread audit_example_current
    by (simp add: normalized_v1_audit_event_def) (simp add: audit_example_def)
  have org: "organization_of audit_example = ''org''" by (simp add: audit_example_def organization_of_def)
  have "entry_digest_v1 example_sha ''org'' 1 1 1 None audit_example = Inr example_digest"
    using audit_example_finite
    by (simp add: entry_digest_v1_def digest_of_def canonical_json_bytes_def canonical_json_text_def example_sha_def)
  then show ?thesis
    using n audit_example_entry
    by (simp add: build_audit_chain_entry_def validate_chain_position_def validate_digest_def org validate_entry_def)
qed

lemma audit_example_verifies:
  "verify_audit_chain_entry example_sha no_externals (entry_v1 1 1 1 None example_digest audit_example)
     ''org'' 1 1 1 None (Some audit_example) = Inr example_digest"
proof -
  let ?e = "entry_v1 1 1 1 None example_digest audit_example"
  obtain org d where v: "dget ?e ''organization_id'' = JStr org" "dget ?e ''event_digest'' = JStr d"
    "verify_audit_chain_entry example_sha no_externals ?e org 1 1 1 None (Some audit_example) = Inr d"
    using build_verifies [OF audit_example_built audit_example_plain] by blast
  have "org = ''org''" "d = example_digest"
    using v(1,2) by (simp_all add: entry_v1_members organization_of_def audit_example_def)
  then show ?thesis using v(3) by simp
qed

lemma canon_dget_scalar:
  assumes "canon (JDict d) = JDict d'" and "plain (JDict d)" and "scalar (dget d f)"
  shows "dget d' f = dget d f"
  using canon_dget [OF assms(1) plain_dictD [OF assms(2)], of f] canon_scalar [OF assms(3)] by simp

section \<open>Checkpoint artifacts\<close>

lemma validate_checkpoint_cong:
  assumes "\<And>f. dget c f = dget c' f" and "set (keys c) = set (keys c')"
  shows "validate_checkpoint c = validate_checkpoint c'"
proof -
  have d: "dget c = dget c'" using assms(1) by blast
  have "validate_audit_chain_checkpoint c = validate_audit_chain_checkpoint c'"
    by (simp add: validate_audit_chain_checkpoint_def position_fields_ok_def exact_keys_def assms(2) string_is_def
        integer_is_def string_ok_def integer_ok_def digest_at_def value_string_def value_integer_def d
        cong: option.case_cong)
  then show ?thesis by (simp add: validate_checkpoint_def d)
qed

lemma checkpoint_scalars:
  assumes "validate_checkpoint c = Inr ()" shows "scalar (dget c f)"
proof (cases "f \<in> set checkpoint_fields")
  case True
  have "validate_audit_chain_checkpoint c" using assms by (simp add: validate_checkpoint_def split: if_splits)
  then show ?thesis
    using True unfolding validate_audit_chain_checkpoint_def position_fields_ok_def checkpoint_fields_def
    by (auto dest!: string_okD string_isD integer_isD integer_okD digest_atD)
next
  case False
  have "set (keys c) = set checkpoint_fields"
    using assms by (auto simp: validate_checkpoint_def validate_audit_chain_checkpoint_def exact_keys_def split: if_splits)
  then have "dget c f = JNull" using False map_of_NoneI [of f c] by (simp add: dget_def)
  then show ?thesis by simp
qed

lemma set_keys_canon: "canon (JDict c) = JDict c' \<Longrightarrow> set (keys c') = set (keys c)"
  by (force simp: keys_def image_image case_prod_unfold)

lemma canon_checkpoint_valid:
  assumes "validate_checkpoint c = Inr ()" and "plain (JDict c)" and "canon (JDict c) = JDict c'"
  shows "validate_checkpoint c' = Inr ()"
  using validate_checkpoint_cong [of c' c] canon_dget_scalar [OF assms(3,2) checkpoint_scalars [OF assms(1)]]
    set_keys_canon [OF assms(3)] assms(1) by simp

lemma serialize_bytes:
  assumes "serialize_audit_chain_checkpoint c = Inr raw"
  shows "validate_checkpoint c = Inr ()" "raw = utf8_encode (dump False (canon (JDict c)))"
  using assms by (auto simp: serialize_audit_chain_checkpoint_def canonical_json_bytes_def canonical_json_text_def
      simp del: canon.simps dump.simps finite_tree.simps split: if_splits)

lemma serialize_valid:
  assumes "validate_checkpoint c = Inr ()" and "plain (JDict c)"
  shows "serialize_audit_chain_checkpoint c = Inr (utf8_encode (dump False (canon (JDict c))))"
  using assms(1) plain_finite [OF assms(2)]
  by (simp add: serialize_audit_chain_checkpoint_def canonical_json_bytes_def canonical_json_text_def
      del: canon.simps dump.simps finite_tree.simps)

text \<open>
  C34: A checkpoint artifact is read back as the checkpoint it was written from, and it is the only
  artifact of that checkpoint: bytes that parse to a checkpoint with the same members are the very same
  bytes, so an artifact cannot be re-encoded.
\<close>
theorem checkpoint_artifact_canonical:
  assumes "serialize_audit_chain_checkpoint c = Inr raw" and "plain (JDict c)"
    and "length raw \<le> max_checkpoint_bytes"
  shows "(\<exists>c'. parse_audit_chain_checkpoint raw = Inr c' \<and> same_json (JDict c) (JDict c')) \<and>
     (\<forall>raw' d. parse_audit_chain_checkpoint raw' = Inr d \<longrightarrow> plain (JDict d) \<longrightarrow> same_json (JDict c) (JDict d) \<longrightarrow>
        raw' = raw)"
proof
  note s = serialize_bytes [OF assms(1)]
  obtain c' where c': "canon (JDict c) = JDict c'" using canon_dict by blast
  have p: "plain (JDict c')" using plain_canon [OF assms(2)] unfolding c' .
  have idem: "canon (JDict c') = JDict c'" using canon_canon [OF assms(2)] unfolding c' .
  have l: "loads (dump False (JDict c')) = Some (JDict c')" by (rule loads_dump [OF p])
  note valid = canon_checkpoint_valid [OF s(1) assms(2) c']
  have ser: "serialize_audit_chain_checkpoint c' = Inr raw"
    using serialize_valid [OF valid p] by (simp only: idem s(2) c')
  obtain x xs where "dump False (JDict c') = x # xs" using dump_head [OF p, of False] by blast
  then have "raw \<noteq> []" by (simp only: s(2) c') (simp add: utf8_encode_def utf8_char_def Let_def)
  then have "parse_audit_chain_checkpoint raw = Inr c'"
    using assms(3) l valid ser
    by (simp add: parse_audit_chain_checkpoint_def) (simp only: s(2) c' utf8_decode_encode, simp)
  moreover have "same_json (JDict c) (JDict c')"
    using canon_same_json [OF assms(2) p] idem c' by simp
  ultimately show "\<exists>c'. parse_audit_chain_checkpoint raw = Inr c' \<and> same_json (JDict c) (JDict c')" by blast
  show "\<forall>raw' d. parse_audit_chain_checkpoint raw' = Inr d \<longrightarrow> plain (JDict d) \<longrightarrow> same_json (JDict c) (JDict d) \<longrightarrow>
        raw' = raw"
  proof (intro allI impI)
    fix raw' d assume d: "parse_audit_chain_checkpoint raw' = Inr d" "plain (JDict d)" "same_json (JDict c) (JDict d)"
    have "serialize_audit_chain_checkpoint d = Inr raw'"
      using d(1) by (auto simp: parse_audit_chain_checkpoint_def split: if_splits option.splits json.splits)
    then have "raw' = utf8_encode (dump False (canon (JDict d)))" by (rule serialize_bytes(2))
    then show "raw' = raw" using same_json_canon [OF d(3) assms(2) d(2)] s(2) by (simp only:)
  qed
qed

definition example_artifact :: jdict where
  "example_artifact = [(''schema_id'', JStr ''hormuz.audit-chain-checkpoint''), (''schema_version'', JInt 1),
     (''checkpoint_id'', JStr ''00000000-0000-4000-8000-000000000000''), (''organization_id'', JStr ''org''),
     (''chain_version'', JInt 1), (''chain_epoch'', JInt 1), (''sequence'', JInt 1),
     (''head_digest'', JStr (example_sha [])), (''created_at'', JStr ''t'')]"

theorem checkpoint_artifact_canonical_witness:
  "\<exists>raw c'. serialize_audit_chain_checkpoint example_artifact = Inr raw \<and>
     parse_audit_chain_checkpoint raw = Inr c' \<and> same_json (JDict example_artifact) (JDict c')"
proof -
  have p: "plain (JDict example_artifact)" by code_simp
  have v: "validate_checkpoint example_artifact = Inr ()" by code_simp
  have "length (utf8_encode (dump False (canon (JDict example_artifact)))) \<le> max_checkpoint_bytes" by code_simp
  from checkpoint_artifact_canonical [OF serialize_valid [OF v p] p this] serialize_valid [OF v p]
  show ?thesis by blast
qed

end
