(* ===== verification/Audit_Verifier.thy ===== *)
theory Audit_Verifier
  imports Audit_Chain
begin

text \<open>
  Verification of a loaded snapshot of one organization's chain (\<^verbatim>\<open>src/hormuz/_audit_verifier.py\<close>): its
  epochs in order, the entries of each epoch, the source events, the head and an optional external
  checkpoint.
\<close>

section \<open>The snapshot\<close>

record checkpoint_input =
  ck_version :: int
  ck_epoch :: int
  ck_sequence :: int
  ck_digest :: string

record epoch_input =
  ep_version :: int
  ep_epoch :: int
  ep_reason :: json
  ep_pred_epoch :: json
  ep_pred_sequence :: json
  ep_pred_digest :: json

record entry_input =
  en_epoch :: int
  en_source :: chain_source
  en_entry :: jdict

record verification_inputs =
  vi_organization :: string
  vi_head :: chain_head
  vi_epochs :: "epoch_input list"
  vi_entries :: "entry_input list"
  vi_sources :: "(chain_source \<times> jdict) list"
  vi_checkpoint :: "checkpoint_input option"

definition source_event_map :: "(chain_source \<times> jdict) list \<Rightarrow> (chain_source \<times> jdict) list res" where
  "source_event_map events = (if distinct (map fst events) then Inr events
     else Inl ''audit_chain_source_event_malformed'')"

definition is_digest :: "json \<Rightarrow> bool" where
  "is_digest v = (case v of JStr s \<Rightarrow> is_hex64 s | _ \<Rightarrow> False)"

section \<open>The loop over the epochs\<close>

text \<open>What the loop has verified: the digests by epoch and sequence, and its flags.\<close>

record progress =
  pg_verified :: "((int \<times> int) \<times> string) list"
  pg_active_seen :: bool
  pg_checkpoint_matched :: bool
  pg_previous_epoch :: int

definition start_progress :: progress where
  "start_progress = \<lparr>pg_verified = [], pg_active_seen = False, pg_checkpoint_matched = False,
     pg_previous_epoch = 0\<rparr>"

text \<open>The digest the first entry of an epoch follows, and whether the checkpoint supplied it.\<close>

definition checkpoint_is :: "checkpoint_input option \<Rightarrow> int \<Rightarrow> int \<Rightarrow> int \<Rightarrow> string \<Rightarrow> bool" where
  "checkpoint_is c version epoch sequence digest = (case c of
      None \<Rightarrow> False
    | Some k \<Rightarrow> ck_version k = version \<and> ck_epoch k = epoch \<and> ck_sequence k = sequence \<and> ck_digest k = digest)"

definition epoch_predecessor :: "checkpoint_input option \<Rightarrow> progress \<Rightarrow> epoch_input \<Rightarrow> (string option \<times> bool) res" where
  "epoch_predecessor c pg ep =
     (if ep_epoch ep = 1 then
        (if ep_reason ep \<noteq> JStr ''initial_adoption'' \<or> ep_pred_epoch ep \<noteq> JNull \<or> ep_pred_sequence ep \<noteq> JNull
            \<or> ep_pred_digest ep \<noteq> JNull
         then Inl ''audit_chain_epoch_malformed'' else Inr (None, False))
      else (case (ep_pred_epoch ep, ep_pred_sequence ep, ep_pred_digest ep) of
          (JInt pe, JInt ps, JStr pd) \<Rightarrow>
            if \<not> str_in (ep_reason ep) [''restore'', ''migration''] \<or> pe < 1 \<or> ep_epoch ep \<le> pe \<or> ps < 1
               \<or> \<not> is_hex64 pd
            then Inl ''audit_chain_epoch_malformed''
            else (case map_of (pg_verified pg) (pe, ps) of
                Some d \<Rightarrow> if d = pd then Inr (Some pd, False) else Inl ''audit_chain_predecessor_invalid''
              | None \<Rightarrow> if checkpoint_is c (ep_version ep) pe ps pd then Inr (Some pd, True)
                         else Inl ''audit_chain_checkpoint_required'')
        | _ \<Rightarrow> Inl ''audit_chain_epoch_malformed''))"

text \<open>The entries of one epoch, from a sequence and a predecessor: the digests, the next sequence, the head.\<close>

fun verify_rows :: "(string \<Rightarrow> string) \<Rightarrow> externals \<Rightarrow> string \<Rightarrow> int \<Rightarrow> int \<Rightarrow> nat \<Rightarrow> string option
    \<Rightarrow> chain_row list \<Rightarrow> (string list \<times> string option) res" where
  "verify_rows sha external org version epoch n previous [] = Inr ([], previous)"
| "verify_rows sha external org version epoch n previous (r # rs) =
     rbind (verify_audit_chain_entry sha external (fst r) org version epoch (int n) previous (snd r)) (\<lambda>d.
     rbind (verify_rows sha external org version epoch (Suc n) (Some d) rs) (\<lambda>(ds, end_digest).
       Inr (d # ds, end_digest)))"

definition rows_of :: "verification_inputs \<Rightarrow> int \<Rightarrow> chain_row list" where
  "rows_of i epoch = map (\<lambda>en. (en_entry en, map_of (vi_sources i) (en_source en)))
     (filter (\<lambda>en. en_epoch en = epoch) (vi_entries i))"

definition numbered :: "int \<Rightarrow> string list \<Rightarrow> ((int \<times> int) \<times> string) list" where
  "numbered epoch ds = map (\<lambda>(n, d). ((epoch, int n), d)) (enumerate 1 ds)"

definition verify_epoch :: "(string \<Rightarrow> string) \<Rightarrow> externals \<Rightarrow> verification_inputs \<Rightarrow> progress \<Rightarrow> epoch_input
    \<Rightarrow> progress res" where
  "verify_epoch sha external i pg ep =
     (let h = vi_head i; e = ep_epoch ep in
      if ep_version ep \<noteq> ch_version h \<or> e < 1 \<or> e \<le> pg_previous_epoch pg \<or> ch_epoch h < e
      then Inl ''audit_chain_epoch_malformed''
      else rbind (epoch_predecessor (vi_checkpoint i) pg ep) (\<lambda>(previous, matched).
        rbind (verify_rows sha external (vi_organization i) (ep_version ep) e 1 previous (rows_of i e))
          (\<lambda>(ds, end_digest).
            if e = ch_epoch h \<and> (ch_sequence h \<noteq> int (length ds) \<or> ch_digest h \<noteq> end_digest)
            then Inl ''audit_chain_head_mismatch''
            else Inr \<lparr>pg_verified = numbered e ds @ pg_verified pg,
                      pg_active_seen = (pg_active_seen pg \<or> e = ch_epoch h),
                      pg_checkpoint_matched = (pg_checkpoint_matched pg \<or> matched),
                      pg_previous_epoch = e\<rparr>)))"

fun verify_epochs :: "(string \<Rightarrow> string) \<Rightarrow> externals \<Rightarrow> verification_inputs \<Rightarrow> progress \<Rightarrow> epoch_input list
    \<Rightarrow> progress res" where
  "verify_epochs sha external i pg [] = Inr pg"
| "verify_epochs sha external i pg (ep # eps) =
     rbind (verify_epoch sha external i pg ep) (\<lambda>pg'. verify_epochs sha external i pg' eps)"

definition check_head :: "verification_inputs \<Rightarrow> unit res" where
  "check_head i = (let h = vi_head i in
     if ch_version h \<noteq> 1 \<or> ch_epoch h < 1 \<or> ch_sequence h < 0 then Inl ''audit_chain_head_malformed''
     else if (case ch_digest h of None \<Rightarrow> False | Some d \<Rightarrow> \<not> is_hex64 d) then Inl ''audit_chain_head_malformed''
     else if (case vi_checkpoint i of None \<Rightarrow> False | Some c \<Rightarrow> ck_version c \<noteq> ch_version h)
     then Inl ''audit_chain_checkpoint_mismatch'' else Inr ())"

definition check_end :: "verification_inputs \<Rightarrow> progress \<Rightarrow> unit res" where
  "check_end i pg =
     (if \<not> pg_active_seen pg \<or> pg_previous_epoch pg \<noteq> ch_epoch (vi_head i) then Inl ''audit_chain_head_mismatch''
      else if \<not> list_all (\<lambda>en. en_epoch en \<in> set (map (fst \<circ> fst) (pg_verified pg))) (vi_entries i)
      then Inl ''audit_chain_epoch_malformed''
      else (case vi_checkpoint i of
          None \<Rightarrow> Inr ()
        | Some c \<Rightarrow> if pg_checkpoint_matched pg
                       \<or> map_of (pg_verified pg) (ck_epoch c, ck_sequence c) = Some (ck_digest c)
                    then Inr () else Inl ''audit_chain_checkpoint_mismatch''))"

definition verify_audit_chain_inputs :: "(string \<Rightarrow> string) \<Rightarrow> externals \<Rightarrow> verification_inputs \<Rightarrow> chain_head res" where
  "verify_audit_chain_inputs sha external i =
     rbind (check_head i) (\<lambda>_.
     rbind (source_event_map (vi_sources i)) (\<lambda>_.
     rbind (verify_epochs sha external i start_progress (vi_epochs i)) (\<lambda>pg.
     rbind (check_end i pg) (\<lambda>_. Inr (vi_head i)))))"


section \<open>What the loop has verified\<close>

abbreviation chain_run :: "(string \<Rightarrow> string) \<Rightarrow> externals \<Rightarrow> string \<Rightarrow> int \<Rightarrow> int \<Rightarrow> nat \<Rightarrow> string option
    \<Rightarrow> chain_row list \<Rightarrow> string option option" where
  "chain_run sha external org version epoch \<equiv> linked_log.run (plain_link sha external org version epoch)"

lemma verify_rows_length:
  "verify_rows sha external org version epoch n p rs = Inr (ds, end_digest) \<Longrightarrow> length ds = length rs"
  by (induction rs arbitrary: n p ds end_digest) auto

lemma verify_rows_run:
  assumes "verify_rows sha external org version epoch n p rs = Inr (ds, end_digest)" and "list_all row_plain rs"
    and "k < length rs"
  shows "chain_run sha external org version epoch n p (take (Suc k) rs) = Some (Some (ds ! k))"
  using assms
proof (induction rs arbitrary: n p ds k)
  case (Cons r rs)
  obtain d ds' where d: "verify_audit_chain_entry sha external (fst r) org version epoch (int n) p (snd r) = Inr d"
    "verify_rows sha external org version epoch (Suc n) (Some d) rs = Inr (ds', end_digest)" "ds = d # ds'"
    using Cons.prems(1) by auto
  have l: "plain_link sha external org version epoch n p r = Some d"
    using d(1) Cons.prems(2) by (simp add: plain_link_def row_link_def)
  show ?case
  proof (cases k)
    case 0
    then show ?thesis using l d(3) by (simp add: chain.run.simps)
  next
    case (Suc m)
    then show ?thesis using l d(3) Cons.IH [OF d(2), of m] Cons.prems(2,3) by (simp add: chain.run.simps)
  qed
qed simp

lemma map_of_numbered:
  "map_of (numbered epoch ds) (e, s) = (if e = epoch \<and> 1 \<le> s \<and> s \<le> int (length ds)
     then Some (ds ! (nat s - 1)) else None)"
proof -
  have "map_of (map (\<lambda>(n, d). ((epoch, int n), d)) (enumerate k ds)) (e, s) =
      (if e = epoch \<and> int k \<le> s \<and> s < int k + int (length ds) then Some (ds ! (nat s - k)) else None)" for k
  proof (induction ds arbitrary: k)
    case (Cons d ds)
    show ?case
    proof (cases "e = epoch \<and> s = int k")
      case False
      then have "nat s - k = Suc (nat s - Suc k)" if "int (Suc k) \<le> s" "e = epoch" using that by linarith
      then show ?thesis using False Cons [of "Suc k"] by auto
    qed simp
  qed simp
  from this [of 1] show ?thesis by (auto simp: numbered_def)
qed

lemma numbered_epoch: "((e, s), d) \<in> set (numbered epoch ds) \<Longrightarrow> e = epoch"
  by (auto simp: numbered_def)

definition verified_rows :: "(string \<Rightarrow> string) \<Rightarrow> externals \<Rightarrow> verification_inputs \<Rightarrow> int \<Rightarrow> string list \<Rightarrow> bool" where
  "verified_rows sha external i e ds \<longleftrightarrow> (\<exists>p end_digest.
     verify_rows sha external (vi_organization i) 1 e 1 p (rows_of i e) = Inr (ds, end_digest))"

definition progress_inv :: "(string \<Rightarrow> string) \<Rightarrow> externals \<Rightarrow> verification_inputs \<Rightarrow> progress \<Rightarrow> bool" where
  "progress_inv sha external i pg \<longleftrightarrow>
     (\<forall>e \<in> fst ` fst ` set (pg_verified pg). e \<le> pg_previous_epoch pg \<and>
        (\<exists>ds. verified_rows sha external i e ds \<and>
          (\<forall>s. map_of (pg_verified pg) (e, s) = map_of (numbered e ds) (e, s)))) \<and>
     (pg_checkpoint_matched pg \<longrightarrow> (\<exists>c. vi_checkpoint i = Some c \<and> ck_epoch c < pg_previous_epoch pg \<and>
        map_of (pg_verified pg) (ck_epoch c, ck_sequence c) = None))"

lemma verified_epochs_below:
  "progress_inv sha external i pg \<Longrightarrow> pg_previous_epoch pg < e \<Longrightarrow> map_of (pg_verified pg) (e, s) = None"
proof (cases "map_of (pg_verified pg) (e, s)")
  case (Some d)
  assume "progress_inv sha external i pg" and less: "pg_previous_epoch pg < e"
  moreover have "e \<in> fst ` fst ` set (pg_verified pg)" using map_of_SomeD [OF Some] by force
  ultimately have "e \<le> pg_previous_epoch pg" unfolding progress_inv_def by blast
  then show ?thesis using less by simp
qed simp

lemma verify_epoch_inv:
  assumes v: "verify_epoch sha external i pg ep = Inr pg'" and inv: "progress_inv sha external i pg"
    and version: "ch_version (vi_head i) = 1"
  shows "progress_inv sha external i pg'"
proof -
  let ?e = "ep_epoch ep"
  obtain previous matched ds end_digest where s:
    "ep_version ep = 1" "pg_previous_epoch pg < ?e"
    "epoch_predecessor (vi_checkpoint i) pg ep = Inr (previous, matched)"
    "verify_rows sha external (vi_organization i) 1 ?e 1 previous (rows_of i ?e) = Inr (ds, end_digest)"
    "pg_verified pg' = numbered ?e ds @ pg_verified pg" "pg_previous_epoch pg' = ?e"
    "pg_checkpoint_matched pg' = (pg_checkpoint_matched pg \<or> matched)"
    using v version by (auto simp: verify_epoch_def Let_def split: if_splits)
  have new: "map_of (pg_verified pg') (?e, k) = map_of (numbered ?e ds) (?e, k)" for k
    using verified_epochs_below [OF inv s(2)] by (simp add: s(5) map_add_def split: option.split)
  have old: "map_of (pg_verified pg') (e, k) = map_of (pg_verified pg) (e, k)" if "e \<noteq> ?e" for e k
    using that by (simp add: s(5) map_add_def map_of_numbered)
  have "e \<le> pg_previous_epoch pg' \<and> (\<exists>ds. verified_rows sha external i e ds \<and>
      (\<forall>k. map_of (pg_verified pg') (e, k) = map_of (numbered e ds) (e, k)))"
    if "e \<in> fst ` fst ` set (pg_verified pg')" for e
  proof (cases "e = ?e")
    case True
    then show ?thesis using s(4,6) new by (auto simp: verified_rows_def)
  next
    case False
    then have "e \<in> fst ` fst ` set (pg_verified pg)"
      using that False by (auto simp: s(5) dest: numbered_epoch)
    then show ?thesis using inv old [OF False] s(2,6) unfolding progress_inv_def by force
  qed
  moreover have "\<exists>c. vi_checkpoint i = Some c \<and> ck_epoch c < pg_previous_epoch pg' \<and>
      map_of (pg_verified pg') (ck_epoch c, ck_sequence c) = None" if "pg_checkpoint_matched pg'"
  proof (cases "pg_checkpoint_matched pg")
    case True
    then obtain c where "vi_checkpoint i = Some c" "ck_epoch c < pg_previous_epoch pg"
      "map_of (pg_verified pg) (ck_epoch c, ck_sequence c) = None"
      using inv unfolding progress_inv_def by blast
    then show ?thesis using old [of "ck_epoch c"] s(2,6) by auto
  next
    case False
    then have "matched" using that s(7) by simp
    then obtain c where "vi_checkpoint i = Some c" "ck_epoch c < ?e"
      "map_of (pg_verified pg) (ck_epoch c, ck_sequence c) = None"
      using s(3) by (auto simp: epoch_predecessor_def checkpoint_is_def split: if_splits json.splits option.splits)
    then show ?thesis using old [of "ck_epoch c"] s(6) by auto
  qed
  ultimately show ?thesis unfolding progress_inv_def by blast
qed

lemma verify_epochs_inv:
  assumes "verify_epochs sha external i pg eps = Inr pg'" and "progress_inv sha external i pg"
    and "ch_version (vi_head i) = 1"
  shows "progress_inv sha external i pg'"
  using assms by (induction eps arbitrary: pg) (auto dest: verify_epoch_inv)


lemma start_inv: "progress_inv sha external i start_progress"
  by (simp add: progress_inv_def start_progress_def)

text \<open>A verified snapshot holds the checkpoint's digest at its position, when it has that position at all.\<close>

lemma verified_at_checkpoint:
  assumes v: "verify_audit_chain_inputs sha external i = Inr h" and c: "vi_checkpoint i = Some c"
    and s: "1 \<le> ck_sequence c" "ck_sequence c \<le> int (length (rows_of i (ck_epoch c)))"
    and plain: "list_all row_plain (rows_of i (ck_epoch c))"
  shows "\<exists>p. chain_run sha external (vi_organization i) 1 (ck_epoch c) 1 p
     (take (nat (ck_sequence c)) (rows_of i (ck_epoch c))) = Some (Some (ck_digest c))"
proof -
  let ?e = "ck_epoch c"
  obtain pg where pg: "verify_epochs sha external i start_progress (vi_epochs i) = Inr pg" "check_end i pg = Inr ()"
    and head: "check_head i = Inr ()"
    using v by (auto simp: verify_audit_chain_inputs_def)
  have inv: "progress_inv sha external i pg"
    using verify_epochs_inv [OF pg(1) start_inv] head by (auto simp: check_head_def Let_def split: if_splits)
  have "rows_of i ?e \<noteq> []" using s by auto
  then obtain en where en: "en \<in> set (vi_entries i)" "en_epoch en = ?e"
    by (auto simp: rows_of_def filter_empty_conv)
  then have mem: "?e \<in> fst ` fst ` set (pg_verified pg)"
    using pg(2) by (force simp: check_end_def list_all_iff split: if_splits)
  obtain ds p end_digest where ds: "verify_rows sha external (vi_organization i) 1 ?e 1 p (rows_of i ?e) = Inr (ds, end_digest)"
    and at: "map_of (pg_verified pg) (?e, k) = map_of (numbered ?e ds) (?e, k)" for k
    using inv mem unfolding progress_inv_def verified_rows_def by metis
  have len: "length ds = length (rows_of i ?e)" by (rule verify_rows_length [OF ds])
  have d: "map_of (pg_verified pg) (?e, ck_sequence c) = Some (ds ! (nat (ck_sequence c) - 1))"
    using s len by (simp add: at map_of_numbered)
  have "\<not> pg_checkpoint_matched pg" using inv d c unfolding progress_inv_def by auto
  then have "ds ! (nat (ck_sequence c) - 1) = ck_digest c"
    using pg(2) d c by (auto simp: check_end_def split: if_splits)
  then show ?thesis
    using verify_rows_run [OF ds plain, of "nat (ck_sequence c) - 1"] s by (intro exI [of _ p]) (simp add: Suc_diff_Suc)
qed


definition example_inputs :: verification_inputs where
  "example_inputs = (let s = \<lparr>cs_schema = ''hormuz.audit-event'', cs_version = 2, cs_event_id = ''e1''\<rparr> in
     \<lparr>vi_organization = ''org'',
      vi_head = \<lparr>ch_organization = ''org'', ch_version = 1, ch_epoch = 1, ch_sequence = 1, ch_digest = Some example_digest\<rparr>,
      vi_epochs = [\<lparr>ep_version = 1, ep_epoch = 1, ep_reason = JStr ''initial_adoption'', ep_pred_epoch = JNull,
        ep_pred_sequence = JNull, ep_pred_digest = JNull\<rparr>],
      vi_entries = [\<lparr>en_epoch = 1, en_source = s, en_entry = entry_v1 1 1 1 None example_digest audit_example\<rparr>],
      vi_sources = [(s, audit_example)],
      vi_checkpoint = Some \<lparr>ck_version = 1, ck_epoch = 1, ck_sequence = 1, ck_digest = example_digest\<rparr>\<rparr>)"

lemma example_inputs_verify:
  "verify_audit_chain_inputs example_sha no_externals example_inputs = Inr (vi_head example_inputs)"
proof -
  have hex: "is_hex64 example_digest"
    by (simp add: is_hex64_def example_sha_def list_all_iff is_digit_def ord_of_def)
  show ?thesis
    using audit_example_verifies hex
    by (simp add: example_inputs_def verify_audit_chain_inputs_def check_head_def source_event_map_def rows_of_def
        verify_epoch_def epoch_predecessor_def start_progress_def check_end_def numbered_def Let_def)
qed


end
