(* ===== verification/Audit_Store.thy ===== *)
theory Audit_Store
  imports Audit_Verifier
begin

text \<open>
  The durable chain of one organization in the SQLite store (\<^verbatim>\<open>src/hormuz/store.py\<close>, with the row
  readers of \<^verbatim>\<open>src/hormuz/_persistence.py\<close>): its head, epochs, entries and recorded checkpoints, and
  the source events the entries are checked against. Every statement of the code filters on the
  organization, so the state is the rows of one organization; a table is the list of its rows in primary
  key order, which is the order they are inserted and read in. The clock is a parameter.
\<close>

section \<open>State\<close>

record entry_row =
  er_version :: int
  er_epoch :: int
  er_sequence :: int
  er_schema_id :: string
  er_schema_version :: int
  er_event_id :: string
  er_previous :: "string option"
  er_digest :: string
  er_event_json :: string
  er_source :: "chain_source option"

record checkpoint_row =
  kr_id :: string
  kr_version :: int
  kr_epoch :: int
  kr_sequence :: int
  kr_digest :: string
  kr_artifact :: string
  kr_backend :: string
  kr_object_version :: "string option"

record chain_store =
  st_head :: "chain_head option"
  st_epochs :: "epoch_input list"
  st_rows :: "entry_row list"
  st_sources :: "(chain_source \<times> jdict) list"
  st_checkpoints :: "checkpoint_row list"

definition empty_store :: chain_store where
  "empty_store = \<lparr>st_head = None, st_epochs = [], st_rows = [], st_sources = [], st_checkpoints = []\<rparr>"

section \<open>Appending\<close>

definition initial_epoch :: epoch_input where
  "initial_epoch = \<lparr>ep_version = 1, ep_epoch = 1, ep_reason = JStr ''initial_adoption'', ep_pred_epoch = JNull,
     ep_pred_sequence = JNull, ep_pred_digest = JNull\<rparr>"

text \<open>\<^verbatim>\<open>INSERT OR IGNORE\<close> of the first epoch and of the head.\<close>

definition with_head :: "string \<Rightarrow> chain_store \<Rightarrow> chain_store \<times> chain_head" where
  "with_head org st =
     (let st1 = (if \<exists>ep \<in> set (st_epochs st). ep_epoch ep = 1 then st
                 else st\<lparr>st_epochs := initial_epoch # st_epochs st\<rparr>)
      in case st_head st1 of
           Some h \<Rightarrow> (st1, h)
         | None \<Rightarrow> let h = \<lparr>ch_organization = org, ch_version = 1, ch_epoch = 1, ch_sequence = 0, ch_digest = None\<rparr>
                    in (st1\<lparr>st_head := Some h\<rparr>, h))"

definition source_of_event :: "jdict \<Rightarrow> chain_source option \<Rightarrow> chain_source option" where
  "source_of_event ev source = (case source of
      Some s \<Rightarrow> Some s
    | None \<Rightarrow> (case dget ev ''id'' of
        JStr i \<Rightarrow> Some \<lparr>cs_schema = ''hormuz.audit-event'', cs_version = 2, cs_event_id = i\<rparr>
      | _ \<Rightarrow> None))"

definition append_audit_chain_entry :: "(string \<Rightarrow> string) \<Rightarrow> externals \<Rightarrow> jdict \<Rightarrow> chain_source option
    \<Rightarrow> chain_store \<Rightarrow> (chain_store \<times> chain_head) res" where
  "append_audit_chain_entry sha external ev source st0 =
     (case (value_string ev ''organization_id'', map_option cs_event_id (source_of_event ev source)) of
        (Some org, Some event_id) \<Rightarrow>
          if event_id = [] then Inl ''audit_chain_event_malformed'' else
          (let (st, h) = with_head org st0 in
           rbind (build_audit_chain_entry sha external ev (ch_version h) (ch_epoch h) (ch_sequence h + 1)
                    (ch_digest h) (if source = None then 1 else 2) source) (\<lambda>e.
           case (value_mapping e ''event'', value_string e ''event_digest'') of
             (Some n, Some d) \<Rightarrow>
               rbind (canonical_json_text ''audit_chain_malformed'' (JDict n)) (\<lambda>text.
               if \<exists>r \<in> set (st_rows st). er_event_id r = event_id
                  \<or> er_epoch r = ch_epoch h \<and> er_sequence r = ch_sequence h + 1
               then Inl ''IntegrityError''
               else let h' = h\<lparr>ch_sequence := ch_sequence h + 1, ch_digest := Some d\<rparr>
                    in Inr (st\<lparr>st_rows := st_rows st @ [\<lparr>er_version = ch_version h, er_epoch = ch_epoch h,
                         er_sequence = ch_sequence h + 1, er_schema_id = ''hormuz.commit-audit-chain-entry'',
                         er_schema_version = (if source = None then 1 else 2), er_event_id = event_id,
                         er_previous = ch_digest h, er_digest = d, er_event_json = text,
                         er_source = source\<rparr>], st_head := Some h'\<rparr>, h'))
           | _ \<Rightarrow> Inl ''audit_chain_entry_malformed''))
      | _ \<Rightarrow> Inl ''audit_chain_event_malformed'')"

section \<open>Checkpoints and epochs\<close>

definition record_audit_chain_checkpoint :: "jdict \<Rightarrow> string \<Rightarrow> string \<Rightarrow> string option \<Rightarrow> chain_store
    \<Rightarrow> chain_store res" where
  "record_audit_chain_checkpoint checkpoint artifact backend object_version st =
     rbind (audit_chain_checkpoint_position checkpoint) (\<lambda>c.
     if \<not> is_hex64 artifact \<or> backend = [] then Inl ''audit_chain_checkpoint_malformed''
     else (case find (\<lambda>r. er_epoch r = cp_epoch c \<and> er_sequence r = cp_sequence c) (st_rows st) of
        None \<Rightarrow> Inl ''audit_chain_checkpoint_missing''
      | Some r \<Rightarrow>
          if er_digest r \<noteq> cp_digest c then Inl ''audit_chain_checkpoint_mismatch''
          else let new = \<lparr>kr_id = cp_id c, kr_version = cp_version c, kr_epoch = cp_epoch c,
                  kr_sequence = cp_sequence c, kr_digest = cp_digest c, kr_artifact = artifact,
                  kr_backend = backend, kr_object_version = object_version\<rparr>
               in case find (\<lambda>k. kr_id k = cp_id c) (st_checkpoints st) of
                    None \<Rightarrow> Inr (st\<lparr>st_checkpoints := st_checkpoints st @ [new]\<rparr>)
                  | Some k \<Rightarrow> if k = new then Inr st else Inl ''audit_chain_checkpoint_conflict''))"

definition begin_audit_chain_epoch :: "jdict \<Rightarrow> string \<Rightarrow> chain_store \<Rightarrow> (chain_store \<times> chain_head) res" where
  "begin_audit_chain_epoch checkpoint reason st0 =
     (if reason \<notin> {''restore'', ''migration''} then Inl ''audit_chain_epoch_reason_invalid''
      else rbind (audit_chain_checkpoint_position checkpoint) (\<lambda>c.
        let (st, h) = with_head (cp_organization c) st0; new_epoch = cp_epoch c + 1 in
        if cp_version c \<noteq> ch_version h \<or> new_epoch \<le> ch_epoch h
        then Inl ''audit_chain_epoch_predecessor_invalid''
        else let row = \<lparr>ep_version = cp_version c, ep_epoch = new_epoch, ep_reason = JStr reason,
                ep_pred_epoch = JInt (cp_epoch c), ep_pred_sequence = JInt (cp_sequence c),
                ep_pred_digest = JStr (cp_digest c)\<rparr>;
              stored = (case find (\<lambda>ep. ep_epoch ep = new_epoch) (st_epochs st) of Some ep \<Rightarrow> ep | None \<Rightarrow> row);
              epochs = (if \<exists>ep \<in> set (st_epochs st). ep_epoch ep = new_epoch then st_epochs st
                        else st_epochs st @ [row])
          in if ep_version stored \<noteq> cp_version c \<or> ep_pred_epoch stored \<noteq> JInt (cp_epoch c)
                \<or> ep_pred_sequence stored \<noteq> JInt (cp_sequence c) \<or> ep_pred_digest stored \<noteq> JStr (cp_digest c)
             then Inl ''audit_chain_epoch_conflict''
             else let h' = h\<lparr>ch_epoch := new_epoch, ch_sequence := 0, ch_digest := Some (cp_digest c)\<rparr>
                  in Inr (st\<lparr>st_epochs := epochs, st_head := Some h'\<rparr>, h')))"

section \<open>Loading a snapshot and verifying it\<close>

definition entry_of_row :: "string \<Rightarrow> entry_row \<Rightarrow> jdict \<Rightarrow> jdict" where
  "entry_of_row org r ev =
     [(''schema_id'', JStr (er_schema_id r)), (''schema_version'', JInt (er_schema_version r)),
      (''organization_id'', JStr org), (''chain_version'', JInt (er_version r)),
      (''chain_epoch'', JInt (er_epoch r)), (''sequence'', JInt (er_sequence r)),
      (''previous_digest'', opt_str (er_previous r)), (''event_digest'', JStr (er_digest r)), (''event'', JDict ev)]"

definition entry_input_of_row :: "string \<Rightarrow> entry_row \<Rightarrow> entry_input res" where
  "entry_input_of_row org r = (case loads (er_event_json r) of
      Some (JDict ev) \<Rightarrow>
        if er_schema_version r = 1 then
          (if dget ev ''id'' = JStr (er_event_id r)
           then Inr \<lparr>en_epoch = er_epoch r,
             en_source = \<lparr>cs_schema = ''hormuz.audit-event'', cs_version = 2, cs_event_id = er_event_id r\<rparr>,
             en_entry = entry_of_row org r ev\<rparr>
           else Inl ''audit_chain_entry_malformed'')
        else if er_schema_version r = 2 then (case er_source r of
             None \<Rightarrow> Inl ''audit_chain_entry_malformed''
           | Some s \<Rightarrow> if cs_event_id s = er_event_id r
               then Inr \<lparr>en_epoch = er_epoch r, en_source = s,
                 en_entry = entry_of_row org r ev @ source_members s\<rparr>
               else Inl ''audit_chain_entry_malformed'')
        else Inl ''audit_chain_entry_schema_unsupported''
    | _ \<Rightarrow> Inl ''audit_chain_entry_malformed'')"

definition checkpoint_input_of :: "string \<Rightarrow> jdict option \<Rightarrow> checkpoint_input option res" where
  "checkpoint_input_of org checkpoint = (case checkpoint of
      None \<Rightarrow> Inr None
    | Some c \<Rightarrow> rbind (audit_chain_checkpoint_position c) (\<lambda>p.
        if cp_organization p \<noteq> org then Inl ''audit_chain_tenant_mismatch''
        else Inr (Some \<lparr>ck_version = cp_version p, ck_epoch = cp_epoch p, ck_sequence = cp_sequence p,
          ck_digest = cp_digest p\<rparr>)))"

definition load_inputs :: "string \<Rightarrow> checkpoint_input option \<Rightarrow> chain_store \<Rightarrow> chain_head \<Rightarrow> verification_inputs res" where
  "load_inputs org ck st h = rbind (rmap_list (entry_input_of_row org) (st_rows st)) (\<lambda>entries.
     Inr \<lparr>vi_organization = org, vi_head = h, vi_epochs = st_epochs st, vi_entries = entries,
       vi_sources = st_sources st, vi_checkpoint = ck\<rparr>)"

definition verify_audit_chain :: "(string \<Rightarrow> string) \<Rightarrow> externals \<Rightarrow> string \<Rightarrow> jdict option \<Rightarrow> chain_store
    \<Rightarrow> chain_head res" where
  "verify_audit_chain sha external org checkpoint st =
     rbind (checkpoint_input_of org checkpoint) (\<lambda>ck.
     case st_head st of
       None \<Rightarrow> if ck \<noteq> None then Inl ''audit_chain_checkpoint_mismatch''
         else Inr \<lparr>ch_organization = org, ch_version = 1, ch_epoch = 1, ch_sequence = 0, ch_digest = None\<rparr>
     | Some h \<Rightarrow> rbind (load_inputs org ck st h) (verify_audit_chain_inputs sha external))"


section \<open>Committing an event\<close>

text \<open>
  One transaction: the source event is inserted in its table (its identity is the primary key), then its
  chain entry is appended.
\<close>

definition commit_event :: "(string \<Rightarrow> string) \<Rightarrow> externals \<Rightarrow> jdict \<Rightarrow> chain_source option \<Rightarrow> chain_store
    \<Rightarrow> chain_store res" where
  "commit_event sha external ev source st = (case source_of_event ev source of
      None \<Rightarrow> Inl ''audit_chain_event_malformed''
    | Some s \<Rightarrow> if s \<in> set (keys (st_sources st)) then Inl ''IntegrityError''
        else rbind (append_audit_chain_entry sha external ev source (st\<lparr>st_sources := st_sources st @ [(s, ev)]\<rparr>))
               (\<lambda>(st', _). Inr st'))"

section \<open>The order of an entry's members does not matter\<close>

lemma verify_cong:
  assumes "\<And>f. dget e f = dget e' f" and "set (keys e) = set (keys e')"
  shows "verify_audit_chain_entry sha external e = verify_audit_chain_entry sha external e'"
proof -
  have d: "dget e = dget e'" using assms(1) by blast
  have x: "exact_keys e = exact_keys e'" by (simp add: exact_keys_def fun_eq_iff assms(2))
  have r: "value_string e = value_string e'" "value_integer e = value_integer e'" "value_mapping e = value_mapping e'"
    by (simp_all add: fun_eq_iff value_string_def value_integer_def value_mapping_def d)
  have s: "string_ok e = string_ok e'" "string_is e = string_is e'" "integer_ok e = integer_ok e'"
    "integer_is e = integer_is e'" "digest_at e = digest_at e'" "digest_or_null_at e = digest_or_null_at e'"
    "event_of e = event_of e'"
    by (simp_all add: fun_eq_iff string_ok_def string_is_def integer_ok_def integer_is_def digest_at_def
        digest_or_null_at_def event_of_def r d)
  have "validate_audit_chain_entry sha external e = validate_audit_chain_entry sha external e'"
    by (simp add: validate_audit_chain_entry_def validate_audit_chain_entry_v1_def validate_audit_chain_entry_v2_def
        position_fields_ok_def d x r s cong: option.case_cong)
  then have v: "validate_entry sha external e = validate_entry sha external e'" by (simp add: validate_entry_def)
  have "audit_chain_entry_source sha external e = audit_chain_entry_source sha external e'"
    by (simp add: audit_chain_entry_source_def v d)
  then show ?thesis
    by (simp add: fun_eq_iff verify_audit_chain_entry_def actual_digest_def v d s)
qed

section \<open>Lemmas on the loop\<close>

lemma verify_epochs_append:
  "verify_epochs sha external i pg (a @ b) = rbind (verify_epochs sha external i pg a)
     (\<lambda>pg'. verify_epochs sha external i pg' b)"
proof (induction a arbitrary: pg)
  case (Cons ep a)
  then show ?case by (cases "verify_epoch sha external i pg ep") simp_all
qed simp

lemma verify_rows_append:
  assumes "verify_rows sha external org version epoch n p rs = Inr (ds, q)"
    and "verify_audit_chain_entry sha external (fst r) org version epoch (int (n + length rs)) q (snd r) = Inr d"
  shows "verify_rows sha external org version epoch n p (rs @ [r]) = Inr (ds @ [d], Some d)"
  using assms
proof (induction rs arbitrary: n p ds)
  case (Cons x rs)
  obtain c ds' where "verify_audit_chain_entry sha external (fst x) org version epoch (int n) p (snd x) = Inr c"
    "verify_rows sha external org version epoch (Suc n) (Some c) rs = Inr (ds', q)" "ds = c # ds'"
    using Cons.prems(1) by auto
  then show ?case using Cons.IH [of "Suc n" "Some c" ds'] Cons.prems(2) by simp
qed simp

lemma verify_epoch_previous: "verify_epoch sha external i pg ep = Inr pg' \<Longrightarrow>
    pg_previous_epoch pg < ep_epoch ep \<and> pg_previous_epoch pg' = ep_epoch ep \<and> ep_epoch ep \<le> ch_epoch (vi_head i) \<and>
    (pg_active_seen pg' \<longleftrightarrow> pg_active_seen pg \<or> ep_epoch ep = ch_epoch (vi_head i))"
  by (auto simp: verify_epoch_def Let_def split: if_splits)

lemma verify_epochs_bounds:
  "verify_epochs sha external i pg eps = Inr pg' \<Longrightarrow> pg_previous_epoch pg \<le> pg_previous_epoch pg' \<and>
     (\<forall>ep \<in> set eps. pg_previous_epoch pg < ep_epoch ep \<and> ep_epoch ep \<le> pg_previous_epoch pg')"
proof (induction eps arbitrary: pg)
  case (Cons ep eps)
  obtain pg1 where "verify_epoch sha external i pg ep = Inr pg1" "verify_epochs sha external i pg1 eps = Inr pg'"
    using Cons.prems by auto
  then show ?case using verify_epoch_previous [of sha external i pg ep pg1] Cons.IH [of pg1] by force
qed simp

text \<open>A verified snapshot: its last epoch is the head's, and the entries of that epoch end at the head.\<close>

lemma verified_split:
  assumes "verify_audit_chain_inputs sha external i = Inr h"
  obtains init ep pg previous matched ds pg' where
    "vi_epochs i = init @ [ep]" "verify_epochs sha external i start_progress init = Inr pg"
    "verify_epoch sha external i pg ep = Inr pg'" "check_end i pg' = Inr ()" "check_head i = Inr ()"
    "distinct (map fst (vi_sources i))"
    "ep_epoch ep = ch_epoch h" "ep_version ep = 1" "vi_head i = h" "pg_previous_epoch pg < ch_epoch h"
    "epoch_predecessor (vi_checkpoint i) pg ep = Inr (previous, matched)"
    "verify_rows sha external (vi_organization i) 1 (ch_epoch h) 1 previous (rows_of i (ch_epoch h))
       = Inr (ds, ch_digest h)"
    "ch_sequence h = int (length ds)" "\<forall>e \<in> set init. ep_epoch e < ch_epoch h"
    "pg_verified pg' = numbered (ch_epoch h) ds @ pg_verified pg"
proof -
  have h: "vi_head i = h" and head: "check_head i = Inr ()" and src: "distinct (map fst (vi_sources i))"
    using assms by (auto simp: verify_audit_chain_inputs_def source_event_map_def split: if_splits)
  obtain pg' where pg': "verify_epochs sha external i start_progress (vi_epochs i) = Inr pg'" "check_end i pg' = Inr ()"
    using assms by (auto simp: verify_audit_chain_inputs_def)
  have prev: "pg_previous_epoch pg' = ch_epoch h" using pg'(2) h by (simp add: check_end_def split: if_splits)
  have v: "ch_version h = 1" "1 \<le> ch_epoch h"
    using head h by (auto simp: check_head_def Let_def split: if_splits)
  have "vi_epochs i \<noteq> []" using pg'(1) prev v by (auto simp: start_progress_def)
  then obtain init ep where eps: "vi_epochs i = init @ [ep]" by (metis rev_exhaust)
  obtain pg where pg: "verify_epochs sha external i start_progress init = Inr pg" "verify_epoch sha external i pg ep = Inr pg'"
    using pg'(1) unfolding eps verify_epochs_append by auto
  have e: "ep_epoch ep = ch_epoch h" "pg_previous_epoch pg < ch_epoch h"
    using verify_epoch_previous [OF pg(2)] prev by auto
  have below: "\<forall>e \<in> set init. ep_epoch e < ch_epoch h"
    using verify_epochs_bounds [OF pg(1)] e(2) by force
  obtain previous matched ds where
    "ep_version ep = 1" "epoch_predecessor (vi_checkpoint i) pg ep = Inr (previous, matched)"
    "verify_rows sha external (vi_organization i) 1 (ch_epoch h) 1 previous (rows_of i (ch_epoch h)) = Inr (ds, ch_digest h)"
    "ch_sequence h = int (length ds)" "pg_verified pg' = numbered (ch_epoch h) ds @ pg_verified pg"
    using pg(2) h v e by (auto simp: verify_epoch_def Let_def split: if_splits)
  then show ?thesis using that eps pg pg'(2) head src e h below by blast
qed

section \<open>An appended entry verifies\<close>

lemma build_shape:
  assumes b: "build_audit_chain_entry sha external ev version epoch sequence previous
      (if source = None then 1 else 2) source = Inr e" and p: "plain (JDict ev)"
  obtains n d where "canon (JDict ev) = JDict n" "plain (JDict n)" "canon (JDict n) = JDict n"
    "e = (case source of None \<Rightarrow> entry_v1 version epoch sequence previous d n
                       | Some s \<Rightarrow> entry_v2 version epoch sequence previous d s n)"
proof -
  obtain n where n: "reread ev = Some n" "canon (JDict ev) = JDict n" "plain (JDict n)" "canon (JDict n) = JDict n"
    using reread_plain [OF p] by metis
  have "\<exists>d. e = (case source of None \<Rightarrow> entry_v1 version epoch sequence previous d n
                       | Some s \<Rightarrow> entry_v2 version epoch sequence previous d s n)"
  proof (cases source)
    case None
    then obtain m d where "normalized_v1_audit_event ev = Inr m" "e = entry_v1 version epoch sequence previous d m"
      using b by (auto simp: build_audit_chain_entry_def)
    then show ?thesis using normalized_v1_shape(1) n(1) None by force
  next
    case (Some s)
    then obtain m d where "normalized_v2_source_event sha external s ev = Inr m"
      "e = entry_v2 version epoch sequence previous d s m"
      using b by (auto simp: build_audit_chain_entry_def)
    then show ?thesis using normalized_v2_shape(1) n(1) Some by force
  qed
  then show ?thesis using that n by blast
qed

lemma load_entry:
  assumes n: "plain (JDict n)" "canon (JDict n) = JDict n" "er_event_json r = dump False (canon (JDict n))"
    and id: "er_source r = None \<Longrightarrow> dget n ''id'' = JStr (er_event_id r)"
      "\<And>s. er_source r = Some s \<Longrightarrow> cs_event_id s = er_event_id r"
    and r: "er_version r = version" "er_epoch r = epoch" "er_sequence r = sequence" "er_previous r = previous"
      "er_digest r = d" "er_schema_id r = ''hormuz.commit-audit-chain-entry''"
      "er_schema_version r = (if er_source r = None then 1 else 2)"
    and org: "organization_of n = org"
    and e: "e = (case er_source r of None \<Rightarrow> entry_v1 version epoch sequence previous d n
                       | Some s \<Rightarrow> entry_v2 version epoch sequence previous d s n)"
  shows "\<exists>e'. entry_input_of_row org r = Inr \<lparr>en_epoch = epoch,
      en_source = (case er_source r of Some s \<Rightarrow> s
        | None \<Rightarrow> \<lparr>cs_schema = ''hormuz.audit-event'', cs_version = 2, cs_event_id = er_event_id r\<rparr>),
      en_entry = e'\<rparr> \<and> (\<forall>f. dget e' f = dget e f) \<and> set (keys e') = set (keys e)"
proof -
  have l: "loads (er_event_json r) = Some (JDict n)" using loads_dump [OF n(1)] n(2,3) by metis
  show ?thesis
  proof (cases "er_source r")
    case None
    have "entry_of_row org r n = e"
      using r org e None by (simp add: entry_of_row_def entry_v1_def position_members_def)
    then show ?thesis using l None r id(1) by (simp add: entry_input_of_row_def)
  next
    case (Some s)
    have "dget (entry_of_row org r n @ source_members s) f = dget e f" for f
      using r org e Some by (simp add: entry_of_row_def entry_v2_def position_members_def source_members_def)
    moreover have "set (keys (entry_of_row org r n @ source_members s)) = set (keys e)"
      using e Some by (auto simp: entry_of_row_def entry_v2_def position_members_def source_members_def)
    ultimately show ?thesis using l Some r(2,7) id(2) [OF Some] by (simp add: entry_input_of_row_def)
  qed
qed

section \<open>The invariant: the store's chain verifies\<close>

definition chain_verified :: "(string \<Rightarrow> string) \<Rightarrow> externals \<Rightarrow> string \<Rightarrow> chain_store \<Rightarrow> chain_head
    \<Rightarrow> verification_inputs \<Rightarrow> bool" where
  "chain_verified sha external org st h i \<longleftrightarrow> st_head st = Some h \<and> load_inputs org None st h = Inr i \<and>
     verify_audit_chain_inputs sha external i = Inr h \<and> (\<exists>ep \<in> set (st_epochs st). ep_epoch ep = 1) \<and>
     ch_organization h = org"

definition chain_inv :: "(string \<Rightarrow> string) \<Rightarrow> externals \<Rightarrow> string \<Rightarrow> chain_store \<Rightarrow> bool" where
  "chain_inv sha external org st \<longleftrightarrow>
     st_head st = None \<and> st_rows st = [] \<and> st_epochs st = [] \<and> st_sources st = [] \<or>
     (\<exists>h i. chain_verified sha external org st h i)"

lemma load_inputs_Inr: "load_inputs org ck st h = Inr i \<longleftrightarrow> (\<exists>es. rmap_list (entry_input_of_row org) (st_rows st) = Inr es \<and>
     i = \<lparr>vi_organization = org, vi_head = h, vi_epochs = st_epochs st, vi_entries = es,
       vi_sources = st_sources st, vi_checkpoint = ck\<rparr>)"
  by (auto simp: load_inputs_def)

lemma with_head_same: "st_head st = Some h \<Longrightarrow> \<exists>ep \<in> set (st_epochs st). ep_epoch ep = 1 \<Longrightarrow> with_head org st = (st, h)"
  by (simp add: with_head_def)

lemma with_head_fresh:
  assumes "st_head st = None" and "st_rows st = []" and "st_epochs st = []" and "distinct (keys (st_sources st))"
  shows "\<exists>st' h i. with_head org st = (st', h) \<and> chain_verified sha external org st' h i \<and>
     st_rows st' = [] \<and> st_sources st' = st_sources st"
proof -
  have "rows_of i e = []" if "vi_entries i = []" for i e using that by (simp add: rows_of_def)
  then show ?thesis using assms
    by (simp add: with_head_def chain_verified_def load_inputs_def verify_audit_chain_inputs_def check_head_def
        source_event_map_def initial_epoch_def start_progress_def check_end_def verify_epoch_def
        epoch_predecessor_def Let_def numbered_def keys_def)
qed

text \<open>What one more row, in the head's epoch, does to the loop.\<close>

lemma verify_epoch_below:
  assumes "ep_epoch ep < ch_epoch (vi_head i)" and "ch_epoch (vi_head i) \<le> ch_epoch (vi_head j)"
    and "ch_version (vi_head j) = ch_version (vi_head i)" and "vi_checkpoint j = vi_checkpoint i"
    and "vi_organization j = vi_organization i" and "rows_of j (ep_epoch ep) = rows_of i (ep_epoch ep)"
  shows "verify_epoch sha external j pg ep = verify_epoch sha external i pg ep"
  using assms by (simp add: verify_epoch_def Let_def)

lemma verify_epochs_below:
  assumes "\<forall>ep \<in> set eps. ep_epoch ep < ch_epoch (vi_head i)" and "ch_epoch (vi_head i) \<le> ch_epoch (vi_head j)"
    and "ch_version (vi_head j) = ch_version (vi_head i)" and "vi_checkpoint j = vi_checkpoint i"
    and "vi_organization j = vi_organization i"
    and "\<And>e. e < ch_epoch (vi_head i) \<Longrightarrow> rows_of j e = rows_of i e"
  shows "verify_epochs sha external j pg eps = verify_epochs sha external i pg eps"
  using assms(1)
proof (induction eps arbitrary: pg)
  case (Cons ep eps)
  then have "verify_epoch sha external j pg ep = verify_epoch sha external i pg ep"
    using verify_epoch_below [OF _ assms(2-5)] assms(6) by simp
  then show ?case using Cons by simp
qed simp

lemma extended_chain_verifies:
  assumes v: "verify_audit_chain_inputs sha external i = Inr h"
    and j: "j = i\<lparr>vi_head := h\<lparr>ch_sequence := ch_sequence h + 1, ch_digest := Some d\<rparr>,
              vi_entries := vi_entries i @ [\<lparr>en_epoch = ch_epoch h, en_source = s, en_entry = e\<rparr>],
              vi_sources := vi_sources i @ [(s, ev)]\<rparr>"
    and fresh: "s \<notin> set (keys (vi_sources i))" "\<And>en. en \<in> set (vi_entries i) \<Longrightarrow> en_source en \<noteq> s"
    and e: "verify_audit_chain_entry sha external e (vi_organization i) 1 (ch_epoch h) (ch_sequence h + 1)
              (ch_digest h) (Some ev) = Inr d"
    and hex: "is_hex64 d" and ck: "vi_checkpoint i = None"
  shows "verify_audit_chain_inputs sha external j = Inr (vi_head j)"
proof -
  obtain init ep pg previous matched ds pg' where s:
    "vi_epochs i = init @ [ep]" "verify_epochs sha external i start_progress init = Inr pg"
    "verify_epoch sha external i pg ep = Inr pg'" "check_end i pg' = Inr ()" "check_head i = Inr ()"
    "distinct (map fst (vi_sources i))"
    "ep_epoch ep = ch_epoch h" "ep_version ep = 1" "vi_head i = h" "pg_previous_epoch pg < ch_epoch h"
    "epoch_predecessor (vi_checkpoint i) pg ep = Inr (previous, matched)"
    "verify_rows sha external (vi_organization i) 1 (ch_epoch h) 1 previous (rows_of i (ch_epoch h))
       = Inr (ds, ch_digest h)"
    "ch_sequence h = int (length ds)" "\<forall>e \<in> set init. ep_epoch e < ch_epoch h"
    "pg_verified pg' = numbered (ch_epoch h) ds @ pg_verified pg"
    using verified_split [OF v] .
  have lookup: "map_of (vi_sources i @ [(s, ev)]) k = map_of (vi_sources i) k" if "k \<noteq> s" for k
    using that by (simp add: map_add_def split: option.split)
  have "map_of (vi_sources i) s = None" using map_of_NoneI [OF fresh(1)] .
  then have new: "map_of (vi_sources i @ [(s, ev)]) s = Some ev" by (simp add: map_add_def)
  have rows: "rows_of j k = rows_of i k @ (if k = ch_epoch h then [(e, Some ev)] else [])" for k
    using fresh(2) lookup new by (auto simp: j rows_of_def)
  have len: "length (rows_of i (ch_epoch h)) = length ds" using verify_rows_length [OF s(12)] by simp
  have head: "ch_version h = 1" "1 \<le> ch_epoch h"
    using s(5,9) by (auto simp: check_head_def Let_def split: if_splits)
  have "verify_rows sha external (vi_organization i) 1 (ch_epoch h) 1 previous (rows_of j (ch_epoch h)) = Inr (ds @ [d], Some d)"
    using verify_rows_append [OF s(12), of "(e, Some ev)" d] e len s(13) by (simp add: rows add.commute)
  moreover have "verify_epochs sha external j start_progress init = Inr pg"
    using verify_epochs_below [of init i j sha external] s(2,9,14) rows by (simp add: j)
  ultimately have "verify_epochs sha external j start_progress (vi_epochs j) =
      Inr \<lparr>pg_verified = numbered (ch_epoch h) (ds @ [d]) @ pg_verified pg, pg_active_seen = True,
           pg_checkpoint_matched = (pg_checkpoint_matched pg \<or> matched), pg_previous_epoch = ch_epoch h\<rparr>"
    using s(1,7-11,13) head by (simp add: j verify_epochs_append verify_epoch_def Let_def)
  moreover have "check_end j \<lparr>pg_verified = numbered (ch_epoch h) (ds @ [d]) @ pg_verified pg, pg_active_seen = True,
           pg_checkpoint_matched = (pg_checkpoint_matched pg \<or> matched), pg_previous_epoch = ch_epoch h\<rparr> = Inr ()"
  proof -
    define X where "X = set (map (fst \<circ> fst) (numbered (ch_epoch h) (ds @ [d])))"
    define Y where "Y = set (map (fst \<circ> fst) (pg_verified pg'))"
    define Z where "Z = set (map (fst \<circ> fst) (pg_verified pg))"
    have x: "ch_epoch h \<in> X" by (simp add: X_def numbered_def enumerate_append_eq)
    have y: "Y \<subseteq> insert (ch_epoch h) Z" using numbered_epoch by (force simp: Y_def Z_def s(15))
    have "\<forall>en \<in> set (vi_entries i). en_epoch en \<in> Y"
      using s(4) by (simp add: check_end_def Y_def list_all_iff split: if_splits)
    then have "\<forall>en \<in> set (vi_entries j). en_epoch en \<in> X \<union> Z" using x y by (auto simp: j)
    then have "list_all (\<lambda>en. en_epoch en \<in> set (map (fst \<circ> fst)
        (numbered (ch_epoch h) (ds @ [d]) @ pg_verified pg))) (vi_entries j)"
      unfolding X_def Z_def list_all_iff map_append set_append .
    then show ?thesis using ck by (simp add: j check_end_def)
  qed
  moreover have "check_head j = Inr ()"
    using s(5,9) hex ck by (auto simp: j check_head_def Let_def split: if_splits)
  moreover have "source_event_map (vi_sources j) = Inr (vi_sources j)"
    using s(6) fresh(1) by (simp add: j source_event_map_def keys_def)
  ultimately show ?thesis by (simp add: verify_audit_chain_inputs_def)
qed

lemma rmap_list_snoc: "rmap_list f xs = Inr ys \<Longrightarrow> f x = Inr y \<Longrightarrow> rmap_list f (xs @ [x]) = Inr (ys @ [y])"
  by (simp add: rmap_list_Inr_iff list_all2_appendI)

lemma rmap_list_origin: "rmap_list f xs = Inr ys \<Longrightarrow> y \<in> set ys \<Longrightarrow> \<exists>x \<in> set xs. f x = Inr y"
  by (induction xs arbitrary: ys) auto

lemma entry_source_id:
  assumes "entry_input_of_row org r = Inr en" shows "cs_event_id (en_source en) = er_event_id r"
  using assms by (auto simp: entry_input_of_row_def split: option.splits json.splits if_splits)

lemma commit_verified:
  assumes inv: "chain_verified sha external org st h i" and p: "plain (JDict ev)"
    and org: "dget ev ''organization_id'' = JStr org"
    and c: "commit_event sha external ev source st = Inr st'"
  shows "\<exists>h' i'. chain_verified sha external org st' h' i' \<and> ch_epoch h' = ch_epoch h \<and>
     ch_sequence h' = ch_sequence h + 1"
proof -
  obtain s where s: "source_of_event ev source = Some s" "s \<notin> set (keys (st_sources st))"
    using c by (auto simp: commit_event_def split: option.splits if_splits)
  let ?st = "st\<lparr>st_sources := st_sources st @ [(s, ev)]\<rparr>"
  have head: "with_head org ?st = (?st, h)" for org
    using inv by (intro with_head_same) (simp_all add: chain_verified_def)
  obtain h' where a: "append_audit_chain_entry sha external ev source ?st = Inr (st', h')"
    using c s by (auto simp: commit_event_def)
  obtain es where es: "rmap_list (entry_input_of_row org) (st_rows st) = Inr es"
    "i = \<lparr>vi_organization = org, vi_head = h, vi_epochs = st_epochs st, vi_entries = es,
       vi_sources = st_sources st, vi_checkpoint = None\<rparr>"
    using inv by (auto simp: chain_verified_def load_inputs_Inr)
  have v: "verify_audit_chain_inputs sha external i = Inr h" using inv by (simp add: chain_verified_def)
  have version: "ch_version h = 1"
    using v es(2) by (auto simp: verify_audit_chain_inputs_def check_head_def Let_def split: if_splits)
  have org': "value_string ev ''organization_id'' = Some org" "cs_event_id s \<noteq> []"
    using a s org by (auto simp: append_audit_chain_entry_def value_string_def split: if_splits)
  note append = a [unfolded append_audit_chain_entry_def org'(1) s(1) option.map prod.case option.case Let_def head
      if_not_P [OF org'(2)] version]
  obtain e where b: "build_audit_chain_entry sha external ev 1 (ch_epoch h) (ch_sequence h + 1)
        (ch_digest h) (if source = None then 1 else 2) source = Inr e"
    using append by auto
  obtain n d where b': "value_mapping e ''event'' = Some n" "value_string e ''event_digest'' = Some d"
    using append [unfolded b rbind_simps] by (auto split: option.splits)
  obtain tx where tx': "canonical_json_text ''audit_chain_malformed'' (JDict n) = Inr tx"
    using append [unfolded b rbind_simps b' prod.case option.case] by auto
  have rest: "\<not> (\<exists>r \<in> set (st_rows st). er_event_id r = cs_event_id s \<or> er_epoch r = ch_epoch h \<and>
      er_sequence r = ch_sequence h + 1)"
    "h' = h\<lparr>ch_sequence := ch_sequence h + 1, ch_digest := Some d\<rparr>"
    "st' = ?st\<lparr>st_rows := st_rows st @ [\<lparr>er_version = 1, er_epoch = ch_epoch h,
         er_sequence = ch_sequence h + 1, er_schema_id = ''hormuz.commit-audit-chain-entry'',
         er_schema_version = (if source = None then 1 else 2), er_event_id = cs_event_id s,
         er_previous = ch_digest h, er_digest = d, er_event_json = tx, er_source = source\<rparr>], st_head := Some h'\<rparr>"
    using append [unfolded b rbind_simps b' prod.case option.case tx'] by (simp_all split: if_splits) auto
  note h' = rest(2) and st' = rest(3)
  have unique: "\<And>r. r \<in> set (st_rows st) \<Longrightarrow> er_event_id r \<noteq> cs_event_id s" using rest(1) by blast
  let ?r = "\<lparr>er_version = 1, er_epoch = ch_epoch h,
         er_sequence = ch_sequence h + 1, er_schema_id = ''hormuz.commit-audit-chain-entry'',
         er_schema_version = (if source = None then 1 else 2), er_event_id = cs_event_id s,
         er_previous = ch_digest h, er_digest = d, er_event_json = tx, er_source = source\<rparr>"
  obtain m d' where m: "canon (JDict ev) = JDict m" "plain (JDict m)" "canon (JDict m) = JDict m"
    "e = (case source of None \<Rightarrow> entry_v1 1 (ch_epoch h) (ch_sequence h + 1) (ch_digest h) d' m
                       | Some s \<Rightarrow> entry_v2 1 (ch_epoch h) (ch_sequence h + 1) (ch_digest h) d' s m)"
    using build_shape [OF b p] .
  have nm: "n = m" "d' = d"
    using m(4) b' by (auto simp: value_mapping_def value_string_Some entry_v1_def entry_v2_def position_members_def
        source_members_def split: option.splits)
  have tx: "tx = dump False (canon (JDict m))"
    using tx' unfolding nm canonical_json_text_def by (auto split: if_splits)
  have orgm: "organization_of m = org"
    using canon_dget_scalar [OF m(1) p, of "''organization_id''"] org by (simp add: organization_of_def)
  have idm: "dget m ''id'' = JStr (cs_event_id s)" if "source = None"
    using canon_dget_scalar [OF m(1) p, of "''id''"] s(1) that by (auto simp: source_of_event_def split: json.splits)
  have sid: "cs_event_id s' = cs_event_id s" if "source = Some s'" for s'
    using s(1) that by (simp add: source_of_event_def)
  have src: "(case source of Some s \<Rightarrow> s | None \<Rightarrow> \<lparr>cs_schema = ''hormuz.audit-event'', cs_version = 2,
      cs_event_id = cs_event_id s\<rparr>) = s"
    using s(1) by (auto simp: source_of_event_def split: option.splits json.splits)
  have fields: "er_event_json ?r = dump False (canon (JDict m))" "er_version ?r = 1" "er_epoch ?r = ch_epoch h"
    "er_sequence ?r = ch_sequence h + 1" "er_previous ?r = ch_digest h" "er_digest ?r = d"
    "er_schema_id ?r = ''hormuz.commit-audit-chain-entry''" "er_schema_version ?r = (if er_source ?r = None then 1 else 2)"
    "e = (case er_source ?r of None \<Rightarrow> entry_v1 1 (ch_epoch h) (ch_sequence h + 1) (ch_digest h) d m
        | Some s \<Rightarrow> entry_v2 1 (ch_epoch h) (ch_sequence h + 1) (ch_digest h) d s m)"
    and ids: "er_source ?r = None \<Longrightarrow> dget m ''id'' = JStr (er_event_id ?r)"
      "\<And>s'. er_source ?r = Some s' \<Longrightarrow> cs_event_id s' = er_event_id ?r"
    and source: "er_source ?r = source" "er_event_id ?r = cs_event_id s"
    using m(4) nm(2) tx idm sid by (simp_all only: entry_row.simps if_True refl)
  note loaded = load_entry [OF m(2,3) fields(1) ids fields(2-8) orgm fields(9)]
  have "\<exists>e'. entry_input_of_row org ?r = Inr \<lparr>en_epoch = ch_epoch h, en_source = s, en_entry = e'\<rparr> \<and>
      (\<forall>f. dget e' f = dget e f) \<and> set (keys e') = set (keys e)"
    using loaded unfolding source src .
  then obtain e' where e': "entry_input_of_row org ?r = Inr \<lparr>en_epoch = ch_epoch h, en_source = s, en_entry = e'\<rparr>"
    "\<And>f. dget e' f = dget e f" "set (keys e') = set (keys e)" by blast
  obtain o' d'' where bv: "dget e ''organization_id'' = JStr o'" "dget e ''event_digest'' = JStr d''" "is_hex64 d''"
    "verify_audit_chain_entry sha external e o' 1 (ch_epoch h) (ch_sequence h + 1) (ch_digest h) (Some ev) = Inr d''"
    using build_verifies [OF b p] by blast
  have "o' = org" "d'' = d"
    using bv(1,2) b'(2) m(4) orgm by (auto simp: value_string_Some entry_v1_members entry_v2_members split: option.splits)
  then have ver: "verify_audit_chain_entry sha external e' org 1 (ch_epoch h) (ch_sequence h + 1) (ch_digest h) (Some ev) = Inr d"
    "is_hex64 d"
    using bv(3,4) verify_cong [OF e'(2,3), of sha external] by auto
  let ?i = "i\<lparr>vi_head := h', vi_entries := es @ [\<lparr>en_epoch = ch_epoch h, en_source = s, en_entry = e'\<rparr>],
              vi_sources := st_sources st @ [(s, ev)]\<rparr>"
  have other: "en_source en \<noteq> s" if mem: "en \<in> set es" for en
  proof -
    obtain r where "r \<in> set (st_rows st)" "entry_input_of_row org r = Inr en"
      using rmap_list_origin [OF es(1) mem] by blast
    then show ?thesis using entry_source_id unique by force
  qed
  have "verify_audit_chain_inputs sha external ?i = Inr (vi_head ?i)"
    by (rule extended_chain_verifies [OF v, where j = ?i and d = d and s = s and e = e' and ev = ev])
      (use es(2) h' s(2) other ver in \<open>simp_all\<close>)
  moreover have "rmap_list (entry_input_of_row org) (st_rows st') =
      Inr (es @ [\<lparr>en_epoch = ch_epoch h, en_source = s, en_entry = e'\<rparr>])"
  proof -
    have rows: "st_rows st' = st_rows st @ [?r]" by (simp add: st')
    show ?thesis unfolding rows by (rule rmap_list_snoc) (rule es(1), rule e'(1))
  qed
  then have "load_inputs org None st' h' = Inr ?i"
    by (simp add: load_inputs_def es(2) st')
  moreover have "st_head st' = Some h'" "st_epochs st' = st_epochs st" by (simp_all add: st')
  moreover have "vi_head ?i = h'" "ch_organization h' = ch_organization h" "ch_epoch h' = ch_epoch h"
    "ch_sequence h' = ch_sequence h + 1" by (simp_all add: h')
  ultimately show ?thesis
    using inv unfolding chain_verified_def by (intro exI [of _ h'] exI [of _ ?i]) simp
qed

section \<open>A new epoch\<close>

lemma verify_rows_nth:
  assumes "verify_rows sha external org version epoch n p rs = Inr (ds, q)" and "k < length rs"
  shows "\<exists>prev. verify_audit_chain_entry sha external (fst (rs ! k)) org version epoch (int (n + k)) prev (snd (rs ! k))
     = Inr (ds ! k)"
  using assms
proof (induction rs arbitrary: n p ds k)
  case (Cons x rs)
  obtain c ds' where c: "verify_audit_chain_entry sha external (fst x) org version epoch (int n) p (snd x) = Inr c"
    "verify_rows sha external org version epoch (Suc n) (Some c) rs = Inr (ds', q)" "ds = c # ds'"
    using Cons.prems(1) by auto
  show ?case
  proof (cases k)
    case (Suc m)
    then show ?thesis using Cons.IH [OF c(2), of m] c(3) Cons.prems(2) by simp
  qed (use c in auto)
qed simp

lemma entry_row_members:
  assumes "entry_input_of_row org r = Inr en"
  shows "en_epoch en = er_epoch r" "dget (en_entry en) ''sequence'' = JInt (er_sequence r)"
    "dget (en_entry en) ''event_digest'' = JStr (er_digest r)"
  using assms by (auto simp: entry_input_of_row_def entry_of_row_def source_members_def
      split: option.splits json.splits if_splits)

lemma rmap_list_image: "rmap_list f xs = Inr ys \<Longrightarrow> x \<in> set xs \<Longrightarrow> \<exists>y \<in> set ys. f x = Inr y"
  by (induction xs arbitrary: ys) auto

lemma checkpoint_positionD:
  "audit_chain_checkpoint_position c = Inr p \<Longrightarrow>
     cp_version p = 1 \<and> 1 \<le> cp_epoch p \<and> 1 \<le> cp_sequence p \<and> is_hex64 (cp_digest p)"
  by (auto simp: audit_chain_checkpoint_position_def validate_checkpoint_def validate_audit_chain_checkpoint_def
      position_fields_ok_def value_string_Some value_integer_Some
      dest!: integer_isD integer_okD digest_atD split: if_splits option.splits)

text \<open>Every stored row is verified: its digest is the one the loop holds for its position.\<close>

lemma stored_row_verified:
  assumes v: "verify_audit_chain_inputs sha external i = Inr h"
    and en: "en \<in> set (vi_entries i)" "dget (en_entry en) ''sequence'' = JInt sq"
      "dget (en_entry en) ''event_digest'' = JStr d"
  shows "en_epoch en \<le> ch_epoch h" "\<exists>pg. verify_epochs sha external i start_progress (vi_epochs i) = Inr pg \<and>
     map_of (pg_verified pg) (en_epoch en, sq) = Some d"
proof -
  obtain pg where pg: "verify_epochs sha external i start_progress (vi_epochs i) = Inr pg" "check_end i pg = Inr ()"
    and head: "check_head i = Inr ()" and h: "vi_head i = h"
    using v by (auto simp: verify_audit_chain_inputs_def)
  have inv: "progress_inv sha external i pg"
    using verify_epochs_inv [OF pg(1) start_inv] head by (auto simp: check_head_def Let_def split: if_splits)
  have "en_epoch en \<in> set (map (fst \<circ> fst) (pg_verified pg))"
    using pg(2) en(1) by (simp add: check_end_def list_all_iff split: if_splits)
  then have mem: "en_epoch en \<in> fst ` fst ` set (pg_verified pg)" by force
  have prev: "pg_previous_epoch pg = ch_epoch h" using pg(2) h by (simp add: check_end_def split: if_splits)
  have "en_epoch en \<le> pg_previous_epoch pg" using inv mem unfolding progress_inv_def by blast
  then show "en_epoch en \<le> ch_epoch h" using prev by simp
  let ?e = "en_epoch en"
  obtain ds p q where ds: "verify_rows sha external (vi_organization i) 1 ?e 1 p (rows_of i ?e) = Inr (ds, q)"
    and at: "\<And>s. map_of (pg_verified pg) (?e, s) = map_of (numbered ?e ds) (?e, s)"
    using inv mem unfolding progress_inv_def verified_rows_def by metis
  have "(en_entry en, map_of (vi_sources i) (en_source en)) \<in> set (rows_of i ?e)"
    using en(1) by (simp add: rows_of_def)
  then obtain k where k: "k < length (rows_of i ?e)" "fst (rows_of i ?e ! k) = en_entry en"
    by (metis fst_conv in_set_conv_nth)
  obtain prev where ver: "verify_audit_chain_entry sha external (en_entry en) (vi_organization i) 1 ?e (int (1 + k)) prev
      (snd (rows_of i ?e ! k)) = Inr (ds ! k)"
    using verify_rows_nth [OF ds k(1)] k(2) by auto
  have "sq = int (1 + k)" "d = ds ! k" using verifyD(5,7) [OF ver] en(2,3) by simp_all
  moreover from this have "nat sq - 1 = k" by linarith
  ultimately have "map_of (pg_verified pg) (?e, sq) = Some d"
    using k(1) verify_rows_length [OF ds] by (simp add: at map_of_numbered)
  then show "\<exists>pg. verify_epochs sha external i start_progress (vi_epochs i) = Inr pg \<and>
     map_of (pg_verified pg) (?e, sq) = Some d" using pg(1) by blast
qed

lemma new_epoch_verifies:
  assumes v: "verify_audit_chain_inputs sha external i = Inr h" and ck: "vi_checkpoint i = None"
    and at: "\<exists>pg. verify_epochs sha external i start_progress (vi_epochs i) = Inr pg \<and>
      map_of (pg_verified pg) (ch_epoch h, sq) = Some d"
    and bounds: "\<And>en. en \<in> set (vi_entries i) \<Longrightarrow> en_epoch en \<le> ch_epoch h"
    and r: "reason \<in> {''restore'', ''migration''}" "is_hex64 d" "1 \<le> sq"
    and j: "j = i\<lparr>vi_head := h\<lparr>ch_epoch := ch_epoch h + 1, ch_sequence := 0, ch_digest := Some d\<rparr>,
       vi_epochs := vi_epochs i @ [\<lparr>ep_version = 1, ep_epoch = ch_epoch h + 1, ep_reason = JStr reason,
         ep_pred_epoch = JInt (ch_epoch h), ep_pred_sequence = JInt sq, ep_pred_digest = JStr d\<rparr>]\<rparr>"
  shows "verify_audit_chain_inputs sha external j = Inr (vi_head j)"
proof -
  obtain init ep pg previous matched ds pg' where s:
    "vi_epochs i = init @ [ep]" "verify_epochs sha external i start_progress init = Inr pg"
    "verify_epoch sha external i pg ep = Inr pg'" "check_end i pg' = Inr ()" "check_head i = Inr ()"
    "distinct (map fst (vi_sources i))"
    "ep_epoch ep = ch_epoch h" "ep_version ep = 1" "vi_head i = h" "pg_previous_epoch pg < ch_epoch h"
    "epoch_predecessor (vi_checkpoint i) pg ep = Inr (previous, matched)"
    "verify_rows sha external (vi_organization i) 1 (ch_epoch h) 1 previous (rows_of i (ch_epoch h))
       = Inr (ds, ch_digest h)"
    "ch_sequence h = int (length ds)" "\<forall>e \<in> set init. ep_epoch e < ch_epoch h"
    "pg_verified pg' = numbered (ch_epoch h) ds @ pg_verified pg"
    using verified_split [OF v] .
  have head: "ch_version h = 1" "1 \<le> ch_epoch h"
    using s(5,9) by (auto simp: check_head_def Let_def split: if_splits)
  have rows: "rows_of j = rows_of i" by (simp add: j rows_of_def fun_eq_iff)
  have none: "rows_of i (ch_epoch h + 1) = []" using bounds by (force simp: rows_of_def filter_empty_conv)
  have first: "verify_epochs sha external j start_progress init = Inr pg"
    using verify_epochs_below [of init i j sha external] s(2,9,14) rows by (simp add: j)
  let ?pg = "\<lparr>pg_verified = pg_verified pg', pg_active_seen = pg_active_seen pg,
      pg_checkpoint_matched = (pg_checkpoint_matched pg \<or> matched), pg_previous_epoch = ch_epoch h\<rparr>"
  have second: "verify_epoch sha external j pg ep = Inr ?pg"
    using s(7-13,15) head rows by (simp add: j verify_epoch_def Let_def)
  have "map_of (pg_verified pg') (ch_epoch h, sq) = Some d"
    using at s(1,2,3) by (auto simp: verify_epochs_append)
  then have third: "verify_epoch sha external j ?pg \<lparr>ep_version = 1, ep_epoch = ch_epoch h + 1, ep_reason = JStr reason,
         ep_pred_epoch = JInt (ch_epoch h), ep_pred_sequence = JInt sq, ep_pred_digest = JStr d\<rparr> =
      Inr (?pg\<lparr>pg_active_seen := True, pg_previous_epoch := ch_epoch h + 1\<rparr>)"
    using r head rows none by (auto simp: j verify_epoch_def Let_def epoch_predecessor_def numbered_def)
  have "verify_epochs sha external j start_progress (vi_epochs j) =
      Inr (?pg\<lparr>pg_active_seen := True, pg_previous_epoch := ch_epoch h + 1\<rparr>)"
    using s(1) first second third by (simp add: j verify_epochs_append)
  moreover have "check_end j (?pg\<lparr>pg_active_seen := True, pg_previous_epoch := ch_epoch h + 1\<rparr>) = Inr ()"
    using s(4) ck by (simp add: j check_end_def split: if_splits)
  moreover have "check_head j = Inr ()"
    using s(5,9) r(2) ck head by (auto simp: j check_head_def Let_def split: if_splits)
  moreover have "source_event_map (vi_sources j) = Inr (vi_sources j)"
    using s(6) by (simp add: j source_event_map_def)
  ultimately show ?thesis by (simp add: verify_audit_chain_inputs_def)
qed

lemma begin_epoch_verified:
  assumes inv: "chain_verified sha external org st h i"
    and rec: "record_audit_chain_checkpoint c artifact backend object_version st = Inr st1"
    and beg: "begin_audit_chain_epoch c reason st1 = Inr (st', h')"
    and org: "dget c ''organization_id'' = JStr org"
  shows "\<exists>i'. chain_verified sha external org st' h' i' \<and> ch_epoch h' = ch_epoch h + 1"
proof -
  have v: "verify_audit_chain_inputs sha external i = Inr h" and head: "st_head st = Some h"
    and one: "\<exists>ep \<in> set (st_epochs st). ep_epoch ep = 1" and horg: "ch_organization h = org"
    using inv by (simp_all add: chain_verified_def)
  obtain es where es: "rmap_list (entry_input_of_row org) (st_rows st) = Inr es"
    "i = \<lparr>vi_organization = org, vi_head = h, vi_epochs = st_epochs st, vi_entries = es,
       vi_sources = st_sources st, vi_checkpoint = None\<rparr>"
    using inv by (auto simp: chain_verified_def load_inputs_Inr)
  obtain p where p: "audit_chain_checkpoint_position c = Inr p"
    using rec by (auto simp: record_audit_chain_checkpoint_def)
  note pd = checkpoint_positionD [OF p]
  obtain r where r: "find (\<lambda>r. er_epoch r = cp_epoch p \<and> er_sequence r = cp_sequence p) (st_rows st) = Some r"
    "er_digest r = cp_digest p"
    using rec p by (auto simp: record_audit_chain_checkpoint_def split: if_splits option.splits)
  then have r': "r \<in> set (st_rows st)" "er_epoch r = cp_epoch p" "er_sequence r = cp_sequence p"
    by (auto simp: find_Some_iff)
  have st1: "st_head st1 = st_head st" "st_epochs st1 = st_epochs st" "st_rows st1 = st_rows st" "st_sources st1 = st_sources st"
    using rec p r by (auto simp: record_audit_chain_checkpoint_def Let_def split: if_splits option.splits)
  have wh: "with_head (cp_organization p) st1 = (st1, h)"
    using with_head_same head one st1 by simp
  have epoch: "ch_epoch h < cp_epoch p + 1" and reason: "reason \<in> {''restore'', ''migration''}"
    using beg p wh by (auto simp: begin_audit_chain_epoch_def Let_def split: if_splits)
  obtain en where en: "en \<in> set es" "entry_input_of_row org r = Inr en"
    using rmap_list_image [OF es(1) r'(1)] by blast
  note m = entry_row_members [OF en(2)]
  have eni: "en \<in> set (vi_entries i)" using en(1) es(2) by simp
  note stored = stored_row_verified [OF v eni m(2,3)]
  have same: "cp_epoch p = ch_epoch h" using stored(1) m(1) r'(2) epoch by simp
  have bounds: "en_epoch en \<le> ch_epoch h" if mem: "en \<in> set (vi_entries i)" for en
  proof -
    have "en \<in> set es" using mem es(2) by simp
    from rmap_list_origin [OF es(1) this] obtain r where r2: "entry_input_of_row org r = Inr en" by blast
    show ?thesis by (rule stored_row_verified(1) [OF v mem entry_row_members(2,3) [OF r2]])
  qed
  have below: "ep_epoch ep \<noteq> ch_epoch h + 1" if mem: "ep \<in> set (st_epochs st)" for ep
  proof -
    obtain pg where "verify_epochs sha external i start_progress (vi_epochs i) = Inr pg" "pg_previous_epoch pg = ch_epoch h"
      using v es(2) by (auto simp: verify_audit_chain_inputs_def check_end_def split: if_splits)
    then show ?thesis using verify_epochs_bounds mem es(2) by force
  qed
  then have nofind: "find (\<lambda>ep. ep_epoch ep = ch_epoch h + 1) (st_epochs st) = None"
    by (auto simp: find_None_iff)
  let ?row = "\<lparr>ep_version = 1, ep_epoch = ch_epoch h + 1, ep_reason = JStr reason,
     ep_pred_epoch = JInt (ch_epoch h), ep_pred_sequence = JInt (cp_sequence p), ep_pred_digest = JStr (cp_digest p)\<rparr>"
  have h': "h' = h\<lparr>ch_epoch := ch_epoch h + 1, ch_sequence := 0, ch_digest := Some (cp_digest p)\<rparr>"
    and st': "st' = st1\<lparr>st_epochs := st_epochs st @ [?row], st_head := Some h'\<rparr>"
    using beg p wh same pd nofind below st1(2)
    by (auto simp: begin_audit_chain_epoch_def Let_def split: if_splits)
  let ?i = "i\<lparr>vi_head := h', vi_epochs := vi_epochs i @ [?row]\<rparr>"
  have digest: "dget (en_entry en) ''event_digest'' = JStr (cp_digest p)" using m(3) r(2) by simp
  have "verify_audit_chain_inputs sha external ?i = Inr (vi_head ?i)"
  proof (rule new_epoch_verifies [OF v])
    show "\<exists>pg. verify_epochs sha external i start_progress (vi_epochs i) = Inr pg \<and>
        map_of (pg_verified pg) (ch_epoch h, cp_sequence p) = Some (cp_digest p)"
      using stored(2) m(1) r' r(2) same by simp
  qed (use es(2) bounds reason pd h' in auto)
  moreover have "load_inputs org None st' h' = Inr ?i"
    using es(1) st1 by (simp add: load_inputs_def es(2) st')
  ultimately show ?thesis
    using one horg by (intro exI [of _ ?i]) (simp add: chain_verified_def st' h')
qed

section \<open>Every committed history verifies\<close>

text \<open>What happens to the chain of one organization: events are committed, epochs begun.\<close>

inductive chain_step :: "(string \<Rightarrow> string) \<Rightarrow> externals \<Rightarrow> string \<Rightarrow> chain_store \<Rightarrow> chain_store \<Rightarrow> bool"
  for sha external org where
  commit: "commit_event sha external ev source st = Inr st' \<Longrightarrow> plain (JDict ev) \<Longrightarrow>
     dget ev ''organization_id'' = JStr org \<Longrightarrow> chain_step sha external org st st'"
| anchor: "record_audit_chain_checkpoint c artifact backend object_version st = Inr st' \<Longrightarrow>
     chain_step sha external org st st'"
| epoch: "record_audit_chain_checkpoint c artifact backend object_version st = Inr st1 \<Longrightarrow>
     begin_audit_chain_epoch c reason st1 = Inr (st', h) \<Longrightarrow>
     dget c ''organization_id'' = JStr org \<Longrightarrow> chain_step sha external org st st'"

inductive_cases chain_stepE: "chain_step sha external org st st'"

inductive chain_reachable :: "(string \<Rightarrow> string) \<Rightarrow> externals \<Rightarrow> string \<Rightarrow> chain_store \<Rightarrow> bool"
  for sha external org where
  initial: "chain_reachable sha external org empty_store"
| step: "chain_reachable sha external org st \<Longrightarrow> chain_step sha external org st st' \<Longrightarrow>
     chain_reachable sha external org st'"

lemma empty_rows_no_checkpoint: "st_rows st = [] \<Longrightarrow> record_audit_chain_checkpoint c artifact backend ov st \<noteq> Inr st'"
  by (auto simp: record_audit_chain_checkpoint_def)

lemma commit_inv:
  assumes inv: "chain_inv sha external org st" and p: "plain (JDict ev)"
    and org: "dget ev ''organization_id'' = JStr org"
    and c: "commit_event sha external ev source st = Inr st'"
  shows "chain_inv sha external org st'"
proof (cases "st_head st")
  case (Some h)
  then show ?thesis using inv commit_verified [OF _ p org c] unfolding chain_inv_def by fastforce
next
  case None
  then have e: "st_rows st = []" "st_epochs st = []" "st_sources st = []"
    using inv by (auto simp: chain_inv_def chain_verified_def)
  obtain st1 h i where w: "with_head org st = (st1, h)" "chain_verified sha external org st1 h i"
    "st_rows st1 = []" "st_sources st1 = []"
    using with_head_fresh [OF None e(1,2), where sha = sha and external = external and org = org] e(3) by auto
  have ne: "value_string ev ''organization_id'' = Some org"
    using c org by (auto simp: commit_event_def append_audit_chain_entry_def value_string_def split: option.splits if_splits)
  have "with_head org (st\<lparr>st_sources := x\<rparr>) = (st1\<lparr>st_sources := x\<rparr>, h)" for x
    using w(1) None e by (auto simp: with_head_def Let_def)
  moreover have "with_head org (st1\<lparr>st_sources := x\<rparr>) = (st1\<lparr>st_sources := x\<rparr>, h)" for x
    using w(2) by (intro with_head_same) (simp_all add: chain_verified_def)
  ultimately have "commit_event sha external ev source st1 = commit_event sha external ev source st"
    using e(3) w(4) ne by (simp add: commit_event_def append_audit_chain_entry_def split: option.split)
  then have "\<exists>h' i'. chain_verified sha external org st' h' i'"
    using commit_verified [OF w(2) p org] c by fastforce
  then show ?thesis by (simp add: chain_inv_def)
qed

lemma anchor_inv:
  assumes inv: "chain_inv sha external org st"
    and rec: "record_audit_chain_checkpoint c artifact backend object_version st = Inr st'"
  shows "chain_inv sha external org st'"
proof -
  have "st_head st' = st_head st" "st_epochs st' = st_epochs st" "st_rows st' = st_rows st" "st_sources st' = st_sources st"
    using rec by (auto simp: record_audit_chain_checkpoint_def Let_def split: if_splits option.splits)
  then show ?thesis using inv by (simp add: chain_inv_def chain_verified_def load_inputs_def)
qed

lemma chain_step_inv:
  assumes "chain_step sha external org st st'" and "chain_inv sha external org st"
  shows "chain_inv sha external org st'"
  using assms(1)
proof cases
  case (commit ev source)
  then show ?thesis using commit_inv [OF assms(2)] by blast
next
  case (anchor c artifact backend ov)
  then show ?thesis using anchor_inv [OF assms(2)] by blast
next
  case (epoch c artifact backend ov st1 reason h)
  have "st_rows st \<noteq> []" using epoch(1) empty_rows_no_checkpoint by blast
  then obtain h0 i where "chain_verified sha external org st h0 i"
    using assms(2) by (auto simp: chain_inv_def)
  from begin_epoch_verified [OF this epoch(1-3)] show ?thesis by (auto simp: chain_inv_def)
qed

lemma chain_reachable_inv: "chain_reachable sha external org st \<Longrightarrow> chain_inv sha external org st"
proof (induction rule: chain_reachable.induct)
  case initial
  show ?case by (simp add: chain_inv_def empty_store_def)
qed (rule chain_step_inv)

section \<open>Recorded checkpoints\<close>

lemma with_head_rows: "with_head org st = (st', h) \<Longrightarrow> st_rows st' = st_rows st"
  by (auto simp: with_head_def Let_def split: option.splits if_splits)

lemma append_rows:
  assumes a: "append_audit_chain_entry sha external ev source st = Inr (st', h)"
  shows "\<exists>r. st_rows st' = st_rows st @ [r]"
proof -
  obtain org event_id where k: "value_string ev ''organization_id'' = Some org"
    "map_option cs_event_id (source_of_event ev source) = Some event_id" "event_id \<noteq> []"
    using a by (auto simp: append_audit_chain_entry_def split: option.splits if_splits)
  obtain st2 h2 where w: "with_head org st = (st2, h2)" by fastforce
  note a1 = a [unfolded append_audit_chain_entry_def k(1,2) prod.case option.case if_not_P [OF k(3)] w Let_def]
  obtain e where e: "build_audit_chain_entry sha external ev (ch_version h2) (ch_epoch h2) (ch_sequence h2 + 1)
      (ch_digest h2) (if source = None then 1 else 2) source = Inr e"
    using a1 by auto
  note a2 = a1 [unfolded e rbind_simps]
  obtain n d where nd: "value_mapping e ''event'' = Some n" "value_string e ''event_digest'' = Some d"
    using a2 by (auto split: option.splits)
  note a3 = a2 [unfolded nd prod.case option.case]
  obtain tx where "canonical_json_text ''audit_chain_malformed'' (JDict n) = Inr tx" using a3 by auto
  from a3 [unfolded this rbind_simps] show ?thesis
    using with_head_rows [OF w] by (auto split: if_splits)
qed

lemma step_extends_rows:
  assumes "chain_step sha external org st st'" shows "\<exists>rs. st_rows st' = st_rows st @ rs"
  using assms
proof cases
  case (commit ev source)
  then obtain x h where "append_audit_chain_entry sha external ev source (st\<lparr>st_sources := x\<rparr>) = Inr (st', h)"
    by (auto simp: commit_event_def split: option.splits if_splits)
  from append_rows [OF this] show ?thesis by auto
next
  case (anchor c artifact backend ov)
  then show ?thesis by (auto simp: record_audit_chain_checkpoint_def Let_def split: if_splits option.splits)
next
  case (epoch c artifact backend ov st1 reason h)
  have "st_rows st1 = st_rows st"
    using epoch(1) by (auto simp: record_audit_chain_checkpoint_def Let_def split: if_splits option.splits)
  moreover have "st_rows st' = st_rows st1"
  proof -
    obtain p where p: "audit_chain_checkpoint_position c = Inr p" "reason \<in> {''restore'', ''migration''}"
      using epoch(2) by (auto simp: begin_audit_chain_epoch_def split: if_splits)
    obtain st2 h2 where w: "with_head (cp_organization p) st1 = (st2, h2)" by fastforce
    show ?thesis
      using epoch(2) p w with_head_rows [OF w] by (auto simp: begin_audit_chain_epoch_def Let_def split: if_splits)
  qed
  ultimately show ?thesis by simp
qed

lemma steps_extend_rows: "(chain_step sha external org)\<^sup>*\<^sup>* st st' \<Longrightarrow> \<exists>rs. st_rows st' = st_rows st @ rs"
proof (induction rule: rtranclp_induct)
  case (step y z)
  then show ?case using step_extends_rows [of sha external org y z] by auto
qed simp

lemma steps_reachable: "(chain_step sha external org)\<^sup>*\<^sup>* st st' \<Longrightarrow> chain_reachable sha external org st \<Longrightarrow>
    chain_reachable sha external org st'"
  by (induction rule: rtranclp_induct) (auto intro: chain_reachable.step)

text \<open>A snapshot that verifies alone verifies against every checkpoint whose digest it holds.\<close>

lemma verify_epoch_checkpoint:
  assumes "verify_epoch sha external i pg ep = Inr pg'" and "vi_checkpoint i = None"
  shows "verify_epoch sha external (i\<lparr>vi_checkpoint := ck\<rparr>) pg ep = Inr pg'"
proof -
  have "epoch_predecessor ck pg ep = epoch_predecessor None pg ep" if "epoch_predecessor None pg ep = Inr x" for x
    using that by (auto simp: epoch_predecessor_def checkpoint_is_def split: if_splits json.splits option.splits)
  moreover have "rows_of (i\<lparr>vi_checkpoint := ck\<rparr>) = rows_of i" by (simp add: rows_of_def fun_eq_iff)
  ultimately show ?thesis using assms by (auto simp: verify_epoch_def Let_def split: if_splits)
qed

lemma verify_epochs_checkpoint:
  assumes "verify_epochs sha external i pg eps = Inr pg'" and "vi_checkpoint i = None"
  shows "verify_epochs sha external (i\<lparr>vi_checkpoint := ck\<rparr>) pg eps = Inr pg'"
  using assms by (induction eps arbitrary: pg) (auto dest: verify_epoch_checkpoint)

lemma verify_checkpoint:
  assumes v: "verify_audit_chain_inputs sha external i = Inr h" and n: "vi_checkpoint i = None"
    and version: "ck_version ck = 1"
    and at: "\<exists>pg. verify_epochs sha external i start_progress (vi_epochs i) = Inr pg \<and>
      map_of (pg_verified pg) (ck_epoch ck, ck_sequence ck) = Some (ck_digest ck)"
  shows "verify_audit_chain_inputs sha external (i\<lparr>vi_checkpoint := Some ck\<rparr>) = Inr h"
proof -
  obtain pg where pg: "verify_epochs sha external i start_progress (vi_epochs i) = Inr pg" "check_end i pg = Inr ()"
    "check_head i = Inr ()" "vi_head i = h" "source_event_map (vi_sources i) = Inr (vi_sources i)"
    using v by (auto simp: verify_audit_chain_inputs_def source_event_map_def split: if_splits)
  have "check_end (i\<lparr>vi_checkpoint := Some ck\<rparr>) pg = Inr ()"
    using pg(1,2) at by (auto simp: check_end_def split: if_splits)
  moreover have "check_head (i\<lparr>vi_checkpoint := Some ck\<rparr>) = Inr ()"
    using pg(3) version by (auto simp: check_head_def Let_def split: if_splits)
  ultimately show ?thesis
    using verify_epochs_checkpoint [OF pg(1) n] pg(4,5) by (simp add: verify_audit_chain_inputs_def)
qed

lemma recorded_checkpoint_verifies:
  assumes inv: "chain_verified sha external org st h i"
    and p: "audit_chain_checkpoint_position c = Inr p" "cp_organization p = org"
    and r: "r \<in> set (st_rows st)" "er_epoch r = cp_epoch p" "er_sequence r = cp_sequence p" "er_digest r = cp_digest p"
  shows "verify_audit_chain sha external org (Some c) st = Inr h"
proof -
  have v: "verify_audit_chain_inputs sha external i = Inr h" and head: "st_head st = Some h"
    using inv by (simp_all add: chain_verified_def)
  obtain es where es: "rmap_list (entry_input_of_row org) (st_rows st) = Inr es"
    "i = \<lparr>vi_organization = org, vi_head = h, vi_epochs = st_epochs st, vi_entries = es,
       vi_sources = st_sources st, vi_checkpoint = None\<rparr>"
    using inv by (auto simp: chain_verified_def load_inputs_Inr)
  obtain en where en: "en \<in> set es" "entry_input_of_row org r = Inr en"
    using rmap_list_image [OF es(1) r(1)] by blast
  note m = entry_row_members [OF en(2)]
  have eni: "en \<in> set (vi_entries i)" using en(1) es(2) by simp
  let ?ck = "\<lparr>ck_version = cp_version p, ck_epoch = cp_epoch p, ck_sequence = cp_sequence p, ck_digest = cp_digest p\<rparr>"
  have "verify_audit_chain_inputs sha external (i\<lparr>vi_checkpoint := Some ?ck\<rparr>) = Inr h"
    using stored_row_verified(2) [OF v eni m(2,3)] m(1) r(2-4) checkpoint_positionD [OF p(1)] es(2)
    by (intro verify_checkpoint [OF v]) simp_all
  then show ?thesis
    using p es head by (simp add: verify_audit_chain_def checkpoint_input_of_def load_inputs_def)
qed


definition example_source :: chain_source where
  "example_source = \<lparr>cs_schema = ''hormuz.audit-event'', cs_version = 2, cs_event_id = ''e1''\<rparr>"

definition example_store :: chain_store where
  "example_store = \<lparr>
     st_head = Some \<lparr>ch_organization = ''org'', ch_version = 1, ch_epoch = 1, ch_sequence = 1, ch_digest = Some example_digest\<rparr>,
     st_epochs = [initial_epoch],
     st_rows = [\<lparr>er_version = 1, er_epoch = 1, er_sequence = 1, er_schema_id = ''hormuz.commit-audit-chain-entry'',
       er_schema_version = 1, er_event_id = ''e1'', er_previous = None, er_digest = example_digest,
       er_event_json = dump False (canon (JDict audit_example)), er_source = None\<rparr>],
     st_sources = [(example_source, audit_example)], st_checkpoints = []\<rparr>"

lemma example_committed: "commit_event example_sha no_externals audit_example None empty_store = Inr example_store"
proof -
  have ids: "source_of_event audit_example None = Some example_source" "value_string audit_example ''organization_id'' = Some ''org''"
    by (simp_all add: source_of_event_def value_string_def audit_example_def example_source_def)
  have head: "with_head ''org'' (empty_store\<lparr>st_sources := [(example_source, audit_example)]\<rparr>) =
      (example_store\<lparr>st_rows := [], st_head := Some \<lparr>ch_organization = ''org'', ch_version = 1, ch_epoch = 1,
         ch_sequence = 0, ch_digest = None\<rparr>\<rparr>,
       \<lparr>ch_organization = ''org'', ch_version = 1, ch_epoch = 1, ch_sequence = 0, ch_digest = None\<rparr>)"
    by (simp add: with_head_def empty_store_def example_store_def Let_def)
  have members: "value_mapping (entry_v1 1 1 1 None example_digest audit_example) ''event'' = Some audit_example"
    "value_string (entry_v1 1 1 1 None example_digest audit_example) ''event_digest'' = Some example_digest"
    by (simp_all add: value_mapping_def value_string_def entry_v1_def position_members_def example_sha_def)
  have tx: "canonical_json_text ''audit_chain_malformed'' (JDict audit_example) =
      Inr (dump False (canon (JDict audit_example)))"
    using plain_finite [OF audit_example_plain] by (simp only: canonical_json_text_def if_True)
  have id: "map_option cs_event_id (source_of_event audit_example None) = Some ''e1''"
    by (simp add: ids example_source_def)
  have "append_audit_chain_entry example_sha no_externals audit_example None
      (empty_store\<lparr>st_sources := [(example_source, audit_example)]\<rparr>) = Inr (example_store, the (st_head example_store))"
    unfolding append_audit_chain_entry_def ids(2) id prod.case option.case head Let_def
    by (simp add: audit_example_built members tx del: canon.simps finite_tree.simps dump.simps)
      (simp add: example_store_def)
  moreover have "st_sources empty_store = []" by (simp add: empty_store_def)
  ultimately show ?thesis by (simp add: commit_event_def ids(1))
qed

lemma example_chain_reachable: "chain_reachable example_sha no_externals ''org'' example_store"
proof (rule chain_reachable.step [OF chain_reachable.initial chain_step.commit [OF example_committed audit_example_plain]])
  show "dget audit_example ''organization_id'' = JStr ''org''" by (simp add: audit_example_def)
qed



lemma example_position: "audit_chain_checkpoint_position example_artifact = Inr
    \<lparr>cp_id = ''00000000-0000-4000-8000-000000000000'', cp_organization = ''org'', cp_version = 1, cp_epoch = 1,
     cp_sequence = 1, cp_digest = example_digest\<rparr>"
  by code_simp


end
