(* ===== verification/Account_Binding.thy ===== *)
theory Account_Binding
  imports Audit_Store
begin

text \<open>
  The finance account side of an attempt: the closed evidence records of
  \<^verbatim>\<open>src/hormuz/finance_account_evidence.py\<close> and the capture of
  \<^verbatim>\<open>src/hormuz/finance_account_capture.py\<close>, which decides under the rows of the store whether an attempt
  is bound to a registered provider account, and says why when it is not. A stored time is a text
  \<^verbatim>\<open>isoformat\<close> writes, with the offset or with \<^verbatim>\<open>Z\<close>. The identity of a source binding row
  (\<^verbatim>\<open>finance_collection.py\<close>) is the parameter \<open>external\<close>.
\<close>

section \<open>Values\<close>

definition account_error :: string where
  "account_error = ''finance_account_evidence_invalid''"

definition canonical_evidence_text :: "json \<Rightarrow> string res" where
  "canonical_evidence_text v = canonical_json_text account_error v"

definition account_identifier :: "json \<Rightarrow> bool" where
  "account_identifier v = (case v of JStr s \<Rightarrow> identifier_text s | _ \<Rightarrow> False)"

definition identity_text :: "json \<Rightarrow> bool" where
  "identity_text v = (case v of JStr s \<Rightarrow> len_between 1 128 s | _ \<Rightarrow> False)"

definition account_version :: "json \<Rightarrow> bool" where
  "account_version v = (case v of JInt i \<Rightarrow> 1 \<le> i \<and> i \<le> 2147483647 | _ \<Rightarrow> False)"

definition nonnegative_int64 :: "json \<Rightarrow> bool" where
  "nonnegative_int64 v = (case v of JInt i \<Rightarrow> 0 \<le> i \<and> i \<le> max_integer | _ \<Rightarrow> False)"

definition account_uuid :: "json \<Rightarrow> bool" where
  "account_uuid v = (case v of JStr s \<Rightarrow> uuid_text s \<and> s = lower s | _ \<Rightarrow> False)"

definition account_sha256 :: "json \<Rightarrow> bool" where
  "account_sha256 v = (case v of JStr s \<Rightarrow> is_hex64 s | _ \<Rightarrow> False)"

definition zulu_to_offset :: "string \<Rightarrow> string" where
  "zulu_to_offset s = concat (map (\<lambda>c. if c = CHR ''Z'' then ''+00:00'' else [c]) s)"

definition account_timestamp :: "json \<Rightarrow> bool" where
  "account_timestamp v = (case v of JStr s \<Rightarrow> utc_timestamp (zulu_to_offset s) | _ \<Rightarrow> False)"

definition scope_fingerprints :: "json \<Rightarrow> bool" where
  "scope_fingerprints v = (case v of
      JStr s \<Rightarrow> 2 \<le> utf8_len s \<and> utf8_len s \<le> 65536 \<and>
        (case loads s of
           Some (JList items) \<Rightarrow> list_all account_sha256 items \<and>
             sorted_wrt (\<lambda>a b. case (a, b) of (JStr x, JStr y) \<Rightarrow> x < y | _ \<Rightarrow> False) items \<and>
             canonical_evidence_text (JList items) = Inr s
         | _ \<Rightarrow> False)
    | _ \<Rightarrow> False)"

text \<open>\<^verbatim>\<open>v == n\<close> of a JSON value and an integer.\<close>

fun equals_int :: "json \<Rightarrow> int \<Rightarrow> bool" where
  "equals_int (JInt i) n = (i = n)"
| "equals_int (JBool b) n = (n = (if b then 1 else 0))"
| "equals_int (JFloat q) n = (q = of_int n)"
| "equals_int v n = False"

definition transports :: "(string \<times> string) list" where
  "transports = [(''openai'', ''openai.first-party.v1''), (''anthropic'', ''anthropic.first-party.v1'')]"

definition transport_ok :: "jdict \<Rightarrow> bool" where
  "transport_ok v = (case dget v ''provider'' of
      JStr p \<Rightarrow> (case map_of transports p of Some t \<Rightarrow> dget v ''transport_profile'' = JStr t | None \<Rightarrow> False)
    | _ \<Rightarrow> False)"

definition scope_kinds :: "string list" where
  "scope_kinds = [''organization'', ''projects'', ''workspaces'']"

section \<open>Evidence records\<close>

definition account_binding_fields :: "string list" where
  "account_binding_fields = [''schema_id'', ''schema_version'', ''organization_id'', ''binding_id'', ''version'',
     ''binding_event_id'', ''previous_version'', ''binding_state'', ''reason_code'', ''upstream_reference_id'',
     ''upstream_reference_version'', ''transport_profile'', ''inference_credential_reference_id'',
     ''inference_credential_reference_version'', ''source_binding_id'', ''source_binding_version'',
     ''source_binding_digest'', ''provider'', ''provider_account_fingerprint'', ''scope_kind'',
     ''scope_fingerprints_json'', ''fingerprint_key_version'', ''content_digest'', ''request_digest'',
     ''registered_by'', ''registered_at'']"

definition binding_coordinates :: "string list" where
  "binding_coordinates = [''binding_id'', ''binding_version'', ''binding_digest'', ''upstream_reference_id'',
     ''upstream_reference_version'', ''transport_profile'', ''inference_credential_reference_id'',
     ''inference_credential_reference_version'', ''source_binding_id'', ''source_binding_version'',
     ''source_binding_digest'', ''provider'', ''provider_account_fingerprint'', ''scope_kind'',
     ''scope_fingerprints_json'', ''fingerprint_key_version'']"

definition attempt_binding_fields :: "string list" where
  "attempt_binding_fields = [''schema_id'', ''schema_version'', ''organization_id'', ''request_attempt_id'',
     ''event_id'', ''captured_at'', ''state'', ''reason_code''] @ binding_coordinates"

definition query_audit_fields :: "string list" where
  "query_audit_fields = [''schema_id'', ''schema_version'', ''organization_id'', ''query_event_id'', ''actor_id'',
     ''query_class'', ''binding_id'', ''binding_version'', ''collection_profile'', ''query_start_at'',
     ''query_end_at'', ''as_of_commit_sequence'', ''currency'', ''selected_snapshot_count'',
     ''coverage_bucket_count'', ''provider_observation_count'', ''terminal_attempt_count'',
     ''terminal_attempts_missing_sidecar_count'', ''occurred_at'']"

definition unbound_reasons :: "string list" where
  "unbound_reasons = [''not_configured'', ''binding_missing'', ''binding_invalid'', ''binding_revoked'',
     ''binding_version_stale'', ''binding_ambiguous'', ''source_binding_missing'', ''source_binding_revoked'',
     ''source_binding_version_stale'', ''tenant_mismatch'', ''upstream_reference_mismatch'',
     ''inference_reference_mismatch'', ''unsupported_transport'', ''fingerprint_key_version_mismatch'']"

definition registration_order_ok :: "jdict \<Rightarrow> bool" where
  "registration_order_ok v =
     (case dget v ''version'' of
        JInt n \<Rightarrow>
          (if n = 1 then dget v ''previous_version'' = JNull \<and> dget v ''reason_code'' = JStr ''created''
           else equals_int (dget v ''previous_version'') (n - 1) \<and>
             (dget v ''binding_state'' = JStr ''active'' \<longrightarrow> dget v ''reason_code'' = JStr ''replaced'')) \<and>
          (dget v ''binding_state'' = JStr ''revoked'' \<longrightarrow> dget v ''reason_code'' = JStr ''revoked'')
      | _ \<Rightarrow> False)"

definition content_of_registration :: "jdict \<Rightarrow> jdict" where
  "content_of_registration v = map (\<lambda>k. (k, dget v k)) (filter (\<lambda>k. k \<notin> {''schema_id'', ''schema_version'',
     ''content_digest'', ''request_digest'', ''binding_event_id'', ''registered_by'', ''registered_at''})
     account_binding_fields)"

definition validate_finance_account_binding_event :: "(string \<Rightarrow> string) \<Rightarrow> jdict \<Rightarrow> bool" where
  "validate_finance_account_binding_event sha v =
     (exact_keys v account_binding_fields \<and>
      dget v ''schema_id'' = JStr ''hormuz.finance-account-binding-version'' \<and>
      equals_one (dget v ''schema_version'') \<and>
      identity_text (dget v ''organization_id'') \<and> identity_text (dget v ''registered_by'') \<and>
      list_all (\<lambda>f. account_identifier (dget v f)) [''binding_id'', ''upstream_reference_id'',
        ''transport_profile'', ''inference_credential_reference_id'', ''source_binding_id''] \<and>
      list_all (\<lambda>f. account_version (dget v f)) [''version'', ''upstream_reference_version'',
        ''inference_credential_reference_version'', ''source_binding_version'', ''fingerprint_key_version''] \<and>
      account_uuid (dget v ''binding_event_id'') \<and>
      str_in (dget v ''binding_state'') [''active'', ''revoked''] \<and>
      str_in (dget v ''reason_code'') [''created'', ''replaced'', ''revoked''] \<and>
      transport_ok v \<and> str_in (dget v ''scope_kind'') scope_kinds \<and>
      scope_fingerprints (dget v ''scope_fingerprints_json'') \<and>
      list_all (\<lambda>f. account_sha256 (dget v f)) [''source_binding_digest'', ''provider_account_fingerprint'',
        ''content_digest'', ''request_digest''] \<and>
      account_timestamp (dget v ''registered_at'') \<and> registration_order_ok v \<and>
      (case canonical_evidence_text (JDict (content_of_registration v)) of
         Inl _ \<Rightarrow> False
       | Inr text \<Rightarrow> dget v ''content_digest'' = JStr (sha (utf8_encode text))))"

definition bound_coordinates_ok :: "jdict \<Rightarrow> bool" where
  "bound_coordinates_ok v =
     (list_all (\<lambda>f. account_identifier (dget v f)) [''binding_id'', ''upstream_reference_id'',
        ''transport_profile'', ''inference_credential_reference_id'', ''source_binding_id''] \<and>
      list_all (\<lambda>f. account_version (dget v f)) [''binding_version'', ''upstream_reference_version'',
        ''inference_credential_reference_version'', ''source_binding_version'', ''fingerprint_key_version''] \<and>
      list_all (\<lambda>f. account_sha256 (dget v f)) [''binding_digest'', ''source_binding_digest'',
        ''provider_account_fingerprint''] \<and>
      transport_ok v \<and> str_in (dget v ''scope_kind'') scope_kinds \<and>
      scope_fingerprints (dget v ''scope_fingerprints_json''))"

definition validate_finance_attempt_account_binding_event :: "jdict \<Rightarrow> bool" where
  "validate_finance_attempt_account_binding_event v =
     (exact_keys v attempt_binding_fields \<and>
      dget v ''schema_id'' = JStr ''hormuz.finance-attempt-account-binding'' \<and>
      equals_one (dget v ''schema_version'') \<and> identity_text (dget v ''organization_id'') \<and>
      account_uuid (dget v ''request_attempt_id'') \<and> account_uuid (dget v ''event_id'') \<and>
      account_timestamp (dget v ''captured_at'') \<and> str_in (dget v ''state'') [''bound'', ''unbound''] \<and>
      (if dget v ''state'' = JStr ''unbound''
       then str_in (dget v ''reason_code'') unbound_reasons \<and> all_null v binding_coordinates
       else dget v ''reason_code'' = JNull \<and> bound_coordinates_ok v))"

definition query_window_ok :: "jdict \<Rightarrow> bool" where
  "query_window_ok v = (case (dget v ''query_start_at'', dget v ''query_end_at'') of
      (JStr s, JStr e) \<Rightarrow> zulu_to_offset s < zulu_to_offset e | _ \<Rightarrow> False)"

definition counts_ordered :: "jdict \<Rightarrow> bool" where
  "counts_ordered v = (case (dget v ''terminal_attempts_missing_sidecar_count'', dget v ''terminal_attempt_count'') of
      (JInt missing, JInt terminal) \<Rightarrow> missing \<le> terminal | _ \<Rightarrow> False)"

definition currency_ok :: "json \<Rightarrow> bool" where
  "currency_ok v = (case v of JStr s \<Rightarrow> length s = 3 \<and> list_all is_upper s | _ \<Rightarrow> False)"

definition validate_finance_query_audit_event :: "jdict \<Rightarrow> bool" where
  "validate_finance_query_audit_event v =
     (exact_keys v query_audit_fields \<and> dget v ''schema_id'' = JStr ''hormuz.finance-query-audit-event'' \<and>
      equals_one (dget v ''schema_version'') \<and>
      identity_text (dget v ''organization_id'') \<and> identity_text (dget v ''actor_id'') \<and>
      list_all (\<lambda>f. account_identifier (dget v f)) [''binding_id'', ''collection_profile''] \<and>
      account_uuid (dget v ''query_event_id'') \<and>
      dget v ''query_class'' = JStr ''finance_coverage_report_v1'' \<and> account_version (dget v ''binding_version'') \<and>
      list_all (\<lambda>f. nonnegative_int64 (dget v f)) [''as_of_commit_sequence'', ''selected_snapshot_count'',
        ''coverage_bucket_count'', ''provider_observation_count'', ''terminal_attempt_count'',
        ''terminal_attempts_missing_sidecar_count''] \<and>
      counts_ordered v \<and> currency_ok (dget v ''currency'') \<and>
      list_all (\<lambda>f. account_timestamp (dget v f)) [''query_start_at'', ''query_end_at'', ''occurred_at''] \<and>
      query_window_ok v)"

definition finance_account_source_identity :: "(string \<Rightarrow> string) \<Rightarrow> externals" where
  "finance_account_source_identity sha schema ev =
     (if schema = ''hormuz.finance-account-binding-version'' \<and> validate_finance_account_binding_event sha ev
      then value_string ev ''binding_event_id''
      else if schema = ''hormuz.finance-attempt-account-binding'' \<and> validate_finance_attempt_account_binding_event ev
      then value_string ev ''event_id''
      else if schema = ''hormuz.finance-query-audit-event'' \<and> validate_finance_query_audit_event ev
      then value_string ev ''query_event_id''
      else None)"

section \<open>Capturing the account of an attempt\<close>

record finance_identity =
  fi_reference :: string
  fi_reference_version :: int
  fi_transport :: string
  fi_credential :: string
  fi_credential_version :: int

record configured_binding =
  cb_organization :: string
  cb_reference :: string
  cb_binding :: string
  cb_version :: int

datatype finance_selection = Unavailable_Finance string | Finance_Candidate finance_identity configured_binding

text \<open>The rows the capture reads: registered account bindings and source bindings, with their columns.\<close>

record account_tables =
  ac_registrations :: "jdict list"
  ac_sources :: "jdict list"

definition row_version :: "jdict \<Rightarrow> int" where
  "row_version row = (case dget row ''version'' of JInt i \<Rightarrow> i | _ \<Rightarrow> 0)"

definition binding_rows :: "jdict list \<Rightarrow> string \<Rightarrow> json \<Rightarrow> jdict list" where
  "binding_rows rows organization binding =
     filter (\<lambda>r. dget r ''organization_id'' = JStr organization \<and> dget r ''binding_id'' = binding) rows"

fun latest_row :: "jdict list \<Rightarrow> jdict option" where
  "latest_row [] = None"
| "latest_row (r # rs) = (case latest_row rs of
      None \<Rightarrow> Some r
    | Some s \<Rightarrow> Some (if row_version s \<le> row_version r then r else s))"

definition exact_row :: "jdict list \<Rightarrow> json \<Rightarrow> jdict option" where
  "exact_row rows version = find (\<lambda>r. dget r ''version'' = version) rows"

definition capture_error :: string where
  "capture_error = ''unavailable''"

definition evidence_of_row :: "jdict \<Rightarrow> jdict res" where
  "evidence_of_row row = (case dget row ''evidence_json'' of
      JStr text \<Rightarrow> (case loads text of
          Some (JDict ev) \<Rightarrow> if canonical_evidence_text (JDict ev) = Inr text then Inr ev else Inl capture_error
        | _ \<Rightarrow> Inl capture_error)
    | _ \<Rightarrow> Inl capture_error)"

definition registration_event :: "(string \<Rightarrow> string) \<Rightarrow> jdict \<Rightarrow> jdict res" where
  "registration_event sha row = rbind (evidence_of_row row) (\<lambda>ev.
     if set (keys row) = insert ''evidence_json'' (set (keys ev) - {''schema_id'', ''schema_version''}) \<and>
        list_all (\<lambda>(k, v). k \<in> {''schema_id'', ''schema_version''} \<or> dget row k = v) ev \<and>
        validate_finance_account_binding_event sha ev
     then Inr ev else Inl capture_error)"

definition source_event :: "externals \<Rightarrow> jdict \<Rightarrow> jdict res" where
  "source_event external row = rbind (evidence_of_row row) (\<lambda>ev.
     case external ''hormuz.finance-source-binding-version'' ev of
       None \<Rightarrow> Inl capture_error
     | Some identity \<Rightarrow> if dget ev ''binding_event_id'' = JStr identity then Inr ev else Inl capture_error)"

definition unbound_event :: "string \<Rightarrow> string \<Rightarrow> string \<Rightarrow> string \<Rightarrow> string \<Rightarrow> jdict res" where
  "unbound_event event_id organization attempt captured reason =
     (let ev = [(''schema_id'', JStr ''hormuz.finance-attempt-account-binding''), (''schema_version'', JInt 1),
        (''organization_id'', JStr organization), (''request_attempt_id'', JStr attempt),
        (''event_id'', JStr event_id), (''captured_at'', JStr captured), (''state'', JStr ''unbound''),
        (''reason_code'', JStr (if reason \<in> set unbound_reasons then reason else ''binding_invalid''))] @
        map (\<lambda>f. (f, JNull)) binding_coordinates
      in if validate_finance_attempt_account_binding_event ev then Inr ev else Inl account_error)"

definition bound_event :: "string \<Rightarrow> string \<Rightarrow> string \<Rightarrow> string \<Rightarrow> jdict \<Rightarrow> jdict res" where
  "bound_event event_id organization attempt captured reg =
     (let ev = [(''schema_id'', JStr ''hormuz.finance-attempt-account-binding''), (''schema_version'', JInt 1),
        (''organization_id'', JStr organization), (''request_attempt_id'', JStr attempt),
        (''event_id'', JStr event_id), (''captured_at'', JStr captured), (''state'', JStr ''bound''),
        (''reason_code'', JNull), (''binding_id'', dget reg ''binding_id''), (''binding_version'', dget reg ''version''),
        (''binding_digest'', dget reg ''content_digest'')] @
        map (\<lambda>f. (f, dget reg f)) (drop 3 binding_coordinates)
      in if validate_finance_attempt_account_binding_event ev then Inr ev else Inl account_error)"

text \<open>Why a registration does not stand for the configured identity, if it does not.\<close>

definition registration_mismatch :: "finance_identity \<Rightarrow> jdict \<Rightarrow> jdict \<Rightarrow> string option" where
  "registration_mismatch i reg current =
     (if dget current ''version'' \<noteq> dget reg ''version'' then Some ''binding_version_stale''
      else if dget reg ''binding_state'' \<noteq> JStr ''active'' then Some ''binding_revoked''
      else if dget reg ''upstream_reference_id'' \<noteq> JStr (fi_reference i)
           \<or> dget reg ''upstream_reference_version'' \<noteq> JInt (fi_reference_version i)
      then Some ''upstream_reference_mismatch''
      else if dget reg ''transport_profile'' \<noteq> JStr (fi_transport i) then Some ''unsupported_transport''
      else if dget reg ''inference_credential_reference_id'' \<noteq> JStr (fi_credential i)
           \<or> dget reg ''inference_credential_reference_version'' \<noteq> JInt (fi_credential_version i)
      then Some ''inference_reference_mismatch'' else None)"

text \<open>Why its source binding does not; \<^verbatim>\<open>Inl\<close> when the rows contradict each other.\<close>

definition source_mismatch :: "jdict \<Rightarrow> jdict \<Rightarrow> jdict \<Rightarrow> string option res" where
  "source_mismatch reg source current =
     (if \<not> list_all (has_key source) [''version'', ''binding_state'', ''fingerprint_key_version'', ''content_digest'',
           ''provider'', ''provider_account_fingerprint'', ''scope_kind'', ''scope_fingerprints'']
         \<or> \<not> has_key current ''version'' then Inl capture_error
      else if dget current ''version'' \<noteq> dget source ''version'' then Inr (Some ''source_binding_version_stale'')
      else if dget source ''binding_state'' \<noteq> JStr ''active'' then Inr (Some ''source_binding_revoked'')
      else if dget source ''fingerprint_key_version'' \<noteq> dget reg ''fingerprint_key_version''
      then Inr (Some ''fingerprint_key_version_mismatch'')
      else if dget source ''content_digest'' \<noteq> dget reg ''source_binding_digest''
           \<or> dget source ''provider'' \<noteq> dget reg ''provider''
           \<or> dget source ''provider_account_fingerprint'' \<noteq> dget reg ''provider_account_fingerprint''
           \<or> dget source ''scope_kind'' \<noteq> dget reg ''scope_kind''
      then Inl capture_error
      else (case (canonical_evidence_text (dget source ''scope_fingerprints''), dget reg ''scope_fingerprints_json'') of
              (Inr text, JStr stored) \<Rightarrow> if text = stored then Inr None else Inl capture_error
            | _ \<Rightarrow> Inl capture_error))"

definition resolve_event :: "(string \<Rightarrow> string) \<Rightarrow> externals \<Rightarrow> account_tables \<Rightarrow> string \<Rightarrow> string \<Rightarrow> string
    \<Rightarrow> string \<Rightarrow> finance_selection \<Rightarrow> jdict res" where
  "resolve_event sha external tables event_id organization attempt captured selected =
     (let unbound = unbound_event event_id organization attempt captured in
      case selected of
        Unavailable_Finance reason \<Rightarrow> unbound reason
      | Finance_Candidate i c \<Rightarrow>
          if cb_organization c \<noteq> organization then unbound ''tenant_mismatch''
          else (let rows = binding_rows (ac_registrations tables) organization (JStr (cb_binding c)) in
            case (exact_row rows (JInt (cb_version c)), latest_row rows) of
              (None, None) \<Rightarrow> unbound ''binding_missing''
            | (None, Some _) \<Rightarrow> unbound ''binding_version_stale''
            | (Some _, None) \<Rightarrow> Inl capture_error
            | (Some exact, Some latest) \<Rightarrow>
                rbind (registration_event sha exact) (\<lambda>reg.
                rbind (registration_event sha latest) (\<lambda>current.
                case registration_mismatch i reg current of
                  Some reason \<Rightarrow> unbound reason
                | None \<Rightarrow>
                    (let sources = binding_rows (ac_sources tables) organization (dget reg ''source_binding_id'') in
                     case (exact_row sources (dget reg ''source_binding_version''), latest_row sources) of
                       (None, _) \<Rightarrow> unbound ''source_binding_missing''
                     | (Some _, None) \<Rightarrow> Inl capture_error
                     | (Some s, Some l) \<Rightarrow>
                         rbind (source_event external s) (\<lambda>source.
                         rbind (source_event external l) (\<lambda>current_source.
                         rbind (source_mismatch reg source current_source) (\<lambda>why.
                         case why of
                           Some reason \<Rightarrow> unbound reason
                         | None \<Rightarrow> bound_event event_id organization attempt captured reg))))))))"

text \<open>
  The row that is stored next to the attempt: the event without its schema, and its text. Every error is
  the one code of the capture.
\<close>

definition attempt_binding_row :: "(string \<Rightarrow> string) \<Rightarrow> externals \<Rightarrow> account_tables \<Rightarrow> string \<Rightarrow> string
    \<Rightarrow> string \<Rightarrow> string \<Rightarrow> finance_selection \<Rightarrow> (jdict \<times> jdict) res" where
  "attempt_binding_row sha external tables event_id organization attempt captured selected =
     on_error capture_error
       (rbind (resolve_event sha external tables event_id organization attempt captured selected) (\<lambda>ev.
        if \<not> validate_finance_attempt_account_binding_event ev then Inl account_error
        else rbind (canonical_evidence_text (JDict ev)) (\<lambda>text.
          Inr (ev, filter (\<lambda>(k, _). k \<notin> {''schema_id'', ''schema_version''}) ev @ [(''evidence_json'', JStr text)]))))"

section \<open>What a bound attempt rests on\<close>

text \<open>
  An attempt is bound only to an active registration of its own organization, the one its configuration
  names, in its latest version, with the references of the configured identity.
\<close>

lemma validate_bound: "bound_event e organization attempt captured reg = Inr ev \<Longrightarrow>
    dget ev ''state'' = JStr ''bound'' \<and> dget ev ''organization_id'' = JStr organization \<and>
    dget ev ''binding_digest'' = dget reg ''content_digest'' \<and> dget ev ''request_attempt_id'' = JStr attempt"
  by (auto simp: bound_event_def Let_def dget_def split: if_splits)

lemma unbound_state: "unbound_event e organization attempt captured reason = Inr ev \<Longrightarrow> dget ev ''state'' = JStr ''unbound''"
  by (auto simp: unbound_event_def Let_def dget_def split: if_splits)

end
