(* ===== verification/Utc_Time.thy ===== *)
theory Utc_Time
  imports Finance_Values
begin

text \<open>
  The UTC clock readings the store writes and compares (\<^verbatim>\<open>src/hormuz/store.py\<close>): an aware
  \<^verbatim>\<open>datetime\<close> as its fields, the text \<^verbatim>\<open>isoformat\<close> gives for it, the start of its month and the addition
  of a \<^verbatim>\<open>timedelta\<close> of whole seconds. The store keeps the texts, and SQL compares them character by
  character; the last section shows that this is the order of the clock.
\<close>

section \<open>Readings\<close>

record utc_time =
  ut_year :: nat
  ut_month :: nat
  ut_day :: nat
  ut_hour :: nat
  ut_minute :: nat
  ut_second :: nat
  ut_micro :: nat

definition valid_time :: "utc_time \<Rightarrow> bool" where
  "valid_time t =
     (1 \<le> ut_year t \<and> ut_year t \<le> 9999 \<and> 1 \<le> ut_month t \<and> ut_month t \<le> 12 \<and>
      1 \<le> ut_day t \<and> ut_day t \<le> month_days (ut_year t) (ut_month t) \<and>
      ut_hour t < 24 \<and> ut_minute t < 60 \<and> ut_second t < 60 \<and> ut_micro t < 1000000)"

definition padded :: "nat \<Rightarrow> nat \<Rightarrow> string" where
  "padded w n = replicate (w - length (nat_digits n)) (CHR ''0'') @ nat_digits n"

definition isoformat :: "utc_time \<Rightarrow> string" where
  "isoformat t =
     padded 4 (ut_year t) @ ''-'' @ padded 2 (ut_month t) @ ''-'' @ padded 2 (ut_day t) @ ''T'' @
     padded 2 (ut_hour t) @ '':'' @ padded 2 (ut_minute t) @ '':'' @ padded 2 (ut_second t) @
     (if ut_micro t = 0 then [] else ''.'' @ padded 6 (ut_micro t)) @ ''+00:00''"

text \<open>\<^verbatim>\<open>now.replace(day=1, hour=0, minute=0, second=0, microsecond=0)\<close>.\<close>

definition month_start :: "utc_time \<Rightarrow> utc_time" where
  "month_start t = t\<lparr>ut_day := 1, ut_hour := 0, ut_minute := 0, ut_second := 0, ut_micro := 0\<rparr>"

text \<open>\<^verbatim>\<open>now + timedelta(seconds=n)\<close>: nothing after the last year (\<^verbatim>\<open>OverflowError\<close>).\<close>

definition next_day :: "utc_time \<Rightarrow> utc_time" where
  "next_day t =
     (if ut_day t < month_days (ut_year t) (ut_month t) then t\<lparr>ut_day := ut_day t + 1\<rparr>
      else if ut_month t < 12 then t\<lparr>ut_day := 1, ut_month := ut_month t + 1\<rparr>
      else t\<lparr>ut_day := 1, ut_month := 1, ut_year := ut_year t + 1\<rparr>)"

definition seconds_of_day :: "utc_time \<Rightarrow> nat" where
  "seconds_of_day t = (ut_hour t * 60 + ut_minute t) * 60 + ut_second t"

definition plus_seconds :: "nat \<Rightarrow> utc_time \<Rightarrow> utc_time option" where
  "plus_seconds n t =
     (let s = seconds_of_day t + n; r = s mod 86400;
          d = (next_day ^^ (s div 86400)) t
      in if 9999 < ut_year d then None
         else Some (d\<lparr>ut_hour := r div 3600, ut_minute := r div 60 mod 60, ut_second := r mod 60\<rparr>))"

text \<open>
  SQL compares texts character by character (\<^verbatim>\<open>BINARY\<close> collation), the order strings have here.
\<close>

section \<open>The order of texts\<close>

lemma char_less_iff: "a < b \<longleftrightarrow> ord_of a < ord_of b"
  by (simp add: less_char_def ord_of_def)

lemma ord_of_eq_iff: "ord_of a = ord_of b \<longleftrightarrow> a = b"
  by (simp add: ord_of_def)

text \<open>A common prefix is dropped, and two texts of one length decide before what follows them.\<close>

lemma text_less_prefix [simp]: "x @ a < x @ b \<longleftrightarrow> a < b"
  for a b :: string
  by (induction x) simp_all

lemma text_less_append:
  fixes x y a b :: string
  shows "length x = length y \<Longrightarrow> x @ a < y @ b \<longleftrightarrow> x < y \<or> x = y \<and> a < b"
proof (induction x y rule: list_induct2)
  case (Cons c x d y)
  show ?case using Cons.IH by auto
qed simp

section \<open>Texts are ordered as the clock\<close>

lemma lex_digits:
  fixes a b c d :: nat
  assumes "c < 10" and "d < 10"
  shows "10 * a + c < 10 * b + d \<longleftrightarrow> a < b \<or> a = b \<and> c < d" and "10 * a + c = 10 * b + d \<longleftrightarrow> a = b \<and> c = d"
  using assms by presburger+

lemma digit_text_order:
  assumes "length x = length y" and "list_all is_digit x" and "list_all is_digit y"
  shows "(x < y \<longleftrightarrow> digits_value x < digits_value y) \<and> (x = y \<longleftrightarrow> digits_value x = digits_value y)"
  using assms
proof (induction x arbitrary: y rule: rev_induct)
  case (snoc a x)
  then obtain b z where y: "y = z @ [b]" by (cases y rule: rev_cases) auto
  have ih: "x < z \<longleftrightarrow> digits_value x < digits_value z" "x = z \<longleftrightarrow> digits_value x = digits_value z"
    using snoc.IH [of z] snoc.prems by (simp_all add: y)
  have "is_digit a" "is_digit b" using snoc.prems by (simp_all add: y)
  then have d: "ord_of a - 48 < 10" "ord_of b - 48 < 10" and o: "48 \<le> ord_of a" "48 \<le> ord_of b"
    unfolding is_digit_def by linarith+
  have l: "length x = length z" using snoc.prems by (simp add: y)
  have less: "ord_of a < ord_of b \<longleftrightarrow> ord_of a - 48 < ord_of b - 48"
    and eq: "a = b \<longleftrightarrow> ord_of a - 48 = ord_of b - 48"
    using o ord_of_eq_iff [of a b] by linarith+
  show ?case
    unfolding y digits_value_append1 lex_digits [OF d] text_less_append [OF l]
    using ih less eq char_less_iff [of a b] by auto
qed (simp add: digits_value_def)

lemma nat_digits_length: "0 < w \<Longrightarrow> n < 10 ^ w \<Longrightarrow> length (nat_digits n) \<le> w"
  using digit_count_le [of n w] by (simp add: digit_count_def)

lemma padded_length: "0 < w \<Longrightarrow> n < 10 ^ w \<Longrightarrow> length (padded w n) = w"
  using nat_digits_length by (simp add: padded_def)

lemma padded_digits: "list_all is_digit (padded w n)"
  by (simp add: padded_def nat_digits_digits) (simp add: list_all_iff is_digit_def ord_of_def)

lemma padded_value: "digits_value (padded w n) = n"
  by (simp add: padded_def digits_value_append)

lemma padded_less:
  assumes "0 < w" and "m < 10 ^ w" and "n < 10 ^ w"
  shows "padded w m @ a < padded w n @ b \<longleftrightarrow> m < n \<or> m = n \<and> a < b"
proof -
  have l: "length (padded w m) = length (padded w n)" using padded_length assms by simp
  show ?thesis
    using digit_text_order [OF l padded_digits padded_digits] by (simp add: text_less_append [OF l] padded_value)
qed

text \<open>The chronological order: the first field that differs decides.\<close>

definition earlier :: "utc_time \<Rightarrow> utc_time \<Rightarrow> bool" where
  "earlier s t =
     (ut_year s < ut_year t \<or> ut_year s = ut_year t \<and>
       (ut_month s < ut_month t \<or> ut_month s = ut_month t \<and>
         (ut_day s < ut_day t \<or> ut_day s = ut_day t \<and>
           (ut_hour s < ut_hour t \<or> ut_hour s = ut_hour t \<and>
             (ut_minute s < ut_minute t \<or> ut_minute s = ut_minute t \<and>
               (ut_second s < ut_second t \<or> ut_second s = ut_second t \<and> ut_micro s < ut_micro t))))))"

lemma fraction_less:
  assumes "m < 1000000" and "n < 1000000"
  shows "(if m = 0 then [] else ''.'' @ padded 6 m) @ ''+00:00''
           < (if n = 0 then [] else ''.'' @ padded 6 n) @ ''+00:00'' \<longleftrightarrow> m < n"
  using padded_less [of 6 m n "''+00:00''" "''+00:00''"] assms by (auto simp: ord_of_def less_irrefl)

lemma month_days_le: "month_days y m \<le> 31"
  by (simp add: month_days_def)

lemma isoformat_less:
  assumes "valid_time s" and "valid_time t"
  shows "isoformat s < isoformat t \<longleftrightarrow> earlier s t"
proof -
  have b: "ut_year s < 10 ^ 4" "ut_year t < 10 ^ 4" "ut_month s < 10 ^ 2" "ut_month t < 10 ^ 2"
    "ut_day s < 10 ^ 2" "ut_day t < 10 ^ 2" "ut_hour s < 10 ^ 2" "ut_hour t < 10 ^ 2"
    "ut_minute s < 10 ^ 2" "ut_minute t < 10 ^ 2" "ut_second s < 10 ^ 2" "ut_second t < 10 ^ 2"
    "ut_micro s < 1000000" "ut_micro t < 1000000"
    using assms month_days_le [of "ut_year s" "ut_month s"] month_days_le [of "ut_year t" "ut_month t"]
    by (simp_all add: valid_time_def)
  show ?thesis
    unfolding isoformat_def earlier_def
    by (simp only: padded_less b zero_less_numeral text_less_prefix fraction_less)
qed

section \<open>Adding seconds\<close>

definition date_ok :: "utc_time \<Rightarrow> bool" where
  "date_ok t = (1 \<le> ut_year t \<and> 1 \<le> ut_month t \<and> ut_month t \<le> 12 \<and> 1 \<le> ut_day t \<and>
     ut_day t \<le> month_days (ut_year t) (ut_month t))"

definition date_before :: "utc_time \<Rightarrow> utc_time \<Rightarrow> bool" where
  "date_before s t = (ut_year s < ut_year t \<or> ut_year s = ut_year t \<and>
     (ut_month s < ut_month t \<or> ut_month s = ut_month t \<and> ut_day s < ut_day t))"

lemma next_day_ok: "date_ok t \<Longrightarrow> date_ok (next_day t)"
  by (auto simp: date_ok_def next_day_def month_days_def)

lemma next_day_later: "date_before t (next_day t)"
  by (simp add: date_before_def next_day_def)

lemma date_before_trans: "date_before a b \<Longrightarrow> date_before b c \<Longrightarrow> date_before a c"
  by (auto simp: date_before_def)

lemma next_days:
  assumes "date_ok t"
  shows "date_ok ((next_day ^^ k) t) \<and> (k = 0 \<or> date_before t ((next_day ^^ k) t)) \<and> ut_micro ((next_day ^^ k) t) = ut_micro t"
proof (induction k)
  case (Suc k)
  let ?t = "(next_day ^^ k) t"
  have "ut_micro (next_day ?t) = ut_micro ?t" by (simp add: next_day_def)
  moreover have "date_before t (next_day ?t)"
    using Suc next_day_later [of ?t] date_before_trans by (cases "k = 0") auto
  ultimately show ?case using Suc next_day_ok by simp
qed (use assms in simp)

lemma split_seconds:
  fixes r :: nat
  assumes "r < 86400"
  shows "(r div 3600 * 60 + r div 60 mod 60) * 60 + r mod 60 = r" and "r div 3600 < 24"
proof -
  have "r div 3600 = r div 60 div 60" by (simp add: div_mult2_eq [of r 60 60, symmetric])
  then have "r div 3600 * 60 + r div 60 mod 60 = r div 60" by (metis div_mult_mod_eq)
  then show "(r div 3600 * 60 + r div 60 mod 60) * 60 + r mod 60 = r" by simp
  show "r div 3600 < 24" using assms by (simp add: less_mult_imp_div_less)
qed

lemma earlier_seconds:
  assumes "ut_year s = ut_year t" "ut_month s = ut_month t" "ut_day s = ut_day t"
    and "ut_minute s < 60" "ut_second s < 60" "ut_minute t < 60" "ut_second t < 60"
    and "seconds_of_day s < seconds_of_day t"
  shows "earlier s t"
proof -
  have "ut_hour s < ut_hour t \<or> ut_hour s = ut_hour t \<and>
      (ut_minute s < ut_minute t \<or> ut_minute s = ut_minute t \<and> ut_second s < ut_second t)"
    using assms(4-8) unfolding seconds_of_day_def
    by (cases "ut_hour s" "ut_hour t" rule: linorder_cases; cases "ut_minute s" "ut_minute t" rule: linorder_cases)
      simp_all
  then show ?thesis using assms(1-3) by (auto simp: earlier_def)
qed

lemma plus_seconds_valid:
  assumes v: "valid_time t" and p: "plus_seconds n t = Some t'" and n: "0 < n"
  shows "valid_time t'" and "earlier t t'"
proof -
  let ?s = "seconds_of_day t + n"
  let ?d = "(next_day ^^ (?s div 86400)) t"
  let ?r = "?s mod 86400"
  have d: "date_ok ?d" "?s div 86400 = 0 \<or> date_before t ?d" "ut_micro ?d = ut_micro t"
    using next_days [of t "?s div 86400"] v by (auto simp: date_ok_def valid_time_def)
  have y: "ut_year ?d \<le> 9999"
    and t': "t' = ?d\<lparr>ut_hour := ?r div 3600, ut_minute := ?r div 60 mod 60, ut_second := ?r mod 60\<rparr>"
    using p by (auto simp: plus_seconds_def Let_def split: if_splits)
  have r: "?r < 86400" by simp
  show "valid_time t'"
    using d y split_seconds(2) [OF r] v by (simp add: t' valid_time_def date_ok_def)
  show "earlier t t'"
  proof (cases "?s div 86400 = 0")
    case True
    then have "?r = ?s" "?d = t" by (simp_all add: div_eq_0_iff)
    have "seconds_of_day t' = ?r" using split_seconds(1) [OF r] by (simp add: t' seconds_of_day_def)
    then show ?thesis
      using v n \<open>?r = ?s\<close> \<open>?d = t\<close> by (intro earlier_seconds) (simp_all add: t' valid_time_def)
  next
    case False
    then show ?thesis using d(2) by (auto simp: t' earlier_def date_before_def)
  qed
qed

text \<open>
  Two clock readings are stored as texts that SQL orders as the clock does, and as equal texts only when
  they are equal; the text of an expiry, at least one second later, is therefore always after the text of
  the reading it was computed from.
\<close>
theorem stored_times_in_clock_order:
  assumes "valid_time s" and "valid_time t"
  shows "(isoformat s < isoformat t \<longleftrightarrow> earlier s t) \<and> (isoformat s = isoformat t \<longleftrightarrow> s = t) \<and>
    (\<forall>n t'. plus_seconds (Suc n) t = Some t' \<longrightarrow> isoformat t < isoformat t')"
proof -
  have "s = t" if "isoformat s = isoformat t"
  proof -
    have "\<not> earlier s t" "\<not> earlier t s"
      using isoformat_less assms less_irrefl that by metis+
    then show "s = t" by (intro utc_time.equality) (auto simp: earlier_def)
  qed
  then show ?thesis
    using isoformat_less [OF assms] isoformat_less [OF assms(2)] plus_seconds_valid [OF assms(2)] by blast
qed

definition example_time :: utc_time where
  "example_time = \<lparr>ut_year = 2026, ut_month = 12, ut_day = 31, ut_hour = 23, ut_minute = 59, ut_second = 59,
     ut_micro = 0\<rparr>"

theorem stored_times_in_clock_order_witness:
  "isoformat (month_start example_time) < isoformat example_time \<and>
   plus_seconds 1 example_time = Some (month_start (example_time\<lparr>ut_year := 2027, ut_month := 1\<rparr>)) \<and>
   isoformat example_time < isoformat (month_start (example_time\<lparr>ut_year := 2027, ut_month := 1\<rparr>))"
proof -
  have v: "valid_time (month_start example_time)" "valid_time example_time" by code_simp+
  have e: "earlier (month_start example_time) example_time" by code_simp
  have p: "plus_seconds (Suc 0) example_time = Some (month_start (example_time\<lparr>ut_year := 2027, ut_month := 1\<rparr>))"
    by code_simp
  from stored_times_in_clock_order [OF v] e p show ?thesis by simp
qed

end
