(* ===== verification/Work_Budget.thy ===== *)
theory Work_Budget
  imports Account_Binding Utc_Time Finance_Evidence
begin

text \<open>
  Work budgets inside the reservation transaction: the persisted plans, activations and pointers and their
  validation (\<^verbatim>\<open>src/hormuz/_budget_schema.py\<close>), and the admission of an attempt under every plan that
  applies to its work scope (\<^verbatim>\<open>src/hormuz/budget_runtime.py\<close>). A row is its columns by name; a column
  that a join left out is null. Fresh \<^verbatim>\<open>uuid4\<close> texts are arguments, and the outcome of an attempt (its
  latest state and the cost of its usage event) is a function of its id.
\<close>

section \<open>Errors and times\<close>

datatype store_error =
    Reservation_Denied string
  | Work_Budget_Denied string string "(string \<times> int) list" string
  | Admission_Error string
  | Attempt_State_Error string
  | Storage_Error string

definition or_error :: "'e \<Rightarrow> 'f + 'a \<Rightarrow> 'e + 'a" where
  "or_error e r = (case r of Inl _ \<Rightarrow> Inl e | Inr x \<Rightarrow> Inr x)"

lemma or_error_Inr [simp]: "or_error e r = Inr x \<longleftrightarrow> r = Inr x"
  by (cases r) (simp_all add: or_error_def)

text \<open>\<^verbatim>\<open>isoformat(timespec="microseconds")\<close> with \<^verbatim>\<open>Z\<close>, and the texts \<^verbatim>\<open>_canonical_timestamp\<close> accepts.\<close>

definition zulu_text :: "utc_time \<Rightarrow> string" where
  "zulu_text t =
     padded 4 (ut_year t) @ ''-'' @ padded 2 (ut_month t) @ ''-'' @ padded 2 (ut_day t) @ ''T'' @
     padded 2 (ut_hour t) @ '':'' @ padded 2 (ut_minute t) @ '':'' @ padded 2 (ut_second t) @ ''.'' @
     padded 6 (ut_micro t) @ ''Z''"

definition canonical_timestamp :: "string \<Rightarrow> bool" where
  "canonical_timestamp s =
     (let y = take 4 s; mo = take 2 (drop 5 s); d = take 2 (drop 8 s); h = take 2 (drop 11 s);
          mi = take 2 (drop 14 s); se = take 2 (drop 17 s); us = take 6 (drop 20 s)
      in list_all (list_all is_digit) [y, mo, d, h, mi, se, us] \<and>
         length s = 27 \<and> s = y @ ''-'' @ mo @ ''-'' @ d @ ''T'' @ h @ '':'' @ mi @ '':'' @ se @ ''.'' @ us @ ''Z'' \<and>
         1 \<le> digits_value y \<and> 1 \<le> digits_value mo \<and> digits_value mo \<le> 12 \<and>
         1 \<le> digits_value d \<and> digits_value d \<le> month_days (digits_value y) (digits_value mo) \<and>
         digits_value h \<le> 23 \<and> digits_value mi \<le> 59 \<and> digits_value se \<le> 59)"

definition timestamp_at :: "jdict \<Rightarrow> string \<Rightarrow> bool" where
  "timestamp_at row f = (case dget row f of JStr s \<Rightarrow> canonical_timestamp s | _ \<Rightarrow> False)"

definition ident_at :: "jdict \<Rightarrow> string \<Rightarrow> bool" where
  "ident_at row f = (case dget row f of JStr s \<Rightarrow> identifier_text s | _ \<Rightarrow> False)"

definition int_between :: "int \<Rightarrow> int \<Rightarrow> json \<Rightarrow> bool" where
  "int_between lo hi v = (case v of JInt i \<Rightarrow> lo \<le> i \<and> i \<le> hi | _ \<Rightarrow> False)"

definition max_version :: int where
  "max_version = 2147483647"

definition max_safe :: int where
  "max_safe = 9007199254740991"

definition text_at :: "jdict \<Rightarrow> string \<Rightarrow> string" where
  "text_at row f = (case dget row f of JStr s \<Rightarrow> s | _ \<Rightarrow> [])"

definition int_at :: "jdict \<Rightarrow> string \<Rightarrow> int" where
  "int_at row f = (case dget row f of JInt i \<Rightarrow> i | _ \<Rightarrow> 0)"

section \<open>Persisted plans\<close>

definition budget_amount_text :: "json \<Rightarrow> bool" where
  "budget_amount_text v = (case v of
      JStr s \<Rightarrow> decimal_shape (Some 9) s \<and> (s = [] \<or> hd s \<noteq> CHR ''-'') \<and> decimal_text (Text s) = Inr s
    | _ \<Rightarrow> False)"

definition budget_canonical :: "json \<Rightarrow> string" where
  "budget_canonical v = dump True (canon v)"

definition allowed_model_ok :: "json \<Rightarrow> bool" where
  "allowed_model_ok v = (case v of
      JDict d \<Rightarrow> exact_keys d [''provider_id'', ''model_id'', ''model_version''] \<and>
        ident_at d ''provider_id'' \<and> ident_at d ''model_id'' \<and>
        (dget d ''model_version'' = JNull \<or> ident_at d ''model_version'')
    | _ \<Rightarrow> False)"

definition plan_models_ok :: "json \<Rightarrow> bool" where
  "plan_models_ok v = (case v of
      JNull \<Rightarrow> True
    | JStr text \<Rightarrow> (case loads text of
        Some (JList items) \<Rightarrow> length items \<le> 100 \<and> list_all allowed_model_ok items \<and>
          sorted_wrt (<) (map budget_canonical items) \<and> text = budget_canonical (JList items)
      | _ \<Rightarrow> False)
    | _ \<Rightarrow> False)"

definition plan_models :: "json \<Rightarrow> json" where
  "plan_models v = (case v of JStr text \<Rightarrow> (case loads text of Some x \<Rightarrow> x | None \<Rightarrow> JNull) | _ \<Rightarrow> JNull)"

definition plan_succession_ok :: "jdict \<Rightarrow> bool" where
  "plan_succession_ok row =
     (if int_at row ''version'' = 1
      then dget row ''supersedes_version'' = JNull \<and> dget row ''reason_code'' = JStr ''created''
      else dget row ''supersedes_version'' = JInt (int_at row ''version'' - 1) \<and>
           dget row ''reason_code'' = JStr ''corrected'')"

definition plan_content :: "jdict \<Rightarrow> json" where
  "plan_content row = JDict
     [(''work_scope'', JDict [(''work_scope_id'', dget row ''work_scope_id''), (''version'', dget row ''work_scope_version'')]),
      (''window'', JDict [(''start_at'', dget row ''window_start_at''), (''end_at'', dget row ''window_end_at'')]),
      (''currency'', dget row ''currency''), (''amount'', dget row ''amount''),
      (''allowed_models'', plan_models (dget row ''allowed_models_json'')),
      (''output_token_cap'', dget row ''output_token_cap''),
      (''per_request_cost_cap'', dget row ''per_request_cost_cap'')]"

definition validate_budget_plan_row :: "(string \<Rightarrow> string) \<Rightarrow> jdict \<Rightarrow> bool" where
  "validate_budget_plan_row sha row =
     (list_all (ident_at row) [''organization_id'', ''budget_plan_id'', ''work_scope_id'', ''actor_id''] \<and>
      int_between 1 max_version (dget row ''version'') \<and> int_between 1 max_version (dget row ''work_scope_version'') \<and>
      list_all (timestamp_at row) [''window_start_at'', ''window_end_at'', ''created_at''] \<and>
      text_at row ''window_start_at'' < text_at row ''window_end_at'' \<and>
      currency_ok (dget row ''currency'') \<and> budget_amount_text (dget row ''amount'') \<and>
      plan_models_ok (dget row ''allowed_models_json'') \<and>
      (dget row ''output_token_cap'' = JNull \<or> int_between 0 max_safe (dget row ''output_token_cap'')) \<and>
      (dget row ''per_request_cost_cap'' = JNull \<or> budget_amount_text (dget row ''per_request_cost_cap'')) \<and>
      plan_succession_ok row \<and> int_between 1 max_integer (dget row ''sequence'') \<and>
      (case dget row ''content_digest'' of
         JStr digest \<Rightarrow> is_hex64 digest \<and> digest = sha (budget_canonical (plan_content row))
       | _ \<Rightarrow> False))"

definition event_id32 :: "json \<Rightarrow> bool" where
  "event_id32 v = (case v of
      JStr s \<Rightarrow> length s = 32 \<and> list_all (\<lambda>c. is_digit c \<or> 97 \<le> ord_of c \<and> ord_of c \<le> 102) s | _ \<Rightarrow> False)"

definition validate_budget_activation_row :: "jdict \<Rightarrow> bool" where
  "validate_budget_activation_row row =
     (list_all (ident_at row) [''organization_id'', ''budget_plan_id'', ''actor_id'', ''policy_version''] \<and>
      event_id32 (dget row ''activation_event_id'') \<and> account_sha256 (dget row ''policy_digest'') \<and>
      int_between 1 max_safe (dget row ''activation_generation'') \<and>
      int_between 1 max_version (dget row ''current_version'') \<and>
      (dget row ''previous_version'' = JNull \<or> int_between 1 max_version (dget row ''previous_version'')) \<and>
      dget row ''previous_version'' \<noteq> dget row ''current_version'' \<and>
      (if int_at row ''activation_generation'' = 1
       then dget row ''previous_version'' = JNull \<and> dget row ''reason_code'' = JStr ''accepted''
       else dget row ''previous_version'' \<noteq> JNull \<and> str_in (dget row ''reason_code'') [''accepted'', ''reactivated'']) \<and>
      timestamp_at row ''committed_at'')"

definition validate_budget_activation_predecessor :: "jdict \<Rightarrow> jdict option \<Rightarrow> bool" where
  "validate_budget_activation_predecessor activation predecessor =
     (validate_budget_activation_row activation \<and>
      (case predecessor of
         None \<Rightarrow> int_at activation ''activation_generation'' = 1
       | Some p \<Rightarrow> validate_budget_activation_row p \<and>
           dget p ''organization_id'' = dget activation ''organization_id'' \<and>
           dget p ''budget_plan_id'' = dget activation ''budget_plan_id'' \<and>
           int_at p ''activation_generation'' = int_at activation ''activation_generation'' - 1 \<and>
           dget activation ''previous_version'' = dget p ''current_version'' \<and>
           text_at p ''committed_at'' \<le> text_at activation ''committed_at''))"

definition validate_budget_pointer_row :: "jdict \<Rightarrow> bool" where
  "validate_budget_pointer_row row =
     (ident_at row ''organization_id'' \<and> ident_at row ''budget_plan_id'' \<and>
      int_between 1 max_version (dget row ''active_version'') \<and>
      int_between 1 max_safe (dget row ''activation_generation'') \<and>
      event_id32 (dget row ''current_activation_event_id'') \<and> timestamp_at row ''changed_at'')"

definition validate_active_budget_rows :: "(string \<Rightarrow> string) \<Rightarrow> jdict \<Rightarrow> jdict \<Rightarrow> jdict \<Rightarrow> string \<Rightarrow> bool" where
  "validate_active_budget_rows sha plan activation pointer observed =
     (validate_budget_plan_row sha plan \<and> validate_budget_activation_row activation \<and>
      validate_budget_pointer_row pointer \<and> canonical_timestamp observed \<and>
      map (dget plan) [''organization_id'', ''budget_plan_id'', ''version''] =
        map (dget pointer) [''organization_id'', ''budget_plan_id'', ''active_version''] \<and>
      map (dget activation) [''organization_id'', ''budget_plan_id'', ''current_version'', ''activation_generation'',
          ''activation_event_id'', ''committed_at''] =
        map (dget pointer) [''organization_id'', ''budget_plan_id'', ''active_version'', ''activation_generation'',
          ''current_activation_event_id'', ''changed_at''] \<and>
      text_at plan ''window_start_at'' \<le> text_at activation ''committed_at'' \<and>
      text_at activation ''committed_at'' < text_at plan ''window_end_at'' \<and>
      text_at plan ''created_at'' \<le> text_at activation ''committed_at'' \<and>
      text_at activation ''committed_at'' \<le> observed)"

section \<open>The plans in force\<close>

record budget_tables =
  bt_plans :: "jdict list"
  bt_activations :: "jdict list"
  bt_pointers :: "jdict list"
  bt_scopes :: "jdict list"
  bt_attribution_audit :: "jdict list"
  bt_attributions :: "jdict list"
  bt_bindings :: "jdict list"
  bt_audit :: "jdict list"

definition budget_unavailable :: string where
  "budget_unavailable = ''The active work budget is unavailable.''"

text \<open>The row of a \<^verbatim>\<open>LEFT JOIN\<close>: the first that agrees, or none and every column null.\<close>

definition joined :: "jdict list \<Rightarrow> (string \<times> json) list \<Rightarrow> jdict option" where
  "joined rows key = find (\<lambda>r. list_all (\<lambda>(k, v). dget r k = v) key) rows"

definition or_nulls :: "jdict option \<Rightarrow> jdict" where
  "or_nulls r = (case r of None \<Rightarrow> [] | Some d \<Rightarrow> d)"

definition activation_of :: "budget_tables \<Rightarrow> jdict \<Rightarrow> jdict" where
  "activation_of bt p = or_nulls (joined (bt_activations bt)
     [(''organization_id'', dget p ''organization_id''), (''budget_plan_id'', dget p ''budget_plan_id''),
      (''current_version'', dget p ''active_version''), (''activation_generation'', dget p ''activation_generation''),
      (''activation_event_id'', dget p ''current_activation_event_id'')])"

definition prior_activation_of :: "budget_tables \<Rightarrow> jdict \<Rightarrow> jdict option" where
  "prior_activation_of bt p = joined (bt_activations bt)
     [(''organization_id'', dget p ''organization_id''), (''budget_plan_id'', dget p ''budget_plan_id''),
      (''activation_generation'', JInt (int_at p ''activation_generation'' - 1))]"

definition plan_of :: "budget_tables \<Rightarrow> jdict \<Rightarrow> jdict" where
  "plan_of bt p = or_nulls (joined (bt_plans bt)
     [(''organization_id'', dget p ''organization_id''), (''budget_plan_id'', dget p ''budget_plan_id''),
      (''version'', dget p ''active_version'')])"

definition plan_reference :: "jdict \<Rightarrow> (string \<times> int) list" where
  "plan_reference p = (if ident_at p ''budget_plan_id'' \<and> int_between 1 max_version (dget p ''active_version'')
     then [(text_at p ''budget_plan_id'', int_at p ''active_version'')] else [])"

definition effective_row :: "budget_tables \<Rightarrow> jdict \<Rightarrow> jdict" where
  "effective_row bt p = plan_of bt p @
     map (\<lambda>f. (f, dget (activation_of bt p) f)) [''activation_generation'', ''policy_version'', ''policy_digest'']"

definition pointer_sound :: "(string \<Rightarrow> string) \<Rightarrow> budget_tables \<Rightarrow> string \<Rightarrow> jdict \<Rightarrow> bool" where
  "pointer_sound sha bt now p =
     (validate_active_budget_rows sha (plan_of bt p) (activation_of bt p) p now \<and>
      validate_budget_activation_predecessor (activation_of bt p) (prior_activation_of bt p))"

definition in_window :: "budget_tables \<Rightarrow> string \<Rightarrow> jdict \<Rightarrow> bool" where
  "in_window bt now p =
     (text_at (plan_of bt p) ''window_start_at'' \<le> now \<and> text_at (activation_of bt p) ''committed_at'' \<le> now \<and>
      now < text_at (plan_of bt p) ''window_end_at'')"

fun effective_rows :: "(string \<Rightarrow> string) \<Rightarrow> budget_tables \<Rightarrow> string \<Rightarrow> jdict list \<Rightarrow> store_error + jdict list" where
  "effective_rows sha bt now [] = Inr []"
| "effective_rows sha bt now (p # ps) =
     (if \<not> pointer_sound sha bt now p
      then Inl (Work_Budget_Denied budget_unavailable ''attribution_invalid'' (plan_reference p) now)
      else rbind (effective_rows sha bt now ps) (\<lambda>rows.
        Inr (if in_window bt now p then effective_row bt p # rows else rows)))"

definition organization_pointers :: "budget_tables \<Rightarrow> string \<Rightarrow> jdict list" where
  "organization_pointers bt organization =
     take 1001 (sort_key (\<lambda>p. text_at p ''budget_plan_id'')
       (filter (\<lambda>p. dget p ''organization_id'' = JStr organization) (bt_pointers bt)))"

definition effective_plan_rows :: "(string \<Rightarrow> string) \<Rightarrow> budget_tables \<Rightarrow> string \<Rightarrow> string
    \<Rightarrow> store_error + jdict list" where
  "effective_plan_rows sha bt organization now =
     (let rows = organization_pointers bt organization in
      if 1000 < length rows
      then Inl (Work_Budget_Denied budget_unavailable ''attribution_invalid''
        (take 1 (concat (map plan_reference rows))) now)
      else effective_rows sha bt now rows)"

definition plan_refs :: "jdict list \<Rightarrow> (string \<times> int) list" where
  "plan_refs plans = map (\<lambda>p. (text_at p ''budget_plan_id'', int_at p ''version'')) plans"

section \<open>The work scope of an attempt\<close>

record work_budget_context =
  wc_scope :: "string option"
  wc_scope_version :: "int option"
  wc_confidence :: string
  wc_reason :: string
  wc_output_tokens :: int
  wc_output_bounded :: bool
  wc_input_bounded :: bool
  wc_policy_version :: string
  wc_policy_digest :: string
  wc_card_id :: string
  wc_card_version :: int
  wc_card_digest :: string
  wc_card_currency :: string

definition attribution_invalid :: string where
  "attribution_invalid = ''Work attribution is invalid for budget enforcement.''"

definition check_context :: "work_budget_context \<Rightarrow> store_error + unit" where
  "check_context c =
     (if wc_confidence c \<notin> {''explicit_authorized'', ''server_side_default'', ''unattributed'', ''ambiguous''}
      then Inl (Reservation_Denied attribution_invalid)
      else if wc_output_tokens c < 0 \<or> max_safe < wc_output_tokens c
      then Inl (Reservation_Denied attribution_invalid)
      else if \<not> identifier_text (wc_policy_version c) \<or> \<not> is_hex64 (wc_policy_digest c)
         \<or> \<not> identifier_text (wc_card_id c) \<or> wc_card_version c < 1 \<or> max_version < wc_card_version c
         \<or> \<not> is_hex64 (wc_card_digest c) \<or> length (wc_card_currency c) \<noteq> 3 \<or> \<not> list_all is_upper (wc_card_currency c)
      then Inl (Reservation_Denied ''Work-budget valuation evidence is invalid.'')
      else (case (wc_scope c, wc_scope_version c) of
          (Some s, Some v) \<Rightarrow>
            if identifier_text s \<and> 1 \<le> v \<and> v \<le> max_version
               \<and> wc_confidence c \<in> {''explicit_authorized'', ''server_side_default''} \<and> wc_reason c = ''bound''
            then Inr () else Inl (Reservation_Denied attribution_invalid)
        | (None, None) \<Rightarrow>
            if wc_confidence c \<in> {''unattributed'', ''ambiguous''} \<and>
               wc_reason c = (if wc_confidence c = ''unattributed'' then ''missing_evidence'' else ''ambiguous'')
            then Inr () else Inl (Reservation_Denied attribution_invalid)
        | _ \<Rightarrow> Inl (Reservation_Denied attribution_invalid)))"

definition kind_order :: "(string \<times> nat) list" where
  "kind_order = [(''portfolio'', 0), (''initiative'', 1), (''use_case'', 2)]"

definition kind_rank :: "jdict \<Rightarrow> nat option" where
  "kind_rank row = map_of kind_order (text_at row ''kind'')"

definition latest_scope :: "budget_tables \<Rightarrow> string \<Rightarrow> string \<Rightarrow> jdict option" where
  "latest_scope bt organization scope = latest_row
     (filter (\<lambda>r. dget r ''organization_id'' = JStr organization \<and> dget r ''work_scope_id'' = JStr scope) (bt_scopes bt))"

definition hierarchy_invalid :: string where
  "hierarchy_invalid = ''Work attribution hierarchy is invalid for budget enforcement.''"

text \<open>
  At most three scopes, from the use case up to the portfolio; \<open>fuel\<close> is the bound of the loop. The chain is
  built with the last scope in front, the order in which it is returned.
\<close>

fun scope_chain_from :: "nat \<Rightarrow> budget_tables \<Rightarrow> string \<Rightarrow> jdict list \<Rightarrow> string \<Rightarrow> int
    \<Rightarrow> store_error + jdict list" where
  "scope_chain_from 0 bt organization chain scope version = Inl (Reservation_Denied hierarchy_invalid)"
| "scope_chain_from (Suc n) bt organization chain scope version =
     (case latest_scope bt organization scope of
        None \<Rightarrow> Inl (Admission_Error ''stale_version'')
      | Some row \<Rightarrow>
          if dget row ''version'' \<noteq> JInt version \<or> dget row ''state'' \<noteq> JStr ''active''
          then Inl (Admission_Error ''stale_version'')
          else if kind_rank row = None \<or> (chain \<noteq> [] \<and> the (kind_rank (hd chain)) \<le> the (kind_rank row))
          then Inl (Reservation_Denied hierarchy_invalid)
          else (case (dget row ''parent_work_scope_id'', dget row ''parent_version'') of
              (JNull, JNull) \<Rightarrow> Inr (row # chain)
            | (JStr parent, JInt v) \<Rightarrow> scope_chain_from n bt organization (row # chain) parent v
            | _ \<Rightarrow> Inl (Reservation_Denied hierarchy_invalid)))"

definition scope_chain :: "budget_tables \<Rightarrow> string \<Rightarrow> string \<Rightarrow> int \<Rightarrow> store_error + jdict list" where
  "scope_chain bt organization scope version =
     rbind (scope_chain_from 3 bt organization [] scope version) (\<lambda>chain.
       if text_at (last chain) ''kind'' \<noteq> ''use_case''
       then Inl (Reservation_Denied ''A current use-case attribution is required for budget enforcement.'')
       else Inr chain)"

definition scope_key :: "jdict \<Rightarrow> string \<Rightarrow> string \<Rightarrow> json \<times> json" where
  "scope_key row scope version = (dget row scope, dget row version)"

definition plan_scope :: "jdict \<Rightarrow> json \<times> json" where
  "plan_scope row = scope_key row ''work_scope_id'' ''work_scope_version''"

definition plans_for_chain :: "jdict list \<Rightarrow> jdict list \<Rightarrow> jdict list" where
  "plans_for_chain plans chain =
     (let kinds = map (\<lambda>s. (scope_key s ''work_scope_id'' ''version'', the (kind_rank s))) chain
      in sort_key (\<lambda>p. the (map_of kinds (plan_scope p)))
           (sort_key (\<lambda>p. text_at p ''budget_plan_id'') (filter (\<lambda>p. plan_scope p \<in> set (keys kinds)) plans)))"

section \<open>Preparing and enforcing\<close>

record prepared_budget =
  pb_attribution :: "string option"
  pb_chain :: "jdict list"

definition max_sequence :: "jdict list \<Rightarrow> string \<Rightarrow> int" where
  "max_sequence rows organization = fold max
     (map (\<lambda>r. int_at r ''sequence'') (filter (\<lambda>r. dget r ''organization_id'' = JStr organization) rows)) 0"

definition attribution :: "string \<Rightarrow> string \<Rightarrow> budget_tables \<Rightarrow> string \<Rightarrow> string \<Rightarrow> work_budget_context
    \<Rightarrow> jdict list \<Rightarrow> string \<Rightarrow> store_error + budget_tables" where
  "attribution event_id audit_id bt organization attempt c chain now =
     (let maximum = max_sequence (bt_attribution_audit bt) organization in
      if max_integer \<le> maximum then Inl (Reservation_Denied ''Work attribution audit is unavailable.'')
      else let scope = (if chain = [] then [] else last chain) in
        Inr (bt\<lparr>bt_attribution_audit := bt_attribution_audit bt @
                 [[(''organization_id'', JStr organization), (''event_id'', JStr audit_id),
                   (''sequence'', JInt (maximum + 1)), (''actor_id'', JNull), (''operation'', JStr ''admit''),
                   (''entity_id'', JStr event_id), (''reason_code'', JStr (wc_reason c)), (''occurred_at'', JStr now)]],
               bt_attributions := bt_attributions bt @
                 [[(''organization_id'', JStr organization), (''attribution_event_id'', JStr event_id),
                   (''request_attempt_id'', JStr attempt), (''work_scope_id'', dget scope ''work_scope_id''),
                   (''work_scope_version'', dget scope ''version''), (''confidence'', JStr (wc_confidence c)),
                   (''state'', JStr ''active''), (''supersedes_event_id'', JNull), (''actor_id'', JNull),
                   (''reason_code'', JStr (wc_reason c)), (''event_at'', JStr now), (''observed_at'', JStr now),
                   (''ingested_at'', JStr now), (''sequence'', JInt (maximum + 1))]]\<rparr>))"

text \<open>An error becomes a denial that names the plans it concerns, when there are any.\<close>

definition denied_under :: "jdict list \<Rightarrow> string \<Rightarrow> store_error + 'a \<Rightarrow> store_error + 'a" where
  "denied_under plans now r = (case r of
      Inl (Reservation_Denied message) \<Rightarrow>
        if plans = [] then r
        else Inl (Work_Budget_Denied message ''attribution_invalid'' (plan_refs plans) now)
    | Inl (Admission_Error _) \<Rightarrow>
        if plans = [] then r
        else Inl (Work_Budget_Denied ''Work attribution is stale or inactive for budget enforcement.''
          ''attribution_invalid'' (plan_refs plans) now)
    | _ \<Rightarrow> r)"

definition attribution_required :: "jdict list \<Rightarrow> string \<Rightarrow> store_error" where
  "attribution_required plans now = Work_Budget_Denied
     ''A current use-case attribution is required for budget enforcement.'' ''attribution_invalid'' (plan_refs plans) now"

definition prepare_work_budget :: "(string \<Rightarrow> string) \<Rightarrow> string \<Rightarrow> string \<Rightarrow> budget_tables \<Rightarrow> string \<Rightarrow> string
    \<Rightarrow> work_budget_context option \<Rightarrow> string \<Rightarrow> store_error + (budget_tables \<times> prepared_budget option)" where
  "prepare_work_budget sha event_id audit_id bt organization attempt work now =
     rbind (effective_plan_rows sha bt organization now) (\<lambda>effective.
     case work of
       None \<Rightarrow> if effective \<noteq> [] then Inl (attribution_required effective now) else Inr (bt, None)
     | Some c \<Rightarrow>
         rbind (denied_under effective now (check_context c)) (\<lambda>_.
         rbind (case (wc_scope c, wc_scope_version c) of
             (Some s, Some v) \<Rightarrow> denied_under effective now (scope_chain bt organization s v)
           | _ \<Rightarrow> if effective \<noteq> [] then Inl (attribution_required effective now) else Inr []) (\<lambda>chain.
         rbind (denied_under (plans_for_chain effective chain) now
                  (attribution event_id audit_id bt organization attempt c chain now)) (\<lambda>bt'.
         Inr (bt', Some \<lparr>pb_attribution = Some event_id, pb_chain = chain\<rparr>)))))"

section \<open>Consumption and the ceiling\<close>

text \<open>The latest state of an attempt and the cost of the usage event it names.\<close>

type_synonym attempt_outcome = "string \<Rightarrow> string \<Rightarrow> (string \<times> int option) option"

definition micro_decimal :: "int \<Rightarrow> decimal" where
  "micro_decimal i = Dec (i < 0) (nat \<bar>i\<bar>) (-6)"

definition reservation_amount :: "int \<Rightarrow> store_error + string" where
  "reservation_amount cost =
     (if cost < 0 then Inl (Reservation_Denied ''Work-budget estimate is invalid.'')
      else or_error (Reservation_Denied ''Work-budget estimate is invalid.'') (text_of_decimal (micro_decimal cost)))"

text \<open>What one binding counts for: its hold while the outcome is open, the committed cost after it.\<close>

definition binding_amount :: "jdict \<Rightarrow> string \<times> int option \<Rightarrow> decimal option" where
  "binding_amount row = (\<lambda>(state, cost).
     if state \<in> {''pending'', ''outcome_unknown''} then
       (case dget row ''reserved_amount'' of
          JStr s \<Rightarrow> if decimal_text (Text s) = Inr s \<and> 0 \<le> dec_value (decimal_of_text s)
                    then Some (decimal_of_text s) else None
        | _ \<Rightarrow> None)
     else if state \<in> {''succeeded'', ''failed'', ''rate_limited''} then
       (case cost of Some c \<Rightarrow> if c < 0 then None else Some (micro_decimal c) | None \<Rightarrow> None)
     else None)"

definition accounting_fields :: "string list" where
  "accounting_fields = [''organization_id'', ''budget_plan_id'', ''window_start_at'', ''window_end_at'', ''currency'']"

definition bound_to :: "jdict \<Rightarrow> jdict \<Rightarrow> bool" where
  "bound_to plan b = (map (dget b) accounting_fields = map (dget plan) accounting_fields)"

definition binding_outcome :: "attempt_outcome \<Rightarrow> jdict \<Rightarrow> (string \<times> int option) option" where
  "binding_outcome outcome b = outcome (text_at b ''organization_id'') (text_at b ''request_attempt_id'')"

fun sum_amounts :: "attempt_outcome \<Rightarrow> decimal \<Rightarrow> jdict list \<Rightarrow> decimal option" where
  "sum_amounts outcome acc [] = Some acc"
| "sum_amounts outcome acc (b # bs) =
     (case binding_outcome outcome b of
        None \<Rightarrow> sum_amounts outcome acc bs
      | Some oc \<Rightarrow> (case binding_amount b oc of
            None \<Rightarrow> None
          | Some d \<Rightarrow> (case exact_add acc d of None \<Rightarrow> None | Some acc' \<Rightarrow> sum_amounts outcome acc' bs)))"

definition plan_bindings :: "attempt_outcome \<Rightarrow> budget_tables \<Rightarrow> jdict \<Rightarrow> jdict list" where
  "plan_bindings outcome bt plan = take 10000 (sort_key (\<lambda>b. text_at b ''request_attempt_id'')
     (filter (\<lambda>b. bound_to plan b \<and> binding_outcome outcome b \<noteq> None) (bt_bindings bt)))"

definition consumed :: "attempt_outcome \<Rightarrow> budget_tables \<Rightarrow> jdict \<Rightarrow> decimal option" where
  "consumed outcome bt plan =
     (let rows = plan_bindings outcome bt plan in
      if 10000 \<le> length rows then None else sum_amounts outcome (Dec False 0 0) rows)"

text \<open>The model list of a plan: none, or whether the selected model is in it.\<close>

definition model_in_plan :: "jdict \<Rightarrow> string \<Rightarrow> string \<Rightarrow> json \<Rightarrow> bool option" where
  "model_in_plan plan provider model version =
     (case dget plan ''allowed_models_json'' of
        JNull \<Rightarrow> Some True
      | JStr text \<Rightarrow> (case loads text of
          Some (JList items) \<Rightarrow>
            if length items \<le> 100 \<and> distinct (map budget_canonical items) \<and> list_all allowed_model_ok items
            then Some (list_ex (\<lambda>v. case v of
                JDict d \<Rightarrow> dget d ''provider_id'' = JStr provider \<and> dget d ''model_id'' = JStr model
                           \<and> dget d ''model_version'' = version
              | _ \<Rightarrow> False) items)
            else None
        | Some JNull \<Rightarrow> Some True
        | _ \<Rightarrow> None)
      | _ \<Rightarrow> None)"

definition amount_at :: "jdict \<Rightarrow> string \<Rightarrow> rat" where
  "amount_at row f = dec_value (decimal_of_text (text_at row f))"

definition budget_binding_row :: "(string \<Rightarrow> string) \<Rightarrow> prepared_budget \<Rightarrow> string \<Rightarrow> string \<Rightarrow> string \<Rightarrow> string \<Rightarrow> string
    \<Rightarrow> json \<Rightarrow> string \<Rightarrow> string \<Rightarrow> work_budget_context \<Rightarrow> jdict \<Rightarrow> jdict" where
  "budget_binding_row sha prepared event organization attempt provider model version reserved now c plan =
     [(''organization_id'', JStr organization), (''request_attempt_id'', JStr attempt),
      (''attribution_event_id'', JStr event), (''budget_plan_id'', dget plan ''budget_plan_id''),
      (''budget_plan_version'', dget plan ''version''), (''activation_generation'', dget plan ''activation_generation''),
      (''work_scope_id'', dget (last (pb_chain prepared)) ''work_scope_id''),
      (''work_scope_version'', dget (last (pb_chain prepared)) ''version''),
      (''window_start_at'', dget plan ''window_start_at''), (''window_end_at'', dget plan ''window_end_at''),
      (''currency'', dget plan ''currency''), (''reserved_amount'', JStr reserved),
      (''reserved_output_tokens'', JInt (wc_output_tokens c)), (''provider_id'', JStr provider),
      (''model_id'', JStr model), (''model_version'', version),
      (''activation_policy_version'', dget plan ''policy_version''),
      (''activation_policy_digest'', dget plan ''policy_digest''),
      (''request_policy_version'', JStr (wc_policy_version c)), (''request_policy_digest'', JStr (wc_policy_digest c)),
      (''rate_card_id'', JStr (wc_card_id c)), (''rate_card_version'', JInt (wc_card_version c)),
      (''rate_card_digest'', JStr (wc_card_digest c)), (''rate_card_currency'', JStr (wc_card_currency c)),
      (''valuation_rule_id'', JStr ''gateway-route-microusd-v1''), (''valuation_rule_version'', JInt 1),
      (''valuation_rule_digest'', JStr (sha ''gateway-route-microusd-v1'')), (''bound_at'', JStr now)]"

definition enforce_plan :: "(string \<Rightarrow> string) \<Rightarrow> attempt_outcome \<Rightarrow> prepared_budget \<Rightarrow> string \<Rightarrow> string \<Rightarrow> string
    \<Rightarrow> string \<Rightarrow> json \<Rightarrow> string \<Rightarrow> string \<Rightarrow> work_budget_context \<Rightarrow> budget_tables \<Rightarrow> jdict
    \<Rightarrow> store_error + budget_tables" where
  "enforce_plan sha outcome prepared organization attempt provider model version reserved now c bt plan =
     (let deny = (\<lambda>message code. Inl (Work_Budget_Denied message code (plan_refs [plan]) now));
          cost = dec_value (decimal_of_text reserved)
      in if dget plan ''currency'' \<noteq> JStr (wc_card_currency c) \<or> wc_card_currency c \<noteq> ''USD''
      then deny ''The active work budget uses an unsupported currency.'' ''unsupported_currency''
      else (case model_in_plan plan provider model version of
        None \<Rightarrow> deny budget_unavailable ''attribution_invalid''
      | Some False \<Rightarrow> deny ''The active work budget does not allow this model.'' ''model_intersection''
      | Some True \<Rightarrow>
          if dget plan ''output_token_cap'' \<noteq> JNull \<and> int_at plan ''output_token_cap'' < wc_output_tokens c
          then deny ''The active work-budget output-token ceiling would be exceeded.'' ''output_token_ceiling''
          else if dget plan ''per_request_cost_cap'' \<noteq> JNull \<and> amount_at plan ''per_request_cost_cap'' < cost
          then deny ''The active work-budget per-request cost ceiling would be exceeded.'' ''request_cost_ceiling''
          else (case (case consumed outcome bt plan of
                  None \<Rightarrow> None | Some used \<Rightarrow> exact_add used (decimal_of_text reserved)) of
            None \<Rightarrow> deny ''Work-budget accounting is unavailable.'' ''budget_ceiling''
          | Some projected \<Rightarrow>
              if amount_at plan ''amount'' < dec_value projected
              then deny ''The active work-budget ceiling would be exceeded by this request.'' ''budget_ceiling''
              else (case pb_attribution prepared of
                None \<Rightarrow> deny ''Work-budget binding evidence is invalid.'' ''attribution_invalid''
              | Some event \<Rightarrow> Inr (bt\<lparr>bt_bindings := bt_bindings bt @
                  [budget_binding_row sha prepared event organization attempt provider model version reserved now c plan]\<rparr>)))))"

fun enforce_plans :: "(budget_tables \<Rightarrow> jdict \<Rightarrow> store_error + budget_tables) \<Rightarrow> budget_tables \<Rightarrow> jdict list
    \<Rightarrow> store_error + budget_tables" where
  "enforce_plans one bt [] = Inr bt"
| "enforce_plans one bt (p # ps) = rbind (one bt p) (\<lambda>bt'. enforce_plans one bt' ps)"

definition enforce_and_bind_work_budget :: "(string \<Rightarrow> string) \<Rightarrow> attempt_outcome \<Rightarrow> budget_tables
    \<Rightarrow> prepared_budget option \<Rightarrow> string \<Rightarrow> string \<Rightarrow> string \<Rightarrow> string \<Rightarrow> string option \<Rightarrow> int \<Rightarrow> string
    \<Rightarrow> work_budget_context option \<Rightarrow> store_error + budget_tables" where
  "enforce_and_bind_work_budget sha outcome bt prepared organization attempt provider model version cost now work =
     (case prepared of
        None \<Rightarrow> Inr bt
      | Some pb \<Rightarrow> if pb_chain pb = [] then Inr bt else (case work of
          None \<Rightarrow> Inl (Reservation_Denied ''A current use-case attribution is required for budget enforcement.'')
        | Some c \<Rightarrow>
            rbind (check_context c) (\<lambda>_.
            if \<not> identifier_text provider \<or> \<not> identifier_text model
               \<or> (case version of None \<Rightarrow> False | Some v \<Rightarrow> \<not> identifier_text v)
            then Inl (Reservation_Denied ''Work-budget model evidence is invalid.'')
            else rbind (reservation_amount cost) (\<lambda>reserved.
            rbind (effective_plan_rows sha bt organization now) (\<lambda>effective.
            let plans = plans_for_chain effective (pb_chain pb) in
            if plans \<noteq> [] \<and> \<not> wc_input_bounded c
            then Inl (Work_Budget_Denied ''A bounded input-token estimate is required for work-budget enforcement.''
                   ''request_cost_ceiling'' (plan_refs plans) now)
            else if plans \<noteq> [] \<and> \<not> wc_output_bounded c
            then Inl (Work_Budget_Denied ''A bounded output-token estimate is required for work-budget enforcement.''
                   ''request_cost_ceiling'' (plan_refs plans) now)
            else enforce_plans (enforce_plan sha outcome pb organization attempt provider model (opt_str version)
                   reserved now c) bt plans)))))"

text \<open>The wire-safe name of the selected model.\<close>

definition configured_model_id :: "(string \<Rightarrow> string) \<Rightarrow> string option \<Rightarrow> string option \<Rightarrow> string \<Rightarrow> store_error + string" where
  "configured_model_id sha alias upstream requested =
     (let candidate = (case alias of Some (c # cs) \<Rightarrow> c # cs
          | _ \<Rightarrow> (case upstream of Some (c # cs) \<Rightarrow> c # cs | _ \<Rightarrow> requested));
          generated = ''configured-model-sha256:''
      in if candidate = [] then Inl (Reservation_Denied ''Work-budget model evidence is invalid.'')
         else if identifier_text candidate
              \<and> \<not> (starts_with generated candidate \<and> is_hex64 (drop (length generated) candidate))
         then Inr candidate else Inr (generated @ sha (utf8_encode candidate)))"

section \<open>Recording a denial\<close>

fun denial_rows :: "string \<Rightarrow> string \<Rightarrow> string \<Rightarrow> string \<Rightarrow> int \<Rightarrow> string list \<Rightarrow> (string \<times> int) list \<Rightarrow> jdict list" where
  "denial_rows organization actor reason occurred n ids [] = []"
| "denial_rows organization actor reason occurred n ids ((plan, version) # ps) =
     [(''organization_id'', JStr organization), (''event_id'', JStr (hd ids)), (''sequence'', JInt (n + 1)),
      (''actor_id'', JStr actor), (''operation'', JStr ''reserve_denied''), (''entity_id'', JStr plan),
      (''entity_version'', JInt version), (''reason_code'', JStr reason), (''occurred_at'', JStr occurred)]
     # denial_rows organization actor reason occurred (n + 1) (tl ids) ps"

definition sorted_plans :: "(string \<times> int) list \<Rightarrow> (string \<times> int) list" where
  "sorted_plans plans = sort_key fst (sort_key snd (remdups plans))"

definition record_work_budget_denial :: "(nat \<Rightarrow> string) \<Rightarrow> budget_tables \<Rightarrow> string \<Rightarrow> string \<Rightarrow> string
    \<Rightarrow> (string \<times> int) list \<Rightarrow> string \<Rightarrow> store_error + budget_tables" where
  "record_work_budget_denial ids bt organization actor reason plans occurred =
     (let ps = sorted_plans plans; maximum = max_sequence (bt_audit bt) organization;
          unavailable = Inl (Reservation_Denied ''Work-budget denial evidence is unavailable.'')
      in if ps = [] \<or> \<not> len_between 1 128 actor \<or> \<not> canonical_timestamp occurred
            \<or> max_integer < maximum + int (length ps)
         then unavailable
         else Inr (bt\<lparr>bt_audit := bt_audit bt @
                denial_rows organization actor reason occurred maximum (map ids [0..<length ps]) ps\<rparr>))"

end
