(* ===== verification/Provider_Events.thy ===== *)
theory Provider_Events
  imports Audit_Contracts
begin

text \<open>
  Content-free provider evidence (\<^verbatim>\<open>src/hormuz/provider_reliability.py\<close>): the timing record of one egress
  and the link of a failover to the attempt it replaces. Then the audit events the stored usage and secret
  rows are turned into (\<^verbatim>\<open>src/hormuz/evidence.py\<close>). A fresh \<^verbatim>\<open>uuid4\<close> and the time are arguments.
\<close>

section \<open>Provider metrics and failover\<close>

record provider_metrics =
  pm_status :: json
  pm_headers_us :: json
  pm_first_byte_us :: json
  pm_total_us :: json
  pm_bytes_read :: json
  pm_bytes_sent :: json
  pm_transformed :: bool

record failover_context =
  fc_original :: string
  fc_status :: int
  fc_reason :: string

definition failover_reason :: "int \<Rightarrow> string option" where
  "failover_reason status = map_of [(429, ''provider_rate_limited''), (529, ''provider_overloaded'')] status"

definition metrics_error :: string where
  "metrics_error = ''provider_attempt_metrics_invalid''"

definition reliability_identifier :: "json \<Rightarrow> string res" where
  "reliability_identifier v = (case v of
      JStr s \<Rightarrow> if len_between 1 128 s \<and> list_all (\<lambda>c. c \<notin> {CHR 0x00, CHR 0x0D, CHR 0x0A}) s
                then Inr s else Inl ''provider_reliability_evidence_invalid''
    | _ \<Rightarrow> Inl ''provider_reliability_evidence_invalid'')"

definition counter_of :: "json \<Rightarrow> int res" where
  "counter_of v = (case v of
      JInt i \<Rightarrow> if 0 \<le> i \<and> i < max_integer then Inr i else Inl metrics_error
    | _ \<Rightarrow> Inl metrics_error)"

definition optional_counter_of :: "json \<Rightarrow> int option res" where
  "optional_counter_of v = (if v = JNull then Inr None else rbind (counter_of v) (\<lambda>i. Inr (Some i)))"

definition provider_status_ok :: "json \<Rightarrow> bool" where
  "provider_status_ok v = (case v of JNull \<Rightarrow> True | JInt i \<Rightarrow> 100 \<le> i \<and> i \<le> 599 | _ \<Rightarrow> False)"

definition timings_ordered :: "int option \<Rightarrow> int option \<Rightarrow> int \<Rightarrow> bool" where
  "timings_ordered headers first whole =
     ((case headers of None \<Rightarrow> True | Some h \<Rightarrow> h \<le> whole) \<and>
      (case first of None \<Rightarrow> True
       | Some f \<Rightarrow> f \<le> whole \<and> (case headers of None \<Rightarrow> False | Some h \<Rightarrow> h \<le> f)))"

definition validate_metrics_event :: "jdict \<Rightarrow> unit res" where
  "validate_metrics_event ev =
     rbind (reliability_identifier (dget ev ''event_id'')) (\<lambda>_.
     rbind (reliability_identifier (dget ev ''organization_id'')) (\<lambda>_.
     rbind (reliability_identifier (dget ev ''attempt_id'')) (\<lambda>_.
     if \<not> provider_status_ok (dget ev ''provider_status'') then Inl metrics_error
     else rbind (optional_counter_of (dget ev ''response_headers_us'')) (\<lambda>headers.
     rbind (optional_counter_of (dget ev ''first_body_byte_us'')) (\<lambda>first.
     rbind (counter_of (dget ev ''total_us'')) (\<lambda>whole.
     rbind (counter_of (dget ev ''provider_bytes_read'')) (\<lambda>provider_bytes.
     rbind (counter_of (dget ev ''downstream_bytes_sent'')) (\<lambda>downstream.
     if \<not> timings_ordered headers first whole
        \<or> equals_one (dget ev ''event_schema_version'') \<and> provider_bytes < downstream
     then Inl metrics_error else Inr ()))))))))"

definition build_provider_attempt_metrics_event :: "string \<Rightarrow> string \<Rightarrow> string \<Rightarrow> string \<Rightarrow> provider_metrics
    \<Rightarrow> jdict res" where
  "build_provider_attempt_metrics_event event_id attempt organization recorded m =
     (let ev = [(''event_id'', JStr event_id), (''event_schema_id'', JStr ''hormuz.provider-attempt-metrics''),
        (''event_schema_version'', JInt (if pm_transformed m then 2 else 1)),
        (''organization_id'', JStr organization), (''attempt_id'', JStr attempt),
        (''recorded_at'', JStr recorded), (''provider_status'', pm_status m),
        (''response_headers_us'', pm_headers_us m), (''first_body_byte_us'', pm_first_byte_us m),
        (''total_us'', pm_total_us m), (''provider_bytes_read'', pm_bytes_read m),
        (''downstream_bytes_sent'', pm_bytes_sent m)]
      in rbind (validate_metrics_event ev) (\<lambda>_. Inr ev))"

definition validate_failover_event :: "jdict \<Rightarrow> unit res" where
  "validate_failover_event ev =
     rbind (reliability_identifier (dget ev ''event_id'')) (\<lambda>_.
     rbind (reliability_identifier (dget ev ''organization_id'')) (\<lambda>_.
     rbind (reliability_identifier (dget ev ''original_attempt_id'')) (\<lambda>original.
     rbind (reliability_identifier (dget ev ''failover_attempt_id'')) (\<lambda>failover.
     if original = failover
        \<or> (case (dget ev ''trigger_status'', dget ev ''reason_code'') of
             (JInt status, JStr reason) \<Rightarrow> failover_reason status \<noteq> Some reason
           | (JInt status, JNull) \<Rightarrow> failover_reason status \<noteq> None
           | _ \<Rightarrow> True)
     then Inl ''provider_failover_evidence_invalid'' else Inr ()))))"

definition build_provider_failover_event :: "string \<Rightarrow> string \<Rightarrow> string \<Rightarrow> string \<Rightarrow> failover_context
    \<Rightarrow> jdict res" where
  "build_provider_failover_event event_id organization failover recorded c =
     (let ev = [(''event_id'', JStr event_id), (''event_schema_id'', JStr ''hormuz.provider-failover''),
        (''event_schema_version'', JInt 1), (''organization_id'', JStr organization),
        (''original_attempt_id'', JStr (fc_original c)), (''failover_attempt_id'', JStr failover),
        (''trigger_status'', JInt (fc_status c)), (''reason_code'', JStr (fc_reason c)),
        (''recorded_at'', JStr recorded)]
      in rbind (validate_failover_event ev) (\<lambda>_. Inr ev))"

section \<open>Audit events of stored rows\<close>

definition malformed_row :: string where
  "malformed_row = ''stored_evidence_malformed''"

definition unsupported_row :: string where
  "unsupported_row = ''stored_evidence_schema_unsupported''"

definition stored_field :: "jdict \<Rightarrow> string \<Rightarrow> json res" where
  "stored_field stored name = (if has_key stored name then Inr (dget stored name) else Inl malformed_row)"

definition stored_fields :: "jdict \<Rightarrow> string list \<Rightarrow> jdict res" where
  "stored_fields stored = rmap_list (\<lambda>name. rbind (stored_field stored name) (\<lambda>v. Inr (name, v)))"

definition stored_string_list :: "jdict \<Rightarrow> string \<Rightarrow> json res" where
  "stored_string_list stored name = rbind (stored_field stored name) (\<lambda>v. case v of
      JStr s \<Rightarrow> (case loads s of
          Some (JList items) \<Rightarrow> if list_all is_str items then Inr (JList items) else Inl malformed_row
        | _ \<Rightarrow> Inl malformed_row)
    | _ \<Rightarrow> Inl malformed_row)"

definition stored_version :: "jdict \<Rightarrow> int res" where
  "stored_version stored = rbind (stored_field stored ''evidence_schema_version'') (\<lambda>v. case v of
      JInt i \<Rightarrow> Inr i | _ \<Rightarrow> Inl unsupported_row)"

definition require_current_schema :: "jdict \<Rightarrow> unit res" where
  "require_current_schema stored = rbind (stored_field stored ''evidence_schema_id'') (\<lambda>v.
     if v = JStr ''hormuz.audit-event'' then Inr () else Inl unsupported_row)"

definition validated_event :: "jdict \<Rightarrow> jdict res" where
  "validated_event ev = (if validate_audit_event ev then Inr ev else Inl malformed_row)"

definition usage_audit_event :: "jdict \<Rightarrow> jdict res" where
  "usage_audit_event stored = rbind (stored_version stored) (\<lambda>version.
     if version = 1 then
       rbind (stored_fields stored [''id'', ''occurred_at'', ''actor_id'', ''actor_name'', ''team_id'',
         ''team_name'', ''client'', ''protocol'', ''requested_model'', ''resolved_alias'', ''upstream_model'',
         ''policy_action'', ''status'', ''input_tokens'', ''output_tokens'', ''cache_read_tokens'',
         ''cache_write_tokens'', ''reasoning_tokens'', ''cost_microusd'', ''provider_request_id'',
         ''redaction_count'']) (\<lambda>fields.
       rbind (stored_string_list stored ''redaction_rules'') (\<lambda>rules.
       validated_event ([(''schema_version'', JInt 1), (''event_type'', JStr ''usage'')] @ fields @
         [(''redaction_rules'', rules)])))
     else if version = 2 then
       rbind (require_current_schema stored) (\<lambda>_.
       rbind (stored_fields stored [''id'', ''occurred_at'', ''organization_id'', ''actor_id'', ''actor_name'',
         ''team_id'', ''team_name'', ''identity_type'', ''authentication_source'', ''client'', ''protocol'',
         ''requested_model'', ''resolved_alias'']) (\<lambda>first.
       rbind (stored_field stored ''upstream_model'') (\<lambda>routed.
       rbind (stored_fields stored [''provider_reported_model'', ''policy_version'', ''policy_action'',
         ''status'', ''input_tokens'', ''output_tokens'', ''cache_read_tokens'', ''cache_write_tokens'',
         ''reasoning_tokens'', ''cost_microusd'', ''cost_basis'', ''allocation_basis'', ''coverage'',
         ''provider_request_id'', ''redaction_count'']) (\<lambda>second.
       rbind (stored_string_list stored ''redaction_rules'') (\<lambda>rules.
       validated_event ([(''schema_id'', JStr ''hormuz.audit-event''), (''schema_version'', JInt 2),
         (''event_type'', JStr ''usage'')] @ first @ [(''routed_model'', routed)] @ second @
         [(''redaction_rules'', rules)]))))))
     else Inl unsupported_row)"

definition security_audit_event :: "jdict \<Rightarrow> jdict res" where
  "security_audit_event stored = rbind (stored_version stored) (\<lambda>version.
     if version = 1 then
       rbind (stored_fields stored [''id'', ''occurred_at'', ''actor_id'', ''actor_name'', ''team_id'',
         ''team_name'', ''client'', ''protocol'', ''requested_model'', ''action'', ''detection_count'']) (\<lambda>fields.
       rbind (stored_string_list stored ''rules'') (\<lambda>rules.
       validated_event ([(''schema_version'', JInt 1), (''event_type'', JStr ''security.secret'')] @ fields @
         [(''rules'', rules)])))
     else if version = 2 then
       rbind (require_current_schema stored) (\<lambda>_.
       rbind (stored_fields stored [''id'', ''occurred_at'', ''organization_id'', ''actor_id'', ''actor_name'',
         ''team_id'', ''team_name'', ''identity_type'', ''authentication_source'', ''client'', ''protocol'',
         ''requested_model'', ''policy_version'', ''coverage'', ''action'', ''detection_count'']) (\<lambda>fields.
       rbind (stored_string_list stored ''rules'') (\<lambda>rules.
       validated_event ([(''schema_id'', JStr ''hormuz.audit-event''), (''schema_version'', JInt 2),
         (''event_type'', JStr ''security.secret'')] @ fields @ [(''rules'', rules)]))))
     else Inl unsupported_row)"

end
