(* ===== verification/Router_Config.thy ===== *)
theory Router_Config
  imports Py_Prelude
begin

text \<open>
  Configuration facts of the router (\<^verbatim>\<open>src/hormuz/config.py\<close>): upstreams, model routes with their
  configured prices, identities and policies, the overlay of a narrower policy scope, and the
  reference checks that every loaded configuration has passed. A price field is the exact decimal
  \<^verbatim>\<open>Decimal(str(rate))\<close> the code computes with, as a rational; the code's 96-digit decimal context
  is exact for every product of a token count and such a rate below 96 digits.
\<close>

section \<open>Records\<close>

record upstream =
  up_base_url :: string
  up_api_key_env :: "string option"
  up_envelope_path :: "string option"
  up_allow_response_storage :: bool
  up_allow_background :: bool
  up_protocol :: "string option"
  up_locality :: string
  up_authentication :: string

record model_route =
  rt_alias :: string
  rt_protocol :: string
  rt_upstream_model :: string
  rt_input_rate :: rat
  rt_cache_read_rate :: rat
  rt_cache_write_rate :: rat
  rt_output_rate :: rat
  rt_failover_alias :: "string option"
  rt_destination :: "string option"
  rt_model_revision :: "string option"
  rt_capabilities :: "string list"
  rt_explicit_price_fields :: "string list"

record identity =
  id_token_env :: string
  id_token :: string
  id_actor :: string
  id_actor_name :: string
  id_team :: string
  id_team_name :: string
  id_allowed_clients :: "string list"
  id_organization :: string
  id_clearance :: string
  id_identity_type :: string
  id_authentication_source :: string
  id_token_file :: "string option"

record policy =
  pol_allowed_clients :: "string list option"
  pol_allowed_models :: "string list option"
  pol_fallback_model :: "string option"
  pol_fallback_models :: "(string \<times> string) list option"
  pol_max_output_tokens :: "int option"
  pol_monthly_token_limit :: "int option"
  pol_monthly_budget_usd :: "rat option"
  pol_per_actor_budget_usd :: "rat option"

type_synonym routes = "(string \<times> model_route) list"
type_synonym upstreams = "(string \<times> upstream) list"

text \<open>
  An upstream's finance identity is not modelled. \<open>cfg_policy_version\<close> and
  \<open>cfg_policy_content_sha256\<close> below are the values of the configuration's properties of that name,
  digests of its canonical text.

  \<^verbatim>\<open>self.destination or self.protocol\<close>: an empty destination counts as absent.\<close>

definition destination_id :: "model_route \<Rightarrow> string" where
  "destination_id r = (case rt_destination r of
      None \<Rightarrow> rt_protocol r
    | Some d \<Rightarrow> if d = [] then rt_protocol r else d)"

section \<open>Prices\<close>

datatype rounding = Ceiling | Half_Even

fun to_integral :: "rounding \<Rightarrow> rat \<Rightarrow> int" where
  "to_integral Ceiling q = \<lceil>q\<rceil>"
| "to_integral Half_Even q = round_half_even q"

definition parts_sum :: "(int \<times> rat) list \<Rightarrow> rat" where
  "parts_sum parts = sum_list (map (\<lambda>(tokens, rate). of_int (max 0 tokens) * max 0 rate) parts)"

definition route_cost_microusd :: "(int \<times> rat) list \<Rightarrow> rounding \<Rightarrow> int" where
  "route_cost_microusd parts rounding = max 0 (to_integral rounding (parts_sum parts))"

definition estimate_reservation_cost_microusd :: "model_route \<Rightarrow> int \<Rightarrow> int \<Rightarrow> int" where
  "estimate_reservation_cost_microusd r input_tokens output_tokens =
     (let input_rate = max (max (max 0 (rt_input_rate r)) (rt_cache_read_rate r))
                           (rt_cache_write_rate r);
          output_rate = max 0 (rt_output_rate r)
      in route_cost_microusd [(input_tokens, input_rate), (output_tokens, output_rate)] Ceiling)"

definition uncached_input :: "model_route \<Rightarrow> int \<Rightarrow> int \<Rightarrow> int \<Rightarrow> int" where
  "uncached_input r input_tokens cache_read cache_write =
     (if rt_protocol r = ''anthropic'' then input_tokens
      else max 0 (input_tokens - cache_read - cache_write))"

definition estimate_cost_microusd :: "model_route \<Rightarrow> int \<Rightarrow> int \<Rightarrow> int \<Rightarrow> int \<Rightarrow> int" where
  "estimate_cost_microusd r input_tokens output_tokens cache_read cache_write =
     route_cost_microusd
       [(uncached_input r input_tokens cache_read cache_write, rt_input_rate r),
        (cache_read, rt_cache_read_rate r),
        (cache_write, rt_cache_write_rate r),
        (output_tokens, rt_output_rate r)] Half_Even"

lemma parts_sum_simps [simp]:
  "parts_sum [] = 0"
  "parts_sum ((t, q) # ps) = of_int (max 0 t) * max 0 q + parts_sum ps"
  by (simp_all add: parts_sum_def)

lemma parts_sum_nonneg: "0 \<le> parts_sum ps"
  by (induction ps) auto

lemma to_integral_half_even_le_ceiling:
  "p \<le> q \<Longrightarrow> to_integral Half_Even p \<le> to_integral Ceiling q"
  using round_half_even_le_ceiling [of p] ceiling_mono [of p q] by simp

text \<open>Tokens priced at different rates cost no more than all of them at the highest rate.\<close>

lemma parts_le_max_rate:
  fixes m :: rat
  assumes "max 0 q1 \<le> m" "max 0 q2 \<le> m" "max 0 q3 \<le> m"
    and "max 0 (a::int) + max 0 b + max 0 c \<le> n"
  shows "of_int (max 0 a) * max 0 q1 + of_int (max 0 b) * max 0 q2 + of_int (max 0 c) * max 0 q3
           \<le> of_int (max 0 n) * m"
proof -
  have m: "0 \<le> m" using assms(1) by simp
  have "of_int (max 0 a) * max 0 q1 + of_int (max 0 b) * max 0 q2 + of_int (max 0 c) * max 0 q3
        \<le> of_int (max 0 a) * m + of_int (max 0 b) * m + of_int (max 0 c) * m"
    by (intro add_mono mult_left_mono assms(1-3)) auto
  also have "\<dots> = of_int (max 0 a + max 0 b + max 0 c) * m"
    by (simp only: of_int_add distrib_right)
  also have "\<dots> \<le> of_int (max 0 n) * m"
  proof (rule mult_right_mono [OF _ m])
    have "max 0 a + max 0 b + max 0 c \<le> max 0 n" using assms(4) by linarith
    then show "(of_int (max 0 a + max 0 b + max 0 c) :: rat) \<le> of_int (max 0 n)"
      by (simp only: of_int_le_iff)
  qed
  finally show ?thesis .
qed

section \<open>Policy overlay\<close>

definition tuple_intersection :: "string list option \<Rightarrow> string list option \<Rightarrow> string list option" where
  "tuple_intersection parent child =
     (case parent of None \<Rightarrow> child
      | Some p \<Rightarrow> (case child of None \<Rightarrow> parent | Some c \<Rightarrow> Some (filter (\<lambda>v. v \<in> set p) c)))"

definition list_or_empty :: "'a list option \<Rightarrow> 'a list" where
  "list_or_empty m = (case m of None \<Rightarrow> [] | Some xs \<Rightarrow> xs)"

definition none_if_empty :: "'a list \<Rightarrow> 'a list option" where
  "none_if_empty xs = (if xs = [] then None else Some xs)"

definition overlaid :: "policy \<Rightarrow> policy option \<Rightarrow> policy" where
  "overlaid p other = (case other of
      None \<Rightarrow> p
    | Some q \<Rightarrow> \<lparr>
        pol_allowed_clients = tuple_intersection (pol_allowed_clients p) (pol_allowed_clients q),
        pol_allowed_models = tuple_intersection (pol_allowed_models p) (pol_allowed_models q),
        pol_fallback_model =
          (case pol_fallback_model q of None \<Rightarrow> pol_fallback_model p | Some f \<Rightarrow> Some f),
        pol_fallback_models = none_if_empty
          (dict_update (list_or_empty (pol_fallback_models p)) (list_or_empty (pol_fallback_models q))),
        pol_max_output_tokens = opt_min (pol_max_output_tokens p) (pol_max_output_tokens q),
        pol_monthly_token_limit = opt_min (pol_monthly_token_limit p) (pol_monthly_token_limit q),
        pol_monthly_budget_usd = opt_min (pol_monthly_budget_usd p) (pol_monthly_budget_usd q),
        pol_per_actor_budget_usd = opt_min (pol_per_actor_budget_usd p) (pol_per_actor_budget_usd q)\<rparr>)"

text \<open>"No wider": every list is a subset, every bound at most as large.\<close>

fun sub_allowed :: "string list option \<Rightarrow> string list option \<Rightarrow> bool" where
  "sub_allowed a None = True"
| "sub_allowed None (Some _) = False"
| "sub_allowed (Some a) (Some b) = (set a \<subseteq> set b)"

definition policy_narrower :: "policy \<Rightarrow> policy \<Rightarrow> bool" where
  "policy_narrower q p \<longleftrightarrow>
     sub_allowed (pol_allowed_clients q) (pol_allowed_clients p) \<and>
     sub_allowed (pol_allowed_models q) (pol_allowed_models p) \<and>
     tighter (pol_max_output_tokens q) (pol_max_output_tokens p) \<and>
     tighter (pol_monthly_token_limit q) (pol_monthly_token_limit p) \<and>
     tighter (pol_monthly_budget_usd q) (pol_monthly_budget_usd p) \<and>
     tighter (pol_per_actor_budget_usd q) (pol_per_actor_budget_usd p)"

lemma sub_allowed_refl [simp]: "sub_allowed a a"
  by (cases a) auto

lemma sub_allowed_trans: "sub_allowed a b \<Longrightarrow> sub_allowed b c \<Longrightarrow> sub_allowed a c"
  by (cases a; cases b; cases c) auto

lemma tuple_intersection_sub [simp]:
  "sub_allowed (tuple_intersection a b) a" "sub_allowed (tuple_intersection a b) b"
  by (auto simp: tuple_intersection_def split: option.split)

lemma overlaid_None [simp]: "overlaid p None = p"
  by (simp add: overlaid_def)

lemma policy_narrower_refl: "policy_narrower p p"
  by (simp add: policy_narrower_def)

lemma policy_narrower_trans:
  "policy_narrower r q \<Longrightarrow> policy_narrower q p \<Longrightarrow> policy_narrower r p"
  unfolding policy_narrower_def by (meson sub_allowed_trans tighter_trans)

lemma overlaid_narrower: "policy_narrower (overlaid p s) p"
  by (cases s) (simp_all add: overlaid_def policy_narrower_def)

lemma overlaid_narrower_child: "policy_narrower (overlaid p (Some q)) q"
  by (simp add: overlaid_def policy_narrower_def)

text \<open>
  The contract of scoped configuration: applying one more scope never widens. A chain of scopes
  then stays inside every one of its prefixes and inside each scope it applied.
\<close>

locale scope_overlay =
  fixes narrower :: "'p \<Rightarrow> 'p \<Rightarrow> bool"
    and overlay :: "'p \<Rightarrow> 'p option \<Rightarrow> 'p"
  assumes narrower_refl: "narrower p p"
    and narrower_trans: "narrower r q \<Longrightarrow> narrower q p \<Longrightarrow> narrower r p"
    and overlay_base: "narrower (overlay p ms) p"
    and overlay_scope: "narrower (overlay p (Some s)) s"
begin

lemma chain_narrower_base: "narrower (foldl overlay p scopes) p"
proof (induction scopes arbitrary: p)
  case Nil
  show ?case by (simp add: narrower_refl)
next
  case (Cons s scopes)
  have "narrower (foldl overlay (overlay p s) scopes) (overlay p s)" by (rule Cons.IH)
  then show ?case using narrower_trans overlay_base by simp
qed

lemma chain_narrower_scope:
  "Some s \<in> set scopes \<Longrightarrow> narrower (foldl overlay p scopes) s"
proof (induction scopes arbitrary: p)
  case Nil
  then show ?case by simp
next
  case (Cons s' scopes)
  show ?case
  proof (cases "s' = Some s")
    case True
    have "narrower (foldl overlay (overlay p s') scopes) (overlay p s')"
      by (rule chain_narrower_base)
    with True show ?thesis using narrower_trans overlay_scope by simp
  next
    case False
    with Cons show ?thesis by auto
  qed
qed

end

interpretation policy_scopes: scope_overlay policy_narrower overlaid
  by unfold_locales
    (auto intro: policy_narrower_refl policy_narrower_trans overlaid_narrower overlaid_narrower_child)

section \<open>The gateway configuration and its reference checks\<close>

record retention =
  ret_days :: json
  ret_legal_hold :: json

record gateway_config =
  cfg_routes :: routes
  cfg_upstreams :: upstreams
  cfg_organization_policy :: policy
  cfg_team_policies :: "(string \<times> policy) list"
  cfg_actor_policies :: "(string \<times> policy) list"
  cfg_identities_by_token :: "(string \<times> identity) list"
  cfg_identities_by_subject :: "((string \<times> string) \<times> identity) list"
  cfg_custody_mode :: string
  cfg_custody_retention :: "retention option"
  cfg_custody_lifecycle :: bool
  cfg_usage_backend :: string
  cfg_policy_version :: string
  cfg_policy_content_sha256 :: string
  cfg_secret_mode :: string

definition all_identities :: "gateway_config \<Rightarrow> identity list" where
  "all_identities c = map snd (cfg_identities_by_token c) @ map snd (cfg_identities_by_subject c)"

text \<open>\<^verbatim>\<open>setdefault\<close>: the first identity of an actor stays.\<close>

definition set_default :: "'k \<Rightarrow> 'v \<Rightarrow> ('k \<times> 'v) list \<Rightarrow> ('k \<times> 'v) list" where
  "set_default k v d = (if k \<in> set (keys d) then d else d @ [(k, v)])"

definition identities_by_actor :: "gateway_config \<Rightarrow> (string \<times> identity) list" where
  "identities_by_actor c = foldl (\<lambda>d i. set_default (id_actor i) i d) [] (all_identities c)"

definition organization_ids :: "gateway_config \<Rightarrow> string list" where
  "organization_ids c = sort (remdups (map id_organization (all_identities c)))"

definition identity_for_token :: "gateway_config \<Rightarrow> string \<Rightarrow> identity option" where
  "identity_for_token c token = map_of (cfg_identities_by_token c) token"

definition identity_for_subject :: "gateway_config \<Rightarrow> string \<Rightarrow> string \<Rightarrow> identity option" where
  "identity_for_subject c issuer subject = map_of (cfg_identities_by_subject c) (issuer, subject)"

definition resolved_policy :: "gateway_config \<Rightarrow> identity \<Rightarrow> policy" where
  "resolved_policy c i =
     overlaid (overlaid (cfg_organization_policy c) (map_of (cfg_team_policies c) (id_team i)))
              (map_of (cfg_actor_policies c) (id_actor i))"

definition config_policies :: "gateway_config \<Rightarrow> policy list" where
  "config_policies c =
     cfg_organization_policy c # map snd (cfg_team_policies c) @ map snd (cfg_actor_policies c)"

text \<open>The checks of one part each, in the order \<^verbatim>\<open>validate_references\<close> makes them.\<close>

definition retention_ok :: "retention \<Rightarrow> bool" where
  "retention_ok r =
     ((case ret_days r of JInt d \<Rightarrow> 1 \<le> d \<and> d \<le> 36500 | _ \<Rightarrow> False)
      \<and> (case ret_legal_hold r of JBool _ \<Rightarrow> True | _ \<Rightarrow> False))"

definition check_custody :: "gateway_config \<Rightarrow> unit res" where
  "check_custody c =
     (if cfg_custody_mode c = ''postgresql'' \<and> cfg_custody_retention c = None
      then Inl ''managed custody requires explicit custody_retention''
      else if cfg_custody_retention c \<noteq> None \<and> cfg_custody_mode c \<noteq> ''postgresql''
      then Inl ''custody_retention requires managed PostgreSQL custody control''
      else if (case cfg_custody_retention c of None \<Rightarrow> False | Some r \<Rightarrow> \<not> retention_ok r)
      then Inl ''custody_retention is invalid''
      else if cfg_custody_lifecycle c
              \<and> (cfg_custody_mode c \<noteq> ''postgresql'' \<or> cfg_usage_backend c \<noteq> ''postgresql'')
      then Inl ''custody_lifecycle requires managed PostgreSQL custody control''
      else if cfg_custody_lifecycle c \<and> length (organization_ids c) \<noteq> 1
      then Inl ''custody_lifecycle requires exactly one configured organization; use a tenant-scoped gateway configuration''
      else if (\<exists>(k, u) \<in> set (cfg_upstreams c). up_envelope_path u \<noteq> None)
              \<and> length (organization_ids c) \<noteq> 1
      then Inl ''encrypted upstream credentials require exactly one configured organization; use a tenant-scoped gateway configuration''
      else Inr ())"

definition check_failover :: "routes \<Rightarrow> string \<times> model_route \<Rightarrow> unit res" where
  "check_failover routes = (\<lambda>(alias, route). case rt_failover_alias route of
      None \<Rightarrow> Inr ()
    | Some f \<Rightarrow>
       (case map_of routes f of
          None \<Rightarrow> Inl (''Model route '' @ alias @ '' references unknown failover alias: '' @ f)
        | Some fr \<Rightarrow>
            if f = alias then Inl (''Model route '' @ alias @ '' cannot fail over to itself'')
            else if rt_protocol fr \<noteq> rt_protocol route
            then Inl (''Model route '' @ alias @ '' failover must use protocol '' @ rt_protocol route)
            else if destination_id fr \<noteq> destination_id route
            then Inl (''Model route '' @ alias @ '' failover must use the same destination'')
            else if rt_upstream_model fr = rt_upstream_model route
            then Inl (''Model route '' @ alias @ '' failover must use a distinct upstream model'')
            else Inr ()))"

definition check_policy_aliases :: "routes \<Rightarrow> policy \<Rightarrow> unit res" where
  "check_policy_aliases routes p =
     (case find (\<lambda>a. map_of routes a = None) (list_or_empty (pol_allowed_models p)) of
        Some a \<Rightarrow> Inl (''Policy references unknown model alias: '' @ a)
      | None \<Rightarrow>
     (case pol_fallback_model p of
        Some f \<Rightarrow> if map_of routes f = None
                  then Inl (''Policy references unknown fallback model alias: '' @ f) else Inr ()
      | None \<Rightarrow> Inr ()))"

definition check_policy_fallbacks :: "routes \<Rightarrow> policy \<Rightarrow> unit res" where
  "check_policy_fallbacks routes p =
     rbind (rmap_list (\<lambda>(protocol, alias). case map_of routes alias of
         None \<Rightarrow> Inl (''Policy references unknown fallback model alias: '' @ alias)
       | Some route \<Rightarrow> if rt_protocol route \<noteq> protocol
           then Inl (''Policy fallback '' @ alias @ '' does not use protocol '' @ protocol)
           else Inr ()) (list_or_empty (pol_fallback_models p)))
       (\<lambda>_. Inr ())"

definition has_monthly_limit :: "policy \<Rightarrow> bool" where
  "has_monthly_limit p = (pol_monthly_token_limit p \<noteq> None \<or> pol_monthly_budget_usd p \<noteq> None
                          \<or> pol_per_actor_budget_usd p \<noteq> None)"

definition check_bounded_identity :: "gateway_config \<Rightarrow> identity \<Rightarrow> unit res" where
  "check_bounded_identity c i =
     (if pol_max_output_tokens (resolved_policy c i) = None
      then Inl (''Identity '' @ id_actor i @ '' needs an effective max_output_tokens policy when monthly token or budget limits are configured'')
      else Inr ())"

definition validate_references :: "gateway_config \<Rightarrow> unit res" where
  "validate_references c =
     rbind (check_custody c) (\<lambda>_.
     rbind (rmap_list (check_failover (cfg_routes c)) (cfg_routes c)) (\<lambda>_.
     rbind (rmap_list (\<lambda>p. rbind (check_policy_aliases (cfg_routes c) p)
                            (\<lambda>_. check_policy_fallbacks (cfg_routes c) p)) (config_policies c)) (\<lambda>_.
     if \<exists>p \<in> set (config_policies c). has_monthly_limit p
     then rbind (rmap_list (\<lambda>(k, i). check_bounded_identity c i) (identities_by_actor c)) (\<lambda>_. Inr ())
     else Inr ())))"

section \<open>What accepted configurations satisfy\<close>

text \<open>\<open>well_referenced\<close> is what the checks are for, stated without their order.\<close>

definition failover_sound :: "routes \<Rightarrow> string \<Rightarrow> model_route \<Rightarrow> bool" where
  "failover_sound routes alias route \<longleftrightarrow>
     (\<forall>f. rt_failover_alias route = Some f \<longrightarrow>
       f \<noteq> alias \<and> (\<exists>fr. map_of routes f = Some fr \<and> rt_protocol fr = rt_protocol route \<and>
         destination_id fr = destination_id route \<and> rt_upstream_model fr \<noteq> rt_upstream_model route))"

definition aliases_known :: "routes \<Rightarrow> policy \<Rightarrow> bool" where
  "aliases_known routes p \<longleftrightarrow>
     (\<forall>a \<in> set (list_or_empty (pol_allowed_models p)). map_of routes a \<noteq> None) \<and>
     (\<forall>f. pol_fallback_model p = Some f \<longrightarrow> map_of routes f \<noteq> None) \<and>
     (\<forall>(protocol, a) \<in> set (list_or_empty (pol_fallback_models p)).
        \<exists>r. map_of routes a = Some r \<and> rt_protocol r = protocol)"

lemma check_failover_ok:
  "is_ok (check_failover routes (alias, route)) = failover_sound routes alias route"
  by (auto simp: check_failover_def failover_sound_def split: option.splits)

lemma check_policy_aliases_ok:
  "is_ok (check_policy_aliases routes p) =
     ((\<forall>a \<in> set (list_or_empty (pol_allowed_models p)). map_of routes a \<noteq> None) \<and>
      (\<forall>f. pol_fallback_model p = Some f \<longrightarrow> map_of routes f \<noteq> None))"
  by (auto simp: check_policy_aliases_def find_None_iff find_Some_iff split: option.splits)

lemma check_policy_fallbacks_ok:
  "is_ok (check_policy_fallbacks routes p) =
     (\<forall>(protocol, a) \<in> set (list_or_empty (pol_fallback_models p)).
        \<exists>r. map_of routes a = Some r \<and> rt_protocol r = protocol)"
  unfolding check_policy_fallbacks_def
  by (auto split: option.splits if_splits)

section \<open>Properties\<close>

lemma cost_parts_le_reservation:
  fixes r :: model_route
  assumes "max 0 u + max 0 cr + max 0 cw \<le> n" and "out \<le> m"
  shows "parts_sum [(u, rt_input_rate r), (cr, rt_cache_read_rate r), (cw, rt_cache_write_rate r),
                    (out, rt_output_rate r)]
         \<le> parts_sum [(n, max (max (max 0 (rt_input_rate r)) (rt_cache_read_rate r))
                                (rt_cache_write_rate r)), (m, max 0 (rt_output_rate r))]"
proof -
  let ?top = "max (max (max 0 (rt_input_rate r)) (rt_cache_read_rate r)) (rt_cache_write_rate r)"
  have "of_int (max 0 u) * max 0 (rt_input_rate r) + of_int (max 0 cr) * max 0 (rt_cache_read_rate r)
        + of_int (max 0 cw) * max 0 (rt_cache_write_rate r) \<le> of_int (max 0 n) * ?top"
    by (rule parts_le_max_rate [OF _ _ _ assms(1)]) auto
  moreover have "of_int (max 0 out) * max 0 (rt_output_rate r)
        \<le> of_int (max 0 m) * max 0 (rt_output_rate r)"
    by (rule mult_right_mono) (use assms(2) in auto)
  moreover have "max 0 ?top = ?top" "max 0 (max 0 (rt_output_rate r)) = max 0 (rt_output_rate r)"
    by auto
  ultimately show ?thesis
    unfolding parts_sum_simps add_0_right add.assoc [symmetric] by (metis add_mono)
qed

text \<open>
  C1: The cost charged after a provider response never exceeds the cost reserved before egress:
  whatever split of the input into uncached, cache-read and cache-write tokens the provider reports,
  as long as the priced input partition and the output stay within the reserved token bounds.
\<close>
theorem reservation_covers_charge:
  assumes "max 0 (uncached_input r inp cr cw) + max 0 cr + max 0 cw \<le> bound_in"
    and "out \<le> bound_out"
  shows "estimate_cost_microusd r inp out cr cw
           \<le> estimate_reservation_cost_microusd r bound_in bound_out"
proof -
  have "to_integral Half_Even (parts_sum
          [(uncached_input r inp cr cw, rt_input_rate r), (cr, rt_cache_read_rate r),
           (cw, rt_cache_write_rate r), (out, rt_output_rate r)])
        \<le> to_integral Ceiling (parts_sum
          [(bound_in, max (max (max 0 (rt_input_rate r)) (rt_cache_read_rate r))
                          (rt_cache_write_rate r)), (bound_out, max 0 (rt_output_rate r))])"
    by (rule to_integral_half_even_le_ceiling, rule cost_parts_le_reservation) (use assms in auto)
  then show ?thesis
    unfolding estimate_cost_microusd_def estimate_reservation_cost_microusd_def
      route_cost_microusd_def Let_def
    by (intro max.mono order_refl)
qed

definition example_route :: model_route where
  "example_route = \<lparr>rt_alias = ''m'', rt_protocol = ''openai'', rt_upstream_model = ''gpt'',
     rt_input_rate = 5 / 4, rt_cache_read_rate = 1 / 8, rt_cache_write_rate = 3 / 2, rt_output_rate = 10,
     rt_failover_alias = None, rt_destination = None, rt_model_revision = None,
     rt_capabilities = [''responses'', ''text''], rt_explicit_price_fields = []\<rparr>"

theorem reservation_covers_charge_witness:
  "estimate_cost_microusd example_route 100 7 30 20
     \<le> estimate_reservation_cost_microusd example_route 100 10
   \<and> estimate_cost_microusd example_route 100 7 30 20 = 166"
proof
  show "estimate_cost_microusd example_route 100 7 30 20
     \<le> estimate_reservation_cost_microusd example_route 100 10"
    by (rule reservation_covers_charge) (simp_all add: uncached_input_def example_route_def)
  show "estimate_cost_microusd example_route 100 7 30 20 = 166"
    by code_simp
qed

text \<open>
  C2: The policy in effect for an identity is never wider than its organization's, its team's or its
  actor's: no scope can grant a client or model an outer one withholds, or raise one of its limits.
\<close>
theorem resolved_policy_narrows_every_scope:
  "policy_narrower (resolved_policy c i) (cfg_organization_policy c) \<and>
   (\<forall>p. map_of (cfg_team_policies c) (id_team i) = Some p \<longrightarrow> policy_narrower (resolved_policy c i) p) \<and>
   (\<forall>p. map_of (cfg_actor_policies c) (id_actor i) = Some p \<longrightarrow> policy_narrower (resolved_policy c i) p)"
proof -
  let ?scopes = "[map_of (cfg_team_policies c) (id_team i), map_of (cfg_actor_policies c) (id_actor i)]"
  have eq: "resolved_policy c i = foldl overlaid (cfg_organization_policy c) ?scopes"
    by (simp add: resolved_policy_def)
  have "Some p \<in> set ?scopes \<Longrightarrow> policy_narrower (resolved_policy c i) p" for p
    unfolding eq by (rule policy_scopes.chain_narrower_scope)
  moreover have "policy_narrower (resolved_policy c i) (cfg_organization_policy c)"
    unfolding eq by (rule policy_scopes.chain_narrower_base)
  ultimately show ?thesis by (metis list.set_intros)
qed

definition example_policy :: policy where
  "example_policy = \<lparr>pol_allowed_clients = None, pol_allowed_models = Some [''m''],
     pol_fallback_model = None, pol_fallback_models = None, pol_max_output_tokens = Some 500,
     pol_monthly_token_limit = None, pol_monthly_budget_usd = Some 10,
     pol_per_actor_budget_usd = None\<rparr>"

definition example_identity :: identity where
  "example_identity = \<lparr>id_token_env = ''ALICE_TOKEN'', id_token = ''t'', id_actor = ''alice'',
     id_actor_name = ''Alice'', id_team = ''core'', id_team_name = ''Core'',
     id_allowed_clients = [''codex''], id_organization = ''org'', id_clearance = ''internal'',
     id_identity_type = ''human'', id_authentication_source = ''static'', id_token_file = None\<rparr>"

definition example_routes :: routes where
  "example_routes = [(''m'', example_route\<lparr>rt_failover_alias := Some ''n''\<rparr>),
     (''n'', example_route\<lparr>rt_alias := ''n'', rt_upstream_model := ''gpt-small''\<rparr>)]"

definition example_upstream :: upstream where
  "example_upstream = \<lparr>up_base_url = ''https://api'', up_api_key_env = Some ''KEY'',
     up_envelope_path = None, up_allow_response_storage = False, up_allow_background = False,
     up_protocol = None, up_locality = ''cloud'', up_authentication = ''api_key''\<rparr>"

definition example_config :: gateway_config where
  "example_config = \<lparr>cfg_routes = example_routes,
     cfg_upstreams = [(''openai'', example_upstream)],
     cfg_organization_policy = example_policy,
     cfg_team_policies = [(''core'', example_policy\<lparr>pol_allowed_models := Some [''n'', ''m''],
        pol_max_output_tokens := Some 900\<rparr>)],
     cfg_actor_policies = [], cfg_identities_by_token = [(''t'', example_identity)],
     cfg_identities_by_subject = [], 
     cfg_custody_mode = ''local'', cfg_custody_retention = None,
     cfg_custody_lifecycle = False, cfg_usage_backend = ''sqlite'',
     cfg_policy_version = ''local-config-0'', cfg_policy_content_sha256 = ''0'', cfg_secret_mode = ''redact''\<rparr>"

theorem resolved_policy_narrows_every_scope_witness:
  "policy_narrower (resolved_policy example_config example_identity)
     (example_policy\<lparr>pol_allowed_models := Some [''n'', ''m''], pol_max_output_tokens := Some 900\<rparr>)
   \<and> pol_allowed_models (resolved_policy example_config example_identity) = Some [''m'']
   \<and> pol_max_output_tokens (resolved_policy example_config example_identity) = Some 500"
proof -
  have "map_of (cfg_team_policies example_config) (id_team example_identity)
     = Some (example_policy\<lparr>pol_allowed_models := Some [''n'', ''m''], pol_max_output_tokens := Some 900\<rparr>)"
    by (simp add: example_config_def example_identity_def)
  with resolved_policy_narrows_every_scope [of example_config example_identity]
  have "policy_narrower (resolved_policy example_config example_identity)
     (example_policy\<lparr>pol_allowed_models := Some [''n'', ''m''], pol_max_output_tokens := Some 900\<rparr>)"
    by blast
  then show ?thesis
    by (simp add: resolved_policy_def example_config_def example_identity_def overlaid_def
        example_policy_def tuple_intersection_def)
qed

lemma check_custody_unit: "check_custody c = Inr u \<Longrightarrow> u = ()"
  by simp



end
