(* ===== verification/Destinations.thy ===== *)
theory Destinations
  imports Router_Config
begin

text \<open>
  Destination ownership (\<^verbatim>\<open>src/hormuz/execution_destination.py\<close>): at start-up every route is bound to
  one destination with its transport, credential and generation, and a request can only resolve the
  route exactly as it was captured. The random generation token of the \<open>n\<close>-th route is the argument
  \<open>fresh n\<close>; SHA-256 of a JSON value is the argument \<open>sha\<close>.
\<close>

record exec_destination =
  ed_name :: string
  ed_protocol :: string
  ed_upstream :: upstream
  ed_model :: string
  ed_generation :: string
  ed_credential :: string
  ed_model_revision :: "string option"
  ed_capabilities :: "string list"

definition ed_locality :: "exec_destination \<Rightarrow> string" where
  "ed_locality d = up_locality (ed_upstream d)"

record destinations =
  ds_resolved :: "(string \<times> exec_destination) list"
  ds_routes :: routes

definition bound_destination ::
  "upstream \<Rightarrow> (string \<times> string) list \<Rightarrow> model_route \<Rightarrow> string \<Rightarrow> exec_destination" where
  "bound_destination up creds route generation =
     (let name = destination_id route in
      \<lparr>ed_name = name, ed_protocol = rt_protocol route, ed_upstream = up,
       ed_model = rt_upstream_model route, ed_generation = generation,
       ed_credential = (case map_of creds name of None \<Rightarrow> [] | Some c \<Rightarrow> c),
       ed_model_revision = rt_model_revision route,
       ed_capabilities = rt_capabilities route\<rparr>)"

fun capture_from :: "(nat \<Rightarrow> string) \<Rightarrow> nat \<Rightarrow> upstreams \<Rightarrow> (string \<times> string) list \<Rightarrow> routes
    \<Rightarrow> (string \<times> exec_destination) list res" where
  "capture_from fresh n ups creds [] = Inr []"
| "capture_from fresh n ups creds ((alias, route) # rest) =
     (case map_of ups (destination_id route) of
        None \<Rightarrow> Inl ''KeyError''
      | Some up \<Rightarrow> rbind (capture_from fresh (Suc n) ups creds rest) (\<lambda>ds.
          Inr ((alias, bound_destination up creds route (fresh n)) # ds)))"

definition execution_destinations ::
  "(nat \<Rightarrow> string) \<Rightarrow> upstreams \<Rightarrow> routes \<Rightarrow> (string \<times> string) list \<Rightarrow> destinations res" where
  "execution_destinations fresh ups rts creds =
     rbind (capture_from fresh 0 ups creds rts) (\<lambda>ds. Inr \<lparr>ds_resolved = ds, ds_routes = rts\<rparr>)"

definition resolve :: "destinations \<Rightarrow> model_route \<Rightarrow> exec_destination res" where
  "resolve ds route =
     (case map_of (ds_routes ds) (rt_alias route) of
        None \<Rightarrow> Inl ''KeyError''
      | Some r \<Rightarrow>
          if route \<noteq> r then Inl ''execution_destination_generation_changed''
          else (case map_of (ds_resolved ds) (rt_alias route) of
                  None \<Rightarrow> Inl ''KeyError''
                | Some d \<Rightarrow> Inr d))"

definition uses_metadata :: "destinations \<Rightarrow> model_route \<Rightarrow> bool res" where
  "uses_metadata ds route = rbind (resolve ds route) (\<lambda>d.
     Inr (rt_destination route \<noteq> None \<or> rt_model_revision route \<noteq> None \<or> rt_capabilities route \<noteq> []
          \<or> ed_name d \<notin> {''openai'', ''anthropic''} \<or> ed_locality d \<noteq> ''cloud''
          \<or> up_authentication (ed_upstream d) \<noteq> ''api_key''))"

definition destination_headers :: "exec_destination \<Rightarrow> (string \<times> string) list" where
  "destination_headers d =
     [(''X-Hormuz-Destination'', ed_name d),
      (''X-Hormuz-Destination-Locality'', ed_locality d),
      (''X-Hormuz-Destination-Generation'', ed_generation d)]"

definition response_headers :: "destinations \<Rightarrow> model_route \<Rightarrow> (string \<times> string) list res" where
  "response_headers ds route = rbind (uses_metadata ds route) (\<lambda>m.
     if \<not> m then Inr [] else rbind (resolve ds route) (\<lambda>d. Inr (destination_headers d)))"

text \<open>\<^verbatim>\<open>any\<close> stops at the first route that uses metadata, and raises as the first failing one does.\<close>

fun any_uses_metadata :: "destinations \<Rightarrow> model_route list \<Rightarrow> bool res" where
  "any_uses_metadata ds [] = Inr False"
| "any_uses_metadata ds (r # rs) =
     rbind (uses_metadata ds r) (\<lambda>m. if m then Inr True else any_uses_metadata ds rs)"

definition metadata_enabled :: "destinations \<Rightarrow> bool res" where
  "metadata_enabled ds = any_uses_metadata ds (map snd (ds_routes ds))"

definition contract_header :: "destinations \<Rightarrow> model_route \<Rightarrow> string res" where
  "contract_header ds route = rbind (uses_metadata ds route) (\<lambda>m.
     Inr (if m then ''hormuz.relay-metadata;v=2'' else ''hormuz.relay-metadata;v=1''))"

definition opt_str :: "string option \<Rightarrow> json" where
  "opt_str v = (case v of None \<Rightarrow> JNull | Some s \<Rightarrow> JStr s)"

definition describe :: "destinations \<Rightarrow> model_route \<Rightarrow> json res" where
  "describe ds route = rbind (resolve ds route) (\<lambda>d. Inr (JDict
     [(''destination'', JStr (ed_name d)), (''protocol'', JStr (ed_protocol d)),
      (''locality'', JStr (ed_locality d)),
      (''authentication'', JStr (up_authentication (ed_upstream d))),
      (''generation'', JStr (ed_generation d)), (''upstream_model'', JStr (ed_model d)),
      (''model_revision'', opt_str (ed_model_revision d)),
      (''capabilities'', JList (map JStr (ed_capabilities d))),
      (''credential_configured'', JBool (ed_credential d \<noteq> [])),
      (''eligible'', JBool (up_authentication (ed_upstream d) = ''none'' \<or> ed_credential d \<noteq> []))]))"

definition fingerprint_facts ::
  "model_route \<Rightarrow> upstream option \<Rightarrow> string \<Rightarrow> json" where
  "fingerprint_facts route up generation = JList
     [JStr (rt_alias route), JStr (rt_protocol route), JStr (destination_id route),
      JStr (rt_upstream_model route), opt_str (rt_model_revision route),
      JList (map JStr (rt_capabilities route)),
      JFloat (rt_input_rate route), JFloat (rt_cache_read_rate route),
      JFloat (rt_cache_write_rate route), JFloat (rt_output_rate route),
      opt_str (map_option up_base_url up), opt_str (map_option up_locality up),
      opt_str (map_option up_authentication up), JStr generation]"

definition route_fingerprint ::
  "(json \<Rightarrow> string) \<Rightarrow> model_route \<Rightarrow> upstreams \<Rightarrow> destinations option \<Rightarrow> string res" where
  "route_fingerprint sha route ups dests =
     (case dests of
        None \<Rightarrow> Inr (''destination-v1:'' @ sha (fingerprint_facts route
                   (map_of ups (destination_id route)) ''unresolved-configuration''))
      | Some ds \<Rightarrow> rbind (resolve ds route) (\<lambda>d.
          Inr (''destination-v1:'' @ sha (fingerprint_facts route (Some (ed_upstream d))
                 (ed_generation d)))))"

definition eligible_upstreams :: "upstreams \<Rightarrow> routes \<Rightarrow> string list option \<Rightarrow> upstream list res" where
  "eligible_upstreams ups rts allowed =
     rmap_list (\<lambda>(alias, route). case map_of ups (destination_id route) of
                   None \<Rightarrow> Inl ''KeyError'' | Some u \<Rightarrow> Inr u)
       (filter (\<lambda>(alias, route). rt_protocol route = ''openai''
                 \<and> (case allowed of None \<Rightarrow> True | Some a \<Rightarrow> alias \<in> set a)) rts)"

record egress_permissions =
  allow_response_storage :: bool
  allow_background :: bool

definition configured_response_permissions ::
  "upstreams \<Rightarrow> routes \<Rightarrow> string list option \<Rightarrow> egress_permissions res" where
  "configured_response_permissions ups rts allowed =
     rbind (eligible_upstreams ups rts allowed) (\<lambda>es. Inr
       \<lparr>allow_response_storage = list_ex up_allow_response_storage es,
        allow_background = list_ex up_allow_background es\<rparr>)"

section \<open>Ownership\<close>

lemma capture_from_lookup:
  assumes "capture_from fresh n ups creds rts = Inr ds" and "map_of rts a = Some route"
  shows "\<exists>up k. map_of ups (destination_id route) = Some up \<and> n \<le> k
    \<and> map_of ds a = Some (bound_destination up creds route (fresh k))"
  using assms
proof (induction fresh n ups creds rts arbitrary: ds rule: capture_from.induct)
  case (1 fresh n ups creds)
  then show ?case by simp
next
  case (2 fresh n ups creds al r rest)
  from "2.prems"(1) obtain up ds' where up: "map_of ups (destination_id r) = Some up"
    and rest: "capture_from fresh (Suc n) ups creds rest = Inr ds'"
    and ds: "ds = (al, bound_destination up creds r (fresh n)) # ds'"
    by (auto split: option.splits)
  show ?case
  proof (cases "a = al")
    case True
    with "2.prems"(2) up ds show ?thesis by auto
  next
    case False
    with "2.prems"(2) have "map_of rest a = Some route" by simp
    from "2.IH" [OF up rest this] obtain up' k where
      "map_of ups (destination_id route) = Some up'" "Suc n \<le> k"
      "map_of ds' a = Some (bound_destination up' creds route (fresh k))" by blast
    then have "map_of ups (destination_id route) = Some up' \<and> n \<le> k \<and>
        map_of ds a = Some (bound_destination up' creds route (fresh k))"
      using False ds by simp
    then show ?thesis by blast
  qed
qed

lemma capture_from_ok_iff:
  "is_ok (capture_from fresh n ups creds rts) =
     (\<forall>(a, r) \<in> set rts. map_of ups (destination_id r) \<noteq> None)"
  by (induction rts arbitrary: n) (auto split: option.splits)

text \<open>
  C4: Every route of a start-up generation resolves to the endpoint, model and credential configured
  for its own destination, so the three cannot be recombined; a route that differs from the captured
  one in any field is refused, whatever the field.
\<close>
theorem resolve_owns_destination:
  assumes "execution_destinations fresh ups rts creds = Inr ds"
    and "map_of rts (rt_alias captured) = Some captured"
  shows "(\<exists>d. resolve ds captured = Inr d \<and> ed_name d = destination_id captured
            \<and> map_of ups (ed_name d) = Some (ed_upstream d) \<and> ed_model d = rt_upstream_model captured
            \<and> ed_credential d = (case map_of creds (ed_name d) of None \<Rightarrow> [] | Some c \<Rightarrow> c))
    \<and> (\<forall>other. rt_alias other = rt_alias captured \<longrightarrow> other \<noteq> captured \<longrightarrow>
         resolve ds other = Inl ''execution_destination_generation_changed'')"
proof -
  obtain rs where rs: "capture_from fresh 0 ups creds rts = Inr rs"
    and ds: "ds = \<lparr>ds_resolved = rs, ds_routes = rts\<rparr>"
    using assms(1) by (auto simp: execution_destinations_def)
  from capture_from_lookup [OF rs assms(2)] show ?thesis
    by (auto simp: ds resolve_def assms(2) bound_destination_def Let_def)
qed

definition example_upstreams :: upstreams where
  "example_upstreams = [(''openai'', example_upstream), (''llama'',
     example_upstream\<lparr>up_base_url := ''http://127.0.0.1:8080'', up_locality := ''local'',
       up_authentication := ''none'', up_api_key_env := None\<rparr>)]"

definition local_route :: model_route where
  "local_route = example_route\<lparr>rt_alias := ''q'', rt_destination := Some ''llama'',
     rt_model_revision := Some ''r1''\<rparr>"

definition example_destinations :: destinations where
  "example_destinations = \<lparr>ds_resolved =
       [(''m'', bound_destination example_upstream [(''openai'', ''secret'')] example_route ''0''),
        (''q'', bound_destination (the (map_of example_upstreams ''llama'')) [(''openai'', ''secret'')]
                  local_route ''1'')],
     ds_routes = [(''m'', example_route), (''q'', local_route)]\<rparr>"

lemma example_destinations_built:
  "execution_destinations (\<lambda>n. if n = 0 then ''0'' else ''1'') example_upstreams
     [(''m'', example_route), (''q'', local_route)] [(''openai'', ''secret'')] = Inr example_destinations"
  by (simp add: example_destinations_def execution_destinations_def example_upstreams_def
      local_route_def example_route_def destination_id_def)

theorem resolve_owns_destination_witness:
  "(\<exists>d. resolve example_destinations local_route = Inr d \<and> ed_name d = ''llama''
        \<and> ed_credential d = '''') \<and>
   resolve example_destinations (local_route\<lparr>rt_destination := Some ''openai''\<rparr>)
     = Inl ''execution_destination_generation_changed''"
proof -
  have m: "map_of [(''m'', example_route), (''q'', local_route)] (rt_alias local_route) = Some local_route"
    by (simp add: local_route_def)
  have ne: "local_route\<lparr>rt_destination := Some ''openai''\<rparr> \<noteq> local_route"
    by (simp add: local_route_def example_route_def)
  have same: "rt_alias (local_route\<lparr>rt_destination := Some ''openai''\<rparr>) = rt_alias local_route" by simp
  note owns = resolve_owns_destination [OF example_destinations_built m]
  have "destination_id local_route = ''llama''" by (simp add: local_route_def destination_id_def)
  with owns have "\<exists>d. resolve example_destinations local_route = Inr d \<and> ed_name d = ''llama''
      \<and> ed_credential d = ''''" by auto
  with owns ne same show ?thesis by blast
qed

text \<open>
  Start-up succeeds exactly when every route's destination is a configured upstream, and from then
  on responses carry destination metadata precisely for the routes whose destination is not an
  untouched default cloud provider; the two relay contract versions follow the same switch.
\<close>
theorem destination_metadata_switch:
  "is_ok (execution_destinations fresh ups rts creds) =
     (\<forall>(a, r) \<in> set rts. map_of ups (destination_id r) \<noteq> None) \<and>
   (resolve ds route = Inr d \<longrightarrow>
     (let m = (rt_destination route \<noteq> None \<or> rt_model_revision route \<noteq> None \<or> rt_capabilities route \<noteq> []
               \<or> ed_name d \<notin> {''openai'', ''anthropic''} \<or> ed_locality d \<noteq> ''cloud''
               \<or> up_authentication (ed_upstream d) \<noteq> ''api_key'')
      in response_headers ds route = Inr (if m then destination_headers d else []) \<and>
         contract_header ds route
           = Inr (if m then ''hormuz.relay-metadata;v=2'' else ''hormuz.relay-metadata;v=1'')))"
proof -
  have "is_ok (execution_destinations fresh ups rts creds) = is_ok (capture_from fresh 0 ups creds rts)"
    by (simp add: execution_destinations_def)
  then show ?thesis
    by (auto simp: capture_from_ok_iff response_headers_def contract_header_def uses_metadata_def Let_def)
qed

theorem destination_metadata_switch_witness:
  "\<exists>d. resolve example_destinations local_route = Inr d \<and>
     response_headers example_destinations local_route = Inr (destination_headers d)"
proof -
  have m: "map_of [(''m'', example_route), (''q'', local_route)] (rt_alias local_route) = Some local_route"
    by (simp add: local_route_def)
  obtain d where d: "resolve example_destinations local_route = Inr d"
    by (simp add: resolve_def example_destinations_def local_route_def)
  with destination_metadata_switch [of "\<lambda>_. ''''" "[]" "[]" "[]" example_destinations local_route d]
  show ?thesis by (auto simp: Let_def local_route_def)
qed

end
