(* ===== verification/Policy_Engine.thy ===== *)
theory Policy_Engine
  imports Destinations
begin

text \<open>
  The policy engine (\<^verbatim>\<open>src/hormuz/policy.py\<close>) over one request-bound policy snapshot
  (\<^verbatim>\<open>PolicySnapshot\<close> of \<^verbatim>\<open>src/hormuz/policy_document.py\<close>): the decision on a requested model, the
  operational failover and the budget scopes of a reservation. The store's \<^verbatim>\<open>monthly_totals\<close> is the
  argument \<open>totals\<close>, of the optional actor and team filters within the organization.
\<close>

section \<open>Snapshots, totals and decisions\<close>

record snapshot =
  sn_policy_version :: string
  sn_content_sha256 :: "string option"
  sn_organization_policy :: policy
  sn_team_policy :: "policy option"
  sn_actor_policy :: "policy option"
  sn_effective_policy :: policy
  sn_openai_egress :: egress_permissions
  sn_secret_mode :: string
  sn_model_output_limits :: "(string \<times> int) list"

record monthly_totals =
  mt_requests :: int
  mt_denied_requests :: int
  mt_rate_limited_requests :: int
  mt_input_tokens :: int
  mt_output_tokens :: int
  mt_cache_read_tokens :: int
  mt_cache_write_tokens :: int
  mt_reasoning_tokens :: int
  mt_cost_microusd :: int
  mt_redaction_count :: int

definition total_tokens :: "monthly_totals \<Rightarrow> int" where
  "total_tokens t = mt_input_tokens t + mt_output_tokens t"

definition cost_usd :: "monthly_totals \<Rightarrow> rat" where
  "cost_usd t = fl64 (of_int (mt_cost_microusd t) / 1000000)"

record decision =
  dc_allowed :: bool
  dc_action :: string
  dc_reason :: string
  dc_requested_model :: string
  dc_resolved_alias :: "string option"
  dc_route :: "model_route option"
  dc_max_output_tokens :: "int option"
  dc_policy_version :: string
  dc_snapshot :: snapshot

record reservation_scope =
  rs_name :: string
  rs_actor_id :: "string option"
  rs_team_id :: "string option"
  rs_token_limit :: "int option"
  rs_cost_limit_microusd :: "int option"

type_synonym meter = "string option \<Rightarrow> string option \<Rightarrow> string \<Rightarrow> monthly_totals"

text \<open>The snapshot of the single-process configuration.\<close>

definition local_policy_snapshot :: "gateway_config \<Rightarrow> identity \<Rightarrow> snapshot res" where
  "local_policy_snapshot c i =
     (let p = resolved_policy c i in
      rbind (configured_response_permissions (cfg_upstreams c) (cfg_routes c) (pol_allowed_models p))
        (\<lambda>egress. Inr
          \<lparr>sn_policy_version = cfg_policy_version c,
           sn_content_sha256 = Some (cfg_policy_content_sha256 c),
           sn_organization_policy = cfg_organization_policy c,
           sn_team_policy = map_of (cfg_team_policies c) (id_team i),
           sn_actor_policy = map_of (cfg_actor_policies c) (id_actor i),
           sn_effective_policy = p, sn_openai_egress = egress,
           sn_secret_mode = cfg_secret_mode c, sn_model_output_limits = []\<rparr>))"

section \<open>Evaluation\<close>

definition deny :: "snapshot \<Rightarrow> string \<Rightarrow> string \<Rightarrow> decision" where
  "deny sn requested reason =
     \<lparr>dc_allowed = False, dc_action = ''denied'', dc_reason = reason, dc_requested_model = requested,
      dc_resolved_alias = None, dc_route = None, dc_max_output_tokens = None,
      dc_policy_version = sn_policy_version sn, dc_snapshot = sn\<rparr>"

definition at_limit :: "'a::linorder option \<Rightarrow> 'a \<Rightarrow> bool" where
  "at_limit limit used = (case limit of None \<Rightarrow> False | Some l \<Rightarrow> l \<le> used)"

text \<open>The scopes \<^verbatim>\<open>_check_limits\<close> inspects: name, policy and usage, widest first.\<close>

definition limit_scopes :: "meter \<Rightarrow> snapshot \<Rightarrow> identity \<Rightarrow> (string \<times> policy \<times> monthly_totals) list" where
  "limit_scopes totals sn i =
     [(''organization'', sn_organization_policy sn, totals None None (id_organization i))]
     @ (case sn_team_policy sn of None \<Rightarrow> []
        | Some p \<Rightarrow> [(''team'', p, totals None (Some (id_team i)) (id_organization i))])
     @ (case sn_actor_policy sn of None \<Rightarrow> []
        | Some p \<Rightarrow> [(''employee'', p, totals (Some (id_actor i)) None (id_organization i))])"

definition scope_limit_reason :: "monthly_totals \<Rightarrow> string \<times> policy \<times> monthly_totals \<Rightarrow> string option" where
  "scope_limit_reason actor_totals = (\<lambda>(name, p, t).
     if at_limit (pol_monthly_token_limit p) (total_tokens t)
     then Some (''The '' @ name @ '' monthly token limit has been reached.'')
     else if at_limit (pol_monthly_budget_usd p) (cost_usd t)
     then Some (''The '' @ name @ '' monthly AI budget has been reached.'')
     else if at_limit (pol_per_actor_budget_usd p) (cost_usd actor_totals)
     then Some ''The employee monthly AI budget has been reached.''
     else None)"

fun first_reason :: "('a \<Rightarrow> string option) \<Rightarrow> 'a list \<Rightarrow> string option" where
  "first_reason f [] = None"
| "first_reason f (x # xs) = (case f x of None \<Rightarrow> first_reason f xs | Some r \<Rightarrow> Some r)"

definition check_limits :: "meter \<Rightarrow> snapshot \<Rightarrow> identity \<Rightarrow> string \<Rightarrow> decision option" where
  "check_limits totals sn i requested =
     map_option (deny sn requested)
       (first_reason (scope_limit_reason (totals (Some (id_actor i)) None (id_organization i)))
                     (limit_scopes totals sn i))"

definition model_allowed :: "string list option \<Rightarrow> string \<Rightarrow> bool" where
  "model_allowed allowed a = (case allowed of None \<Rightarrow> True | Some xs \<Rightarrow> a \<in> set xs)"

text \<open>\<^verbatim>\<open>(policy.fallback_models or {}).get(protocol) or policy.fallback_model\<close>.\<close>

definition fallback_alias :: "policy \<Rightarrow> string \<Rightarrow> string option" where
  "fallback_alias p protocol =
     (case map_of (list_or_empty (pol_fallback_models p)) protocol of
        None \<Rightarrow> pol_fallback_model p
      | Some f \<Rightarrow> if f = [] then pol_fallback_model p else Some f)"

text \<open>The alias, route, action and reason after the fallback step, or \<open>None\<close> when denied.\<close>

definition select_route :: "routes \<Rightarrow> policy \<Rightarrow> string \<Rightarrow> string
    \<Rightarrow> (string \<times> model_route \<times> string \<times> string) option" where
  "select_route rts p protocol requested =
     (let usable = (case map_of rts requested of
                      Some r \<Rightarrow> if rt_protocol r = protocol
                                   \<and> model_allowed (pol_allowed_models p) requested
                                then Some r else None
                    | None \<Rightarrow> None)
      in case usable of
           Some r \<Rightarrow> Some (requested, r, ''allowed'', ''Requested model is allowed by policy.'')
         | None \<Rightarrow>
            (case fallback_alias p protocol of
               None \<Rightarrow> None
             | Some f \<Rightarrow>
                (if f = [] then None else
                 case map_of rts f of
                   None \<Rightarrow> None
                 | Some fr \<Rightarrow>
                     if rt_protocol fr \<noteq> protocol \<or> \<not> model_allowed (pol_allowed_models p) f then None
                     else Some (f, fr, ''fallback'',
                       ''Model '' @ requested @ '' is not allowed; routed to '' @ f @ ''.''))))"

definition capped_output :: "snapshot \<Rightarrow> int option \<Rightarrow> string \<Rightarrow> int option" where
  "capped_output sn cap a =
     (case map_of (sn_model_output_limits sn) a of
        None \<Rightarrow> cap
      | Some m \<Rightarrow> (case cap of None \<Rightarrow> Some m | Some c \<Rightarrow> Some (min c m)))"

definition evaluate :: "routes \<Rightarrow> meter \<Rightarrow> snapshot \<Rightarrow> identity \<Rightarrow> string \<Rightarrow> string \<Rightarrow> string
    \<Rightarrow> int option \<Rightarrow> decision" where
  "evaluate rts totals sn i client protocol requested requested_tokens =
     (let p = sn_effective_policy sn in
      if id_allowed_clients i \<noteq> [] \<and> client \<notin> set (id_allowed_clients i)
      then deny sn requested (''Identity is not authorized to use client '' @ client @ ''.'')
      else if \<not> model_allowed (pol_allowed_clients p) client
      then deny sn requested (''Policy does not allow client '' @ client @ ''.'')
      else case check_limits totals sn i requested of
        Some d \<Rightarrow> d
      | None \<Rightarrow>
        (case select_route rts p protocol requested of
           None \<Rightarrow> deny sn requested
             (''Model '' @ requested @ '' is not allowed for '' @ protocol
              @ '', and no compatible fallback is configured.'')
         | Some (a, route, action, reason) \<Rightarrow>
            (let cap = capped_output sn (pol_max_output_tokens p) a;
                 over = (case (cap, requested_tokens) of (Some c, Some n) \<Rightarrow> c < n | _ \<Rightarrow> False)
             in \<lparr>dc_allowed = True,
                 dc_action = (if over then if action = ''allowed'' then ''capped''
                                           else action @ ''+capped'' else action),
                 dc_reason = (if over then reason @ '' Output limit reduced from ''
                     @ int_text (the requested_tokens) @ '' to '' @ int_text (the cap) @ ''.''
                   else reason),
                 dc_requested_model = requested, dc_resolved_alias = Some a, dc_route = Some route,
                 dc_max_output_tokens = cap, dc_policy_version = sn_policy_version sn,
                 dc_snapshot = sn\<rparr>)))"

section \<open>Operational failover\<close>

definition operational_failover :: "routes \<Rightarrow> decision \<Rightarrow> decision option" where
  "operational_failover rts d =
     (case dc_route d of
        None \<Rightarrow> None
      | Some route \<Rightarrow>
       (case rt_failover_alias route of
          None \<Rightarrow> None
        | Some f \<Rightarrow>
         (case map_of rts f of
            None \<Rightarrow> None
          | Some fr \<Rightarrow>
              if rt_protocol fr \<noteq> rt_protocol route \<or> destination_id fr \<noteq> destination_id route
              then None
              else if \<not> model_allowed (pol_allowed_models (sn_effective_policy (dc_snapshot d)))
                         (rt_alias fr)
              then None
              else Some \<lparr>dc_allowed = True, dc_action = dc_action d,
                dc_reason = dc_reason d @ '' Operational failover may route to '' @ rt_alias fr
                  @ '' after an explicit capacity rejection.'',
                dc_requested_model = dc_requested_model d, dc_resolved_alias = Some (rt_alias fr),
                dc_route = Some fr,
                dc_max_output_tokens = capped_output (dc_snapshot d) (dc_max_output_tokens d) (rt_alias fr),
                dc_policy_version = dc_policy_version d, dc_snapshot = dc_snapshot d\<rparr>)))"

section \<open>Budget scopes\<close>

definition usd_to_microusd :: "rat option \<Rightarrow> int option" where
  "usd_to_microusd v = map_option (\<lambda>x. max 0 (round_half_even (fl64 (x * 1000000)))) v"

definition per_actor_caps :: "snapshot \<Rightarrow> rat list" where
  "per_actor_caps sn =
     List.map_filter (\<lambda>p. case p of None \<Rightarrow> None | Some q \<Rightarrow> pol_per_actor_budget_usd q)
       [Some (sn_organization_policy sn), sn_team_policy sn, sn_actor_policy sn]
     @ (case sn_actor_policy sn of None \<Rightarrow> []
        | Some a \<Rightarrow> (case pol_monthly_budget_usd a of None \<Rightarrow> [] | Some b \<Rightarrow> [b]))"

definition min_or_none :: "'a::linorder list \<Rightarrow> 'a option" where
  "min_or_none xs = (case xs of [] \<Rightarrow> None | y # ys \<Rightarrow> Some (fold min ys y))"

definition budget_scopes :: "identity \<Rightarrow> snapshot \<Rightarrow> reservation_scope list" where
  "budget_scopes i sn =
     [\<lparr>rs_name = ''organization'', rs_actor_id = None, rs_team_id = None,
       rs_token_limit = pol_monthly_token_limit (sn_organization_policy sn),
       rs_cost_limit_microusd = usd_to_microusd (pol_monthly_budget_usd (sn_organization_policy sn))\<rparr>]
     @ (case sn_team_policy sn of None \<Rightarrow> []
        | Some t \<Rightarrow> [\<lparr>rs_name = ''team'', rs_actor_id = None, rs_team_id = Some (id_team i),
            rs_token_limit = pol_monthly_token_limit t,
            rs_cost_limit_microusd = usd_to_microusd (pol_monthly_budget_usd t)\<rparr>])
     @ [\<lparr>rs_name = ''employee'', rs_actor_id = Some (id_actor i), rs_team_id = None,
         rs_token_limit = (case sn_actor_policy sn of None \<Rightarrow> None | Some a \<Rightarrow> pol_monthly_token_limit a),
         rs_cost_limit_microusd = usd_to_microusd (min_or_none (per_actor_caps sn))\<rparr>]"

text \<open>Which repository opens a provider attempt, or why none can.\<close>

datatype attempt_repository = Usage_Store | Work_Budget_Requests | Provider_Reliability_Requests

record attempt_request =
  ar_repository :: attempt_repository
  ar_identity :: identity
  ar_client :: string
  ar_protocol :: string
  ar_policy_action :: string
  ar_redaction_count :: int
  ar_redaction_rules :: "string list"
  ar_requested_model :: string
  ar_resolved_alias :: "string option"
  ar_upstream_model :: "string option"
  ar_policy_version :: string
  ar_scopes :: "reservation_scope list"
  ar_reserved_tokens :: int
  ar_reserved_cost_microusd :: int
  ar_ttl_seconds :: int

text \<open>
  The four optional arguments are represented by whether they were given; the call they go to is the
  one that is chosen.
\<close>

record attempt_options =
  ao_work_budget :: bool
  ao_provider_failover :: bool
  ao_rate_card :: bool
  ao_finance_account :: bool

definition begin_request_attempt :: "bool \<Rightarrow> bool \<Rightarrow> identity \<Rightarrow> decision \<Rightarrow> string \<Rightarrow> string \<Rightarrow> string
    \<Rightarrow> int \<Rightarrow> string list \<Rightarrow> int \<Rightarrow> int \<Rightarrow> int \<Rightarrow> attempt_options \<Rightarrow> attempt_request res" where
  "begin_request_attempt has_reliability has_work_budget i d client protocol policy_action
      redaction_count redaction_rules tokens cost ttl opts =
     (let call = (\<lambda>repo. \<lparr>ar_repository = repo, ar_identity = i, ar_client = client,
            ar_protocol = protocol, ar_policy_action = policy_action,
            ar_redaction_count = redaction_count, ar_redaction_rules = redaction_rules,
            ar_requested_model = dc_requested_model d, ar_resolved_alias = dc_resolved_alias d,
            ar_upstream_model = map_option rt_upstream_model (dc_route d),
            ar_policy_version = dc_policy_version d,
            ar_scopes = budget_scopes i (dc_snapshot d), ar_reserved_tokens = tokens,
            ar_reserved_cost_microusd = cost, ar_ttl_seconds = ttl\<rparr>)
      in if ao_provider_failover opts \<or> ao_rate_card opts \<or> ao_finance_account opts
         then if \<not> has_reliability then Inl ''storage_schema_partial_upgrade''
              else Inr (call Provider_Reliability_Requests)
         else if \<not> ao_work_budget opts then Inr (call Usage_Store)
         else if \<not> has_work_budget then Inl ''storage_schema_partial_upgrade''
         else Inr (call Work_Budget_Requests))"

section \<open>What a decision grants\<close>

definition permitted_alias :: "routes \<Rightarrow> policy \<Rightarrow> string \<Rightarrow> string \<Rightarrow> bool" where
  "permitted_alias rts p protocol a \<longleftrightarrow>
     (\<exists>r. map_of rts a = Some r \<and> rt_protocol r = protocol) \<and> model_allowed (pol_allowed_models p) a"

text \<open>A decision stays inside its snapshot: a configured, permitted route and no looser output bound.\<close>

definition decision_permitted :: "routes \<Rightarrow> string \<Rightarrow> decision \<Rightarrow> bool" where
  "decision_permitted rts protocol d \<longleftrightarrow>
     (\<exists>a r. dc_resolved_alias d = Some a \<and> dc_route d = Some r \<and> rt_protocol r = protocol \<and>
        r \<in> snd ` set rts \<and>
        model_allowed (pol_allowed_models (sn_effective_policy (dc_snapshot d))) a \<and>
        tighter (dc_max_output_tokens d) (pol_max_output_tokens (sn_effective_policy (dc_snapshot d))) \<and>
        tighter (dc_max_output_tokens d) (map_of (sn_model_output_limits (dc_snapshot d)) a))"

lemma capped_output_tighter:
  "tighter (capped_output sn cap a) cap"
  "tighter (capped_output sn cap a) (map_of (sn_model_output_limits sn) a)"
  by (auto simp: capped_output_def split: option.splits)

lemma first_reason_None_iff: "first_reason f xs = None \<longleftrightarrow> (\<forall>x \<in> set xs. f x = None)"
  by (induction xs) (auto split: option.splits)

lemma deny_simps [simp]:
  "dc_allowed (deny sn q r) = False" "dc_resolved_alias (deny sn q r) = None"
  "dc_route (deny sn q r) = None" "dc_action (deny sn q r) = ''denied''"
  by (simp_all add: deny_def)

lemma check_limits_denies: "check_limits totals sn i q = Some d \<Longrightarrow> \<not> dc_allowed d"
  by (auto simp: check_limits_def)

lemma select_route_Some:
  "select_route rts p protocol q = Some (a, r, act, why) \<Longrightarrow>
     map_of rts a = Some r \<and> rt_protocol r = protocol \<and> model_allowed (pol_allowed_models p) a"
  by (auto simp: select_route_def Let_def split: option.splits if_splits)

lemma select_route_requested:
  "permitted_alias rts p protocol q \<Longrightarrow>
     \<exists>r. select_route rts p protocol q = Some (q, r, ''allowed'', ''Requested model is allowed by policy.'')"
  by (auto simp: select_route_def permitted_alias_def Let_def)

lemma select_route_defined_iff:
  "select_route rts p protocol q \<noteq> None \<longleftrightarrow>
     permitted_alias rts p protocol q \<or>
     (\<exists>f. fallback_alias p protocol = Some f \<and> f \<noteq> [] \<and> permitted_alias rts p protocol f)"
  by (auto simp: select_route_def permitted_alias_def Let_def split: option.splits)

lemma evaluate_granted:
  assumes "dc_allowed (evaluate rts totals sn i client protocol q n)"
  obtains a r act why where "select_route rts (sn_effective_policy sn) protocol q = Some (a, r, act, why)"
    and "dc_resolved_alias (evaluate rts totals sn i client protocol q n) = Some a"
    and "dc_route (evaluate rts totals sn i client protocol q n) = Some r"
    and "dc_max_output_tokens (evaluate rts totals sn i client protocol q n)
           = capped_output sn (pol_max_output_tokens (sn_effective_policy sn)) a"
    and "dc_snapshot (evaluate rts totals sn i client protocol q n) = sn"
  using assms
  by (auto simp: evaluate_def Let_def check_limits_denies split: if_splits option.splits)

text \<open>
  The contract between policy and dispatch: what \<open>decide\<close> allows is permitted, and a failover hop
  keeps it so. Any decision dispatch can act on is then permitted.
\<close>

locale route_authority =
  fixes permitted :: "decision \<Rightarrow> bool"
    and decide :: "'request \<Rightarrow> decision"
    and hop :: "decision \<Rightarrow> decision option"
  assumes decide_permitted: "dc_allowed (decide q) \<Longrightarrow> permitted (decide q)"
    and hop_permitted: "permitted d \<Longrightarrow> hop d = Some d' \<Longrightarrow> permitted d'"
begin

fun hops :: "nat \<Rightarrow> decision \<Rightarrow> decision option" where
  "hops 0 d = Some d"
| "hops (Suc n) d = (case hop d of None \<Rightarrow> None | Some d' \<Rightarrow> hops n d')"

lemma hops_permitted: "permitted d \<Longrightarrow> hops n d = Some d' \<Longrightarrow> permitted d'"
  by (induction n arbitrary: d) (auto split: option.splits intro: hop_permitted)

lemma dispatched_permitted: "dc_allowed (decide q) \<Longrightarrow> hops n (decide q) = Some d \<Longrightarrow> permitted d"
  using decide_permitted hops_permitted by blast

end

lemma evaluate_permitted:
  assumes "dc_allowed (evaluate rts totals sn i client protocol q n)"
  shows "decision_permitted rts protocol (evaluate rts totals sn i client protocol q n)"
proof -
  obtain a r act why where
    sel: "select_route rts (sn_effective_policy sn) protocol q = Some (a, r, act, why)"
    and d: "dc_resolved_alias (evaluate rts totals sn i client protocol q n) = Some a"
      "dc_route (evaluate rts totals sn i client protocol q n) = Some r"
      "dc_max_output_tokens (evaluate rts totals sn i client protocol q n)
           = capped_output sn (pol_max_output_tokens (sn_effective_policy sn)) a"
      "dc_snapshot (evaluate rts totals sn i client protocol q n) = sn"
    by (rule evaluate_granted [OF assms])
  from select_route_Some [OF sel] have "r \<in> snd ` set rts"
    by (force dest: map_of_SomeD)
  with select_route_Some [OF sel] show ?thesis
    by (simp add: decision_permitted_def d capped_output_tighter)
qed

lemma failover_permitted:
  assumes "decision_permitted rts protocol d" and "operational_failover rts d = Some d'"
  shows "decision_permitted rts protocol d'"
proof -
  obtain r f fr where r: "dc_route d = Some r" and f: "map_of rts f = Some fr"
    and pr: "rt_protocol fr = rt_protocol r"
    and al: "model_allowed (pol_allowed_models (sn_effective_policy (dc_snapshot d))) (rt_alias fr)"
    and d': "dc_resolved_alias d' = Some (rt_alias fr)" "dc_route d' = Some fr"
      "dc_snapshot d' = dc_snapshot d"
      "dc_max_output_tokens d' = capped_output (dc_snapshot d) (dc_max_output_tokens d) (rt_alias fr)"
    using assms(2) by (auto simp: operational_failover_def split: option.splits if_splits)
  have "tighter (dc_max_output_tokens d') (pol_max_output_tokens (sn_effective_policy (dc_snapshot d)))"
    using assms(1) capped_output_tighter(1) tighter_trans
    by (fastforce simp: decision_permitted_def d')
  moreover have "fr \<in> snd ` set rts" using f by (force dest: map_of_SomeD)
  ultimately show ?thesis
    using assms(1) r pr al by (auto simp: decision_permitted_def d' capped_output_tighter)
qed

interpretation policy_authority: route_authority
  "decision_permitted rts protocol"
  "\<lambda>(totals, sn, i, client, q, n). evaluate rts totals sn i client protocol q n"
  "operational_failover rts" for rts protocol
  by unfold_locales (auto intro: evaluate_permitted failover_permitted)

section \<open>Properties\<close>

definition example_snapshot :: snapshot where
  "example_snapshot = \<lparr>sn_policy_version = ''v1'', sn_content_sha256 = None,
     sn_organization_policy = example_policy\<lparr>pol_fallback_model := Some ''m''\<rparr>,
     sn_team_policy = None,
     sn_actor_policy = Some (example_policy\<lparr>pol_per_actor_budget_usd := Some 4\<rparr>),
     sn_effective_policy = example_policy\<lparr>pol_fallback_model := Some ''m''\<rparr>,
     sn_openai_egress = \<lparr>allow_response_storage = False, allow_background = False\<rparr>,
     sn_secret_mode = ''redact'', sn_model_output_limits = [(''m'', 300)]\<rparr>"

definition spent :: "int \<Rightarrow> meter" where
  "spent cost = (\<lambda>_ _ _. \<lparr>mt_requests = 1, mt_denied_requests = 0, mt_rate_limited_requests = 0,
     mt_input_tokens = 10, mt_output_tokens = 10, mt_cache_read_tokens = 0, mt_cache_write_tokens = 0,
     mt_reasoning_tokens = 0, mt_cost_microusd = cost, mt_redaction_count = 0\<rparr>)"



text \<open>
  C6: Whatever dispatch acts on, the decision itself or the decision after an operational failover,
  names a configured route of the requested protocol that the effective policy allows, with an output
  bound no looser than the policy's and the model's own.
\<close>
theorem dispatched_route_permitted:
  assumes "dc_allowed (evaluate rts totals sn i client protocol q n)"
    and "d = evaluate rts totals sn i client protocol q n
         \<or> operational_failover rts (evaluate rts totals sn i client protocol q n) = Some d"
  shows "\<exists>a r. dc_resolved_alias d = Some a \<and> dc_route d = Some r \<and> rt_protocol r = protocol \<and>
      r \<in> snd ` set rts \<and> model_allowed (pol_allowed_models (sn_effective_policy (dc_snapshot d))) a \<and>
      tighter (dc_max_output_tokens d) (pol_max_output_tokens (sn_effective_policy (dc_snapshot d))) \<and>
      tighter (dc_max_output_tokens d) (map_of (sn_model_output_limits (dc_snapshot d)) a)"
proof -
  have start: "decision_permitted rts protocol (evaluate rts totals sn i client protocol q n)"
    using policy_authority.decide_permitted [where q = "(totals, sn, i, client, q, n)"] assms(1) by simp
  then have "decision_permitted rts protocol d"
    using assms(2) policy_authority.hop_permitted [OF start] by auto
  then show ?thesis by (simp add: decision_permitted_def)
qed

theorem dispatched_route_permitted_witness:
  "\<exists>a r. dc_resolved_alias (evaluate example_routes (spent 0) example_snapshot example_identity
            ''codex'' ''openai'' ''m'' (Some 900)) = Some a \<and>
         dc_route (evaluate example_routes (spent 0) example_snapshot example_identity
            ''codex'' ''openai'' ''m'' (Some 900)) = Some r \<and> rt_protocol r = ''openai''"
proof -
  have "dc_allowed (evaluate example_routes (spent 0) example_snapshot example_identity
            ''codex'' ''openai'' ''m'' (Some 900))" by code_simp
  from dispatched_route_permitted [OF this disjI1 [OF refl]] show ?thesis by blast
qed

text \<open>
  C7: A failover stays on the failed route's protocol and destination, keeps the requested model, the
  action and the snapshot, and cannot raise the output bound; it exists exactly when the route names a
  configured, permitted alternate on the same destination.
\<close>
theorem operational_failover_characterised:
  assumes "dc_route d = Some route"
  shows "((\<exists>d'. operational_failover rts d = Some d') \<longleftrightarrow>
     (\<exists>f fr. rt_failover_alias route = Some f \<and> map_of rts f = Some fr \<and>
        rt_protocol fr = rt_protocol route \<and> destination_id fr = destination_id route \<and>
        model_allowed (pol_allowed_models (sn_effective_policy (dc_snapshot d))) (rt_alias fr))) \<and>
    (\<forall>d'. operational_failover rts d = Some d' \<longrightarrow>
       (\<exists>fr. dc_route d' = Some fr \<and> destination_id fr = destination_id route \<and>
             rt_protocol fr = rt_protocol route) \<and>
       dc_requested_model d' = dc_requested_model d \<and> dc_snapshot d' = dc_snapshot d \<and>
       dc_action d' = dc_action d \<and> tighter (dc_max_output_tokens d') (dc_max_output_tokens d))"
  using assms
  by (auto simp: operational_failover_def capped_output_tighter split: option.splits if_splits)

definition failing_decision :: decision where
  "failing_decision = (deny (example_snapshot\<lparr>sn_effective_policy :=
      example_policy\<lparr>pol_allowed_models := None\<rparr>\<rparr>) ''m'' ''busy'')
        \<lparr>dc_route := Some (example_route\<lparr>rt_failover_alias := Some ''n''\<rparr>)\<rparr>"

theorem operational_failover_characterised_witness:
  "\<exists>d'. operational_failover example_routes failing_decision = Some d'"
proof -
  have "dc_route failing_decision = Some (example_route\<lparr>rt_failover_alias := Some ''n''\<rparr>)"
    by (simp add: failing_decision_def)
  from operational_failover_characterised [OF this, of example_routes] show ?thesis
    by (simp add: example_routes_def failing_decision_def deny_def model_allowed_def example_route_def
        destination_id_def)
qed

lemma fold_min_le:
  fixes y :: "'a::linorder"
  shows "fold min ys y \<le> y" and "x \<in> set ys \<Longrightarrow> fold min ys y \<le> x"
proof (induction ys arbitrary: y)
  case (Cons z ys)
  { case 1 show ?case using Cons.IH(1) [of "min z y"] by simp }
  { case 2 then show ?case using Cons.IH [of "min z y"] by (auto intro: order_trans) }
qed simp_all

lemma fold_min_member:
  fixes y :: "'a::linorder"
  shows "fold min ys y \<in> insert y (set ys)"
proof (induction ys arbitrary: y)
  case (Cons z ys)
  have "fold min ys (min z y) \<in> insert (min z y) (set ys)" by (rule Cons.IH)
  moreover have "min z y = z \<or> min z y = y" by (simp add: min_def)
  ultimately show ?case by auto
qed simp

lemma min_or_none_tighter: "c \<in> set cs \<Longrightarrow> tighter (min_or_none cs) (Some c)"
  by (cases cs) (auto simp: min_or_none_def intro: fold_min_le)

lemma min_or_none_member: "min_or_none cs = Some m \<Longrightarrow> m \<in> set cs"
  using fold_min_member by (cases cs) (auto simp: min_or_none_def)

text \<open>
  A reservation is checked against the organization's limits first and the actor's last, with the
  team's between them when the snapshot has a team policy; the actor's cost limit is the smallest of
  the per-actor caps of every scope and the actor's own monthly budget, and absent only when none is set.
\<close>
theorem budget_scopes_actor_limit:
  "map rs_name (budget_scopes i sn) =
     (if sn_team_policy sn = None then [''organization'', ''employee'']
      else [''organization'', ''team'', ''employee'']) \<and>
   rs_actor_id (last (budget_scopes i sn)) = Some (id_actor i) \<and>
   (\<exists>m. rs_cost_limit_microusd (last (budget_scopes i sn)) = usd_to_microusd m \<and>
      (m = None \<longleftrightarrow> per_actor_caps sn = []) \<and> (\<forall>x. m = Some x \<longrightarrow> x \<in> set (per_actor_caps sn)) \<and>
      tighter m (pol_per_actor_budget_usd (sn_organization_policy sn)) \<and>
      (\<forall>t. sn_team_policy sn = Some t \<longrightarrow> tighter m (pol_per_actor_budget_usd t)) \<and>
      (\<forall>a. sn_actor_policy sn = Some a \<longrightarrow>
         tighter m (pol_per_actor_budget_usd a) \<and> tighter m (pol_monthly_budget_usd a)))"
proof (intro conjI exI [of _ "min_or_none (per_actor_caps sn)"])
  have cap: "tighter (min_or_none (per_actor_caps sn)) b"
    if "\<And>c. b = Some c \<Longrightarrow> c \<in> set (per_actor_caps sn)" for b
    using that min_or_none_tighter by (cases b) auto
  show "tighter (min_or_none (per_actor_caps sn)) (pol_per_actor_budget_usd (sn_organization_policy sn))"
    by (rule cap) (auto simp: per_actor_caps_def map_filter_def)
  show "\<forall>t. sn_team_policy sn = Some t \<longrightarrow>
      tighter (min_or_none (per_actor_caps sn)) (pol_per_actor_budget_usd t)"
    by (intro allI impI, rule cap) (auto simp: per_actor_caps_def map_filter_def)
  show "\<forall>a. sn_actor_policy sn = Some a \<longrightarrow>
      tighter (min_or_none (per_actor_caps sn)) (pol_per_actor_budget_usd a) \<and>
      tighter (min_or_none (per_actor_caps sn)) (pol_monthly_budget_usd a)"
    by (intro allI impI conjI; rule cap) (auto simp: per_actor_caps_def map_filter_def)
  show "\<forall>x. min_or_none (per_actor_caps sn) = Some x \<longrightarrow> x \<in> set (per_actor_caps sn)"
    by (simp add: min_or_none_member)
  show "(min_or_none (per_actor_caps sn) = None) = (per_actor_caps sn = [])"
    by (simp add: min_or_none_def split: list.split)
qed (simp_all add: budget_scopes_def split: option.split)

theorem budget_scopes_actor_limit_witness:
  "rs_cost_limit_microusd (last (budget_scopes example_identity example_snapshot)) = Some 4000000"
proof -
  have caps: "per_actor_caps example_snapshot = [4, 10]"
    by (simp add: per_actor_caps_def example_snapshot_def example_policy_def map_filter_def)
  have act: "sn_actor_policy example_snapshot = Some (example_policy\<lparr>pol_per_actor_budget_usd := Some 4\<rparr>)"
    by (simp add: example_snapshot_def)
  from budget_scopes_actor_limit [of example_identity example_snapshot, unfolded caps] act
  obtain m where m: "rs_cost_limit_microusd (last (budget_scopes example_identity example_snapshot))
        = usd_to_microusd m" "(m = None) = ([4, 10 :: rat] = [])"
      "\<forall>x. m = Some x \<longrightarrow> x \<in> set [4, 10]"
      "tighter m (pol_per_actor_budget_usd (example_policy\<lparr>pol_per_actor_budget_usd := Some 4\<rparr>))"
    by blast
  then have "m = Some 4" by (cases m) auto
  moreover have "usd_to_microusd (Some 4) = Some 4000000" by code_simp
  ultimately show ?thesis using m(1) by simp
qed

end
