(* ===== verification/Attempt_Store.thy ===== *)
theory Attempt_Store
  imports Work_Budget Provider_Events Policy_Engine
begin

text \<open>
  The ledger of provider attempts in the SQLite store (\<^verbatim>\<open>src/hormuz/store.py\<close>, with the record builders
  of \<^verbatim>\<open>src/hormuz/_persistence.py\<close>): attempts and their events, usage events, budget holds, finance and
  account sidecars, failover links and metrics, the work budgets and the audit chain of every
  organization. An operation is one transaction: it gives the new tables, or an error and the old ones.
  The schema is the current one, with every migration applied. SHA-256, the sources of other modules
  (\<open>externals\<close>), the clock and the texts of \<^verbatim>\<open>uuid4\<close> are the environment; a table is the list of its
  rows in the order of insertion, and integers are those of Python.
\<close>

section \<open>Rows\<close>

record attempt_row =
  at_id :: string
  at_created :: string
  at_org :: string
  at_actor :: string
  at_actor_name :: string
  at_team :: string
  at_team_name :: string
  at_identity_type :: string
  at_auth_source :: string
  at_client :: string
  at_protocol :: string
  at_model :: string
  at_alias :: "string option"
  at_upstream :: "string option"
  at_policy_version :: string
  at_policy_action :: string
  at_redactions :: int
  at_rules :: "string list"
  at_tokens :: int
  at_cost :: int
  at_card :: "rate_card_binding option"

record event_row =
  ev_id :: string
  ev_attempt :: string
  ev_org :: string
  ev_occurred :: string
  ev_sequence :: int
  ev_state :: string
  ev_reason :: "string option"
  ev_usage :: "string option"

record usage_row =
  us_id :: string
  us_occurred :: string
  us_org :: string
  us_actor :: string
  us_actor_name :: string
  us_team :: string
  us_team_name :: string
  us_identity_type :: string
  us_auth_source :: string
  us_client :: string
  us_protocol :: string
  us_model :: string
  us_alias :: "string option"
  us_upstream :: "string option"
  us_reported :: "string option"
  us_policy_version :: string
  us_policy_action :: string
  us_status :: string
  us_input :: int
  us_output :: int
  us_cache_read :: int
  us_cache_write :: int
  us_reasoning :: int
  us_cost :: int
  us_request_id :: "string option"
  us_redactions :: int
  us_rules :: "string list"

record hold_row =
  ho_id :: string
  ho_created :: string
  ho_expires :: string
  ho_org :: string
  ho_actor :: string
  ho_team :: string
  ho_tokens :: int
  ho_cost :: int
  ho_attempt :: "string option"

record ledger =
  lg_attempts :: "attempt_row list"
  lg_events :: "event_row list"
  lg_usage :: "usage_row list"
  lg_secrets :: "jdict list"
  lg_holds :: "hold_row list"
  lg_evidence :: "jdict list"
  lg_bindings :: "jdict list"
  lg_failovers :: "jdict list"
  lg_metrics :: "jdict list"
  lg_translated_metrics :: "jdict list"
  lg_accounts :: account_tables
  lg_budgets :: budget_tables
  lg_chains :: "string \<Rightarrow> chain_store"
  lg_uuids :: nat

record environment =
  en_sha :: "string \<Rightarrow> string"
  en_external :: externals
  en_uuid :: "nat \<Rightarrow> string"

definition integrity :: store_error where
  "integrity = Storage_Error ''IntegrityError''"

text \<open>A fresh \<^verbatim>\<open>uuid4\<close>, and the text without hyphens that \<^verbatim>\<open>.hex\<close> gives.\<close>

definition fresh :: "environment \<Rightarrow> ledger \<Rightarrow> string \<times> ledger" where
  "fresh e L = (en_uuid e (lg_uuids L), L\<lparr>lg_uuids := Suc (lg_uuids L)\<rparr>)"

definition hex_of_uuid :: "string \<Rightarrow> string" where
  "hex_of_uuid s = filter (\<lambda>c. c \<noteq> CHR ''-'') s"

definition json_rules :: "string list \<Rightarrow> json" where
  "json_rules rs = JList (map JStr rs)"

definition sorted_rules :: "string list \<Rightarrow> string list" where
  "sorted_rules rs = sort (remdups rs)"

section \<open>Attempts and their events\<close>

definition attempt_dict :: "attempt_row \<Rightarrow> jdict" where
  "attempt_dict r =
     [(''evidence_schema_id'', JStr ''hormuz.request-attempt''), (''evidence_schema_version'', JInt 1),
      (''attempt_id'', JStr (at_id r)), (''created_at'', JStr (at_created r)), (''organization_id'', JStr (at_org r)),
      (''actor_id'', JStr (at_actor r)), (''actor_name'', JStr (at_actor_name r)), (''team_id'', JStr (at_team r)),
      (''team_name'', JStr (at_team_name r)), (''identity_type'', JStr (at_identity_type r)),
      (''authentication_source'', JStr (at_auth_source r)), (''client'', JStr (at_client r)),
      (''protocol'', JStr (at_protocol r)), (''requested_model'', JStr (at_model r)),
      (''resolved_alias'', opt_str (at_alias r)), (''upstream_model'', opt_str (at_upstream r)),
      (''policy_version'', JStr (at_policy_version r)), (''policy_action'', JStr (at_policy_action r)),
      (''redaction_count'', JInt (at_redactions r)), (''redaction_rules'', json_rules (at_rules r)),
      (''reserved_tokens'', JInt (at_tokens r)), (''reserved_cost_microusd'', JInt (at_cost r))]"

definition build_request_attempt_root :: "string \<Rightarrow> utc_time \<Rightarrow> attempt_request \<Rightarrow> rate_card_binding
    \<Rightarrow> store_error + attempt_row" where
  "build_request_attempt_root attempt now q rate_card =
     (let i = ar_identity q;
          r = \<lparr>at_id = attempt, at_created = isoformat now, at_org = id_organization i, at_actor = id_actor i,
               at_actor_name = id_actor_name i, at_team = id_team i, at_team_name = id_team_name i,
               at_identity_type = id_identity_type i, at_auth_source = id_authentication_source i,
               at_client = ar_client q, at_protocol = ar_protocol q, at_model = ar_requested_model q,
               at_alias = ar_resolved_alias q, at_upstream = ar_upstream_model q,
               at_policy_version = ar_policy_version q, at_policy_action = ar_policy_action q,
               at_redactions = max 0 (ar_redaction_count q), at_rules = sorted_rules (ar_redaction_rules q),
               at_tokens = max 0 (ar_reserved_tokens q), at_cost = max 0 (ar_reserved_cost_microusd q),
               at_card = Some rate_card\<rparr>
      in if validate_request_attempt (attempt_dict r) then Inr r
         else Inl (Storage_Error ''contract_validation_error''))"

definition event_dict :: "event_row \<Rightarrow> jdict" where
  "event_dict v =
     [(''event_schema_id'', JStr ''hormuz.request-attempt-event''), (''event_schema_version'', JInt 1),
      (''id'', JStr (ev_id v)), (''attempt_id'', JStr (ev_attempt v)), (''organization_id'', JStr (ev_org v)),
      (''occurred_at'', JStr (ev_occurred v)), (''sequence'', JInt (ev_sequence v)), (''state'', JStr (ev_state v)),
      (''reason_code'', opt_str (ev_reason v)), (''usage_event_id'', opt_str (ev_usage v))]"

definition append_attempt_event :: "environment \<Rightarrow> ledger \<Rightarrow> string \<Rightarrow> string \<Rightarrow> utc_time \<Rightarrow> int \<Rightarrow> string
    \<Rightarrow> string option \<Rightarrow> string option \<Rightarrow> store_error + (ledger \<times> string)" where
  "append_attempt_event e L0 attempt organization now sequence state reason usage =
     (let (event_id, L) = fresh e L0;
          v = \<lparr>ev_id = event_id, ev_attempt = attempt, ev_org = organization, ev_occurred = isoformat now,
               ev_sequence = sequence, ev_state = state, ev_reason = reason, ev_usage = usage\<rparr>
      in if \<not> validate_request_attempt_event (event_dict v) then Inl (Storage_Error ''contract_validation_error'')
         else if \<exists>w \<in> set (lg_events L). ev_id w = event_id \<or> ev_attempt w = attempt \<and> ev_sequence w = sequence
         then Inl integrity
         else Inr (L\<lparr>lg_events := lg_events L @ [v]\<rparr>, event_id))"

definition root_of :: "ledger \<Rightarrow> string \<Rightarrow> string \<Rightarrow> attempt_row option" where
  "root_of L attempt organization = find (\<lambda>r. at_id r = attempt \<and> at_org r = organization) (lg_attempts L)"

definition request_attempt_root :: "ledger \<Rightarrow> string \<Rightarrow> string \<Rightarrow> store_error + attempt_row" where
  "request_attempt_root L attempt organization = (case root_of L attempt organization of
      None \<Rightarrow> Inl (Attempt_State_Error ''request_attempt_not_found'')
    | Some r \<Rightarrow> Inr r)"

text \<open>\<^verbatim>\<open>ORDER BY sequence DESC LIMIT 1\<close>.\<close>

fun last_event :: "event_row list \<Rightarrow> event_row option" where
  "last_event [] = None"
| "last_event (v # vs) = (case last_event vs of
      None \<Rightarrow> Some v
    | Some w \<Rightarrow> Some (if ev_sequence w < ev_sequence v then v else w))"

definition events_of :: "ledger \<Rightarrow> string \<Rightarrow> event_row list" where
  "events_of L attempt = filter (\<lambda>v. ev_attempt v = attempt) (lg_events L)"

definition latest_event :: "ledger \<Rightarrow> string \<Rightarrow> event_row option" where
  "latest_event L attempt = last_event (events_of L attempt)"

definition latest_state :: "ledger \<Rightarrow> string \<Rightarrow> store_error + event_row" where
  "latest_state L attempt = (case latest_event L attempt of
      None \<Rightarrow> Inl (Storage_Error ''request_attempt_event_missing'')
    | Some v \<Rightarrow> Inr v)"

definition terminal_states :: "string list" where
  "terminal_states = [''succeeded'', ''failed'', ''rate_limited'']"

definition require_pending :: "string \<Rightarrow> store_error + unit" where
  "require_pending state =
     (if state \<noteq> ''pending'' then Inl (Attempt_State_Error ''request_attempt_not_pending'') else Inr ())"

definition require_terminal :: "string \<Rightarrow> store_error + unit" where
  "require_terminal state =
     (if state \<notin> set terminal_states then Inl (Attempt_State_Error ''request_attempt_terminal_state_unsupported'')
      else Inr ())"

definition should_mark_unknown :: "string \<Rightarrow> store_error + bool" where
  "should_mark_unknown state =
     (if state = ''outcome_unknown'' then Inr False else rbind (require_pending state) (\<lambda>_. Inr True))"

section \<open>The audit chain\<close>

definition chain_append :: "environment \<Rightarrow> ledger \<Rightarrow> string \<Rightarrow> jdict \<Rightarrow> chain_source option \<Rightarrow> store_error + ledger" where
  "chain_append e L organization ev source =
     (case commit_event (en_sha e) (en_external e) ev source (lg_chains L organization) of
        Inl code \<Rightarrow> Inl (Storage_Error code)
      | Inr st \<Rightarrow> Inr (L\<lparr>lg_chains := (lg_chains L)(organization := st)\<rparr>))"

section \<open>Usage events\<close>

definition usage_columns :: "usage_row \<Rightarrow> jdict" where
  "usage_columns u =
     [(''id'', JStr (us_id u)), (''occurred_at'', JStr (us_occurred u)),
      (''evidence_schema_id'', JStr ''hormuz.audit-event''), (''evidence_schema_version'', JInt 2),
      (''organization_id'', JStr (us_org u)), (''actor_id'', JStr (us_actor u)),
      (''actor_name'', JStr (us_actor_name u)), (''team_id'', JStr (us_team u)), (''team_name'', JStr (us_team_name u)),
      (''identity_type'', JStr (us_identity_type u)), (''authentication_source'', JStr (us_auth_source u)),
      (''client'', JStr (us_client u)), (''protocol'', JStr (us_protocol u)), (''requested_model'', JStr (us_model u)),
      (''resolved_alias'', opt_str (us_alias u)), (''upstream_model'', opt_str (us_upstream u)),
      (''provider_reported_model'', opt_str (us_reported u)), (''policy_version'', JStr (us_policy_version u)),
      (''policy_action'', JStr (us_policy_action u)), (''status'', JStr (us_status u)),
      (''input_tokens'', JInt (us_input u)), (''output_tokens'', JInt (us_output u)),
      (''cache_read_tokens'', JInt (us_cache_read u)), (''cache_write_tokens'', JInt (us_cache_write u)),
      (''reasoning_tokens'', JInt (us_reasoning u)), (''cost_microusd'', JInt (us_cost u)),
      (''cost_basis'', JStr ''configured_rate_card_estimate''), (''allocation_basis'', JStr ''direct_gateway_request''),
      (''coverage'', JStr ''gateway_captured_requests_only''), (''provider_request_id'', opt_str (us_request_id u)),
      (''redaction_count'', JInt (us_redactions u)),
      (''redaction_rules'', JStr (dump True (json_rules (us_rules u))))]"

text \<open>\<^verbatim>\<open>_record_in_connection\<close>: the row with its counters clamped, then its chain entry.\<close>

definition clamped :: "usage_row \<Rightarrow> usage_row" where
  "clamped u = u\<lparr>us_input := max 0 (us_input u), us_output := max 0 (us_output u),
     us_cache_read := max 0 (us_cache_read u), us_cache_write := max 0 (us_cache_write u),
     us_reasoning := max 0 (us_reasoning u), us_cost := max 0 (us_cost u),
     us_redactions := max 0 (us_redactions u), us_rules := sorted_rules (us_rules u)\<rparr>"

definition record_usage :: "environment \<Rightarrow> ledger \<Rightarrow> usage_row \<Rightarrow> store_error + (ledger \<times> string)" where
  "record_usage e L0 u0 =
     (if us_policy_action u0 \<notin> set policy_actions \<or> us_status u0 \<notin> set request_statuses
      then Inl (Storage_Error ''contract_validation_error'')
      else let (event_id, L) = fresh e L0; u = clamped (u0\<lparr>us_id := event_id\<rparr>) in
        if \<exists>w \<in> set (lg_usage L). us_id w = event_id then Inl integrity
        else (case usage_audit_event (usage_columns u) of
            Inl code \<Rightarrow> Inl (Storage_Error code)
          | Inr ev \<Rightarrow> rbind (chain_append e (L\<lparr>lg_usage := lg_usage L @ [u]\<rparr>) (us_org u) ev None) (\<lambda>L'.
              Inr (L', event_id))))"

section \<open>Finance evidence of an outcome\<close>

definition protocol_named :: "string \<Rightarrow> protocol option" where
  "protocol_named s = map_of [(''openai'', OpenAI), (''anthropic'', Anthropic)] s"

text \<open>The stored row: the attempt with its rate card.\<close>

definition attempt_columns :: "attempt_row \<Rightarrow> jdict" where
  "attempt_columns r = attempt_dict r @ (case at_card r of
      None \<Rightarrow> []
    | Some b \<Rightarrow> [(''configured_rate_card_state'', JStr ''configured''), (''configured_rate_card_id'', JStr (rc_id b)),
        (''configured_rate_card_version'', JInt (rc_version b)), (''configured_rate_card_digest'', JStr (rc_digest b)),
        (''configured_rate_card_currency'', JStr (rc_currency b))])"

text \<open>The trigger \<^verbatim>\<open>gateway_finance_attempt_evidence_consistency\<close> and the bounds of the table.\<close>

definition evidence_consistent :: "ledger \<Rightarrow> jdict \<Rightarrow> bool" where
  "evidence_consistent L row =
     ((\<exists>r \<in> set (lg_attempts L). \<exists>v \<in> set (lg_events L).
        ev_org v = at_org r \<and> ev_attempt v = at_id r \<and>
        dget row ''organization_id'' = JStr (at_org r) \<and> dget row ''request_attempt_id'' = JStr (at_id r) \<and>
        (case at_card r of None \<Rightarrow> False | Some b \<Rightarrow>
           dget row ''configured_rate_card_id'' = JStr (rc_id b) \<and>
           dget row ''configured_rate_card_version'' = JInt (rc_version b) \<and>
           dget row ''configured_rate_card_digest'' = JStr (rc_digest b) \<and>
           dget row ''configured_estimate_currency'' = JStr (rc_currency b)) \<and>
        (case protocol_named (at_protocol r) of None \<Rightarrow> False | Some p \<Rightarrow>
           dget row ''provider_schema_id'' = JStr (profile p)) \<and>
        dget row ''terminal_attempt_event_id'' = JStr (ev_id v) \<and> dget row ''terminal_state'' = JStr (ev_state v) \<and>
        dget row ''occurred_at'' = JStr (ev_occurred v) \<and> dget row ''usage_event_id'' = opt_str (ev_usage v) \<and>
        (case ev_usage v of None \<Rightarrow> True | Some u \<Rightarrow>
           (\<exists>w \<in> set (lg_usage L). us_org w = at_org r \<and> us_id w = u \<and>
             (dget row ''configured_estimate_availability'' = JStr ''available'' \<longrightarrow>
              dget row ''configured_estimate_microusd'' = JInt (us_cost w))))) \<and>
      len_between 2 65536 (text_at row ''evidence_json''))"

definition append_finance_evidence :: "environment \<Rightarrow> ledger \<Rightarrow> attempt_row \<Rightarrow> string \<Rightarrow> string option \<Rightarrow> string
    \<Rightarrow> utc_time \<Rightarrow> native_observation option \<Rightarrow> route_estimate option \<Rightarrow> store_error + ledger" where
  "append_finance_evidence e L0 r event_id usage state now observation estimate =
     (case binding_from_attempt_row (attempt_columns r) of
        Inl _ \<Rightarrow> Inl (Storage_Error ''finance_attempt_evidence_invalid'')
      | Inr None \<Rightarrow> Inr L0
      | Inr (Some b) \<Rightarrow>
          (let (evidence_id, L) = fresh e L0 in
           rbind (or_error (Storage_Error ''finance_attempt_evidence_invalid'')
             (case protocol_named (at_protocol r) of
                None \<Rightarrow> Inl evidence_error
              | Some p \<Rightarrow>
                  rbind (case observation of Some ob \<Rightarrow> Inr ob
                         | None \<Rightarrow> absent_observation (en_sha e) p ''provider_usage_absent'') (\<lambda>native.
                  rbind (case estimate of Some es \<Rightarrow> Inr es
                         | None \<Rightarrow> unavailable_estimate b (if state = ''outcome_unknown'' then ''attempt_outcome_unknown''
                                                            else ''missing_native_usage'')) (\<lambda>configured.
                  rbind (build_finance_attempt_event (en_sha e) evidence_id p (at_org r) (at_id r) event_id usage
                           state (isoformat now) native configured b) (\<lambda>ev.
                  rbind (finance_attempt_storage_row (en_sha e) ev) (\<lambda>row. Inr (ev, row))))))) (\<lambda>(ev, row).
           if \<not> evidence_consistent L row then Inl integrity
           else if \<exists>x \<in> set (lg_evidence L). dget x ''organization_id'' = JStr (at_org r) \<and>
              (dget x ''evidence_event_id'' = JStr evidence_id \<or> dget x ''request_attempt_id'' = JStr (at_id r))
           then Inl integrity
           else chain_append e (L\<lparr>lg_evidence := lg_evidence L @ [row]\<rparr>) (at_org r) ev
             (Some \<lparr>cs_schema = ''hormuz.finance-attempt-evidence'', cs_version = 1, cs_event_id = evidence_id\<rparr>))))"

definition unknown_observation_of :: "environment \<Rightarrow> attempt_row \<Rightarrow> native_observation option \<Rightarrow> string
    \<Rightarrow> store_error + native_observation" where
  "unknown_observation_of e r observation reason =
     or_error (Storage_Error ''finance_attempt_evidence_invalid'')
       (case protocol_named (at_protocol r) of
          None \<Rightarrow> Inl evidence_error
        | Some p \<Rightarrow> unknown_observation (en_sha e) p observation reason)"

section \<open>Metrics and failovers\<close>

definition append_provider_metrics :: "environment \<Rightarrow> ledger \<Rightarrow> string \<Rightarrow> string \<Rightarrow> utc_time \<Rightarrow> provider_metrics
    \<Rightarrow> store_error + ledger" where
  "append_provider_metrics e L0 attempt organization now m =
     (let (event_id, L) = fresh e L0 in
      rbind (or_error (Storage_Error metrics_error)
               (build_provider_attempt_metrics_event event_id attempt organization (isoformat now) m)) (\<lambda>ev.
      let taken = (\<lambda>rows. \<exists>x \<in> set rows. dget x ''organization_id'' = JStr organization \<and>
              (dget x ''event_id'' = JStr event_id \<or> dget x ''attempt_id'' = JStr attempt));
          has_attempt = (\<lambda>rows. \<exists>x \<in> set rows. dget x ''organization_id'' = JStr organization \<and>
              dget x ''attempt_id'' = JStr attempt)
      in if pm_transformed m
         then (if taken (lg_translated_metrics L) \<or> has_attempt (lg_metrics L) then Inl integrity
               else Inr (L\<lparr>lg_translated_metrics := lg_translated_metrics L @ [ev]\<rparr>))
         else (if taken (lg_metrics L) \<or> has_attempt (lg_translated_metrics L) then Inl integrity
               else Inr (L\<lparr>lg_metrics := lg_metrics L @ [ev]\<rparr>))))"

definition append_provider_failover :: "environment \<Rightarrow> ledger \<Rightarrow> string \<Rightarrow> string \<Rightarrow> string \<Rightarrow> string \<Rightarrow> string
    \<Rightarrow> failover_context \<Rightarrow> utc_time \<Rightarrow> store_error + ledger" where
  "append_provider_failover e L0 organization attempt protocol model policy_version c now =
     rbind (request_attempt_root L0 (fc_original c) organization) (\<lambda>original.
     rbind (latest_state L0 (fc_original c)) (\<lambda>latest.
     if ev_state latest \<noteq> (if fc_status c = 429 then ''rate_limited'' else ''failed'')
        \<or> at_protocol original \<noteq> protocol \<or> at_model original \<noteq> model \<or> at_policy_version original \<noteq> policy_version
     then Inl (Storage_Error ''provider_failover_predecessor_invalid'')
     else let (event_id, L) = fresh e L0 in
       rbind (or_error (Storage_Error ''provider_failover_evidence_invalid'')
                (build_provider_failover_event event_id organization attempt (isoformat now) c)) (\<lambda>ev.
       if \<exists>x \<in> set (lg_failovers L). dget x ''organization_id'' = JStr organization \<and>
            (dget x ''event_id'' = JStr event_id \<or> dget x ''original_attempt_id'' = JStr (fc_original c) \<or>
             dget x ''failover_attempt_id'' = JStr attempt)
       then Inl integrity else Inr (L\<lparr>lg_failovers := lg_failovers L @ [ev]\<rparr>))))"

section \<open>Budget holds\<close>

definition constrained :: "reservation_scope \<Rightarrow> bool" where
  "constrained s = (rs_token_limit s \<noteq> None \<or> rs_cost_limit_microusd s \<noteq> None)"

definition open_states :: "string list" where
  "open_states = [''pending'', ''outcome_unknown'']"

definition attempt_open :: "ledger \<Rightarrow> string \<Rightarrow> bool" where
  "attempt_open L attempt = (case latest_event L attempt of None \<Rightarrow> False | Some v \<Rightarrow> ev_state v \<in> set open_states)"

definition hold_active :: "ledger \<Rightarrow> string \<Rightarrow> hold_row \<Rightarrow> bool" where
  "hold_active L now h = (case ho_attempt h of None \<Rightarrow> now < ho_expires h | Some a \<Rightarrow> attempt_open L a)"

definition matches_scope :: "reservation_scope \<Rightarrow> string \<Rightarrow> string \<Rightarrow> bool" where
  "matches_scope s actor team =
     ((case rs_actor_id s of None \<Rightarrow> True | Some a \<Rightarrow> actor = a) \<and>
      (case rs_team_id s of None \<Rightarrow> True | Some t \<Rightarrow> team = t))"

definition counted_usage :: "reservation_scope \<Rightarrow> string \<Rightarrow> string \<Rightarrow> usage_row \<Rightarrow> bool" where
  "counted_usage s organization since u =
     (us_org u = organization \<and> since \<le> us_occurred u \<and> matches_scope s (us_actor u) (us_team u))"

definition counted_hold :: "ledger \<Rightarrow> reservation_scope \<Rightarrow> string \<Rightarrow> string \<Rightarrow> hold_row \<Rightarrow> bool" where
  "counted_hold L s organization now h =
     (ho_org h = organization \<and> hold_active L now h \<and> matches_scope s (ho_actor h) (ho_team h))"

definition usage_sum :: "(usage_row \<Rightarrow> int) \<Rightarrow> ledger \<Rightarrow> reservation_scope \<Rightarrow> string \<Rightarrow> string \<Rightarrow> int" where
  "usage_sum f L s organization since = sum_list (map f (filter (counted_usage s organization since) (lg_usage L)))"

definition hold_sum :: "(hold_row \<Rightarrow> int) \<Rightarrow> ledger \<Rightarrow> reservation_scope \<Rightarrow> string \<Rightarrow> string \<Rightarrow> int" where
  "hold_sum f L s organization now = sum_list (map f (filter (counted_hold L s organization now) (lg_holds L)))"

definition usage_tokens :: "usage_row \<Rightarrow> int" where
  "usage_tokens u = us_input u + us_output u"

definition over :: "int option \<Rightarrow> int \<Rightarrow> bool" where
  "over limit amount = (case limit of None \<Rightarrow> False | Some l \<Rightarrow> l < amount)"

fun check_scopes :: "ledger \<Rightarrow> string \<Rightarrow> string \<Rightarrow> string \<Rightarrow> int \<Rightarrow> int \<Rightarrow> reservation_scope list
    \<Rightarrow> store_error + unit" where
  "check_scopes L organization since now tokens cost [] = Inr ()"
| "check_scopes L organization since now tokens cost (s # ss) =
     (let projected_tokens = usage_sum usage_tokens L s organization since + hold_sum ho_tokens L s organization now
            + max 0 tokens;
          projected_cost = usage_sum us_cost L s organization since + hold_sum ho_cost L s organization now + max 0 cost
      in if over (rs_token_limit s) projected_tokens
         then Inl (Reservation_Denied (''The '' @ rs_name s @ '' monthly token limit would be exceeded by this request.''))
         else if over (rs_cost_limit_microusd s) projected_cost
         then Inl (Reservation_Denied (''The '' @ rs_name s @ '' monthly AI budget would be exceeded by this request.''))
         else check_scopes L organization since now tokens cost ss)"

definition drop_expired :: "string \<Rightarrow> ledger \<Rightarrow> ledger" where
  "drop_expired now L = L\<lparr>lg_holds := filter (\<lambda>h. \<not> (ho_attempt h = None \<and> ho_expires h \<le> now)) (lg_holds L)\<rparr>"

definition expiry :: "int \<Rightarrow> utc_time \<Rightarrow> store_error + string" where
  "expiry ttl now = (case plus_seconds (nat (max 1 ttl)) now of
      None \<Rightarrow> Inl (Storage_Error ''OverflowError'')
    | Some t \<Rightarrow> Inr (isoformat t))"

definition reserve_budget_in :: "ledger \<Rightarrow> identity \<Rightarrow> reservation_scope list \<Rightarrow> int \<Rightarrow> int \<Rightarrow> int \<Rightarrow> string
    \<Rightarrow> string option \<Rightarrow> utc_time \<Rightarrow> store_error + ledger" where
  "reserve_budget_in L0 i scopes tokens cost ttl reservation attempt now =
     (let L = drop_expired (isoformat now) L0 in
      rbind (check_scopes L (id_organization i) (isoformat (month_start now)) (isoformat now) tokens cost
               (filter constrained scopes)) (\<lambda>_.
      rbind (expiry ttl now) (\<lambda>expires.
      if \<exists>h \<in> set (lg_holds L). ho_id h = reservation \<or> (attempt \<noteq> None \<and> ho_attempt h = attempt)
      then Inl integrity
      else Inr (L\<lparr>lg_holds := lg_holds L @ [\<lparr>ho_id = reservation, ho_created = isoformat now, ho_expires = expires,
             ho_org = id_organization i, ho_actor = id_actor i, ho_team = id_team i, ho_tokens = max 0 tokens,
             ho_cost = max 0 cost, ho_attempt = attempt\<rparr>]\<rparr>))))"

section \<open>Sweeping stale attempts\<close>

definition stale_hold :: "ledger \<Rightarrow> string \<Rightarrow> string option \<Rightarrow> hold_row \<Rightarrow> bool" where
  "stale_hold L now organization h = (case ho_attempt h of
      None \<Rightarrow> False
    | Some a \<Rightarrow> ho_expires h \<le> now \<and>
        (case latest_event L a of None \<Rightarrow> False | Some v \<Rightarrow> ev_state v = ''pending'') \<and>
        (case organization of None \<Rightarrow> True | Some org \<Rightarrow> ho_org h = org))"

definition sweep_one :: "environment \<Rightarrow> utc_time \<Rightarrow> string \<times> string \<Rightarrow> ledger \<Rightarrow> store_error + ledger" where
  "sweep_one e now = (\<lambda>(attempt, organization) L.
     rbind (request_attempt_root L attempt organization) (\<lambda>r.
     rbind (latest_state L attempt) (\<lambda>latest.
     if ev_state latest \<noteq> ''pending'' then Inr L
     else rbind (append_attempt_event e L attempt organization now (ev_sequence latest + 1) ''outcome_unknown''
                   (Some ''stale_pending'') None) (\<lambda>(L1, event_id).
       rbind (unknown_observation_of e r None ''stale_pending'') (\<lambda>ob.
       append_finance_evidence e L1 r event_id None ''outcome_unknown'' now (Some ob) None)))))"

fun sweep_all :: "environment \<Rightarrow> utc_time \<Rightarrow> (string \<times> string) list \<Rightarrow> ledger \<Rightarrow> store_error + ledger" where
  "sweep_all e now [] L = Inr L"
| "sweep_all e now (x # xs) L = rbind (sweep_one e now x L) (sweep_all e now xs)"

definition stale_attempts :: "ledger \<Rightarrow> string \<Rightarrow> string option \<Rightarrow> (string \<times> string) list" where
  "stale_attempts L now organization = sort_key fst
     (map (\<lambda>h. (the (ho_attempt h), ho_org h)) (filter (stale_hold L now organization) (lg_holds L)))"

definition sweep_stale_request_attempts :: "environment \<Rightarrow> utc_time \<Rightarrow> string option \<Rightarrow> ledger \<Rightarrow> store_error + ledger" where
  "sweep_stale_request_attempts e now organization L =
     sweep_all e now (stale_attempts L (isoformat now) organization) L"

section \<open>Beginning an attempt\<close>

definition outcome_of :: "ledger \<Rightarrow> attempt_outcome" where
  "outcome_of L organization attempt =
     map_option (\<lambda>v. (ev_state v, case ev_usage v of None \<Rightarrow> None
         | Some u \<Rightarrow> map_option us_cost (find (\<lambda>w. us_org w = organization \<and> us_id w = u) (lg_usage L))))
       (last_event (filter (\<lambda>v. ev_org v = organization \<and> ev_attempt v = attempt) (lg_events L)))"

definition insert_attempt :: "ledger \<Rightarrow> attempt_row \<Rightarrow> store_error + ledger" where
  "insert_attempt L r =
     (if \<not> is_ok (organization_text (JStr (at_org r)))
         \<or> (case at_card r of None \<Rightarrow> True | Some b \<Rightarrow> \<not> is_ok (rate_card_binding_of (JStr (rc_id b))
              (JInt (rc_version b)) (JStr (rc_digest b)) (JStr (rc_currency b))))
         \<or> (\<exists>x \<in> set (lg_attempts L). at_id x = at_id r)
      then Inl integrity else Inr (L\<lparr>lg_attempts := lg_attempts L @ [r]\<rparr>))"

definition account_unavailable :: store_error where
  "account_unavailable = Storage_Error ''finance_account_binding_unavailable''"

definition append_account_binding :: "environment \<Rightarrow> ledger \<Rightarrow> attempt_row \<Rightarrow> finance_selection \<Rightarrow> store_error + ledger" where
  "append_account_binding e L0 r selected =
     (let (event_id, L) = fresh e L0 in
      rbind (or_error account_unavailable (attempt_binding_row (en_sha e) (en_external e) (lg_accounts L) event_id
               (at_org r) (at_id r) (at_created r) selected)) (\<lambda>(ev, row).
      if \<exists>x \<in> set (lg_bindings L). dget x ''organization_id'' = JStr (at_org r) \<and>
           (dget x ''request_attempt_id'' = JStr (at_id r) \<or> dget x ''event_id'' = JStr event_id)
      then Inl account_unavailable
      else chain_append e (L\<lparr>lg_bindings := lg_bindings L @ [row]\<rparr>) (at_org r) ev
        (Some \<lparr>cs_schema = ''hormuz.finance-attempt-account-binding'', cs_version = 1, cs_event_id = event_id\<rparr>)))"

record begun =
  bg_attempt :: string
  bg_reservation :: string
  bg_attribution :: "string option"

record begin_options =
  bo_work :: "work_budget_context option"
  bo_failover :: "failover_context option"
  bo_card :: rate_card_binding
  bo_account :: finance_selection

definition begin_transaction :: "environment \<Rightarrow> ledger \<Rightarrow> utc_time \<Rightarrow> attempt_request \<Rightarrow> begin_options
    \<Rightarrow> store_error + (ledger \<times> begun)" where
  "begin_transaction e L0 now q opts =
     (let (attempt, L1) = fresh e L0; i = ar_identity q; org = id_organization i in
      rbind (build_request_attempt_root attempt now q (bo_card opts)) (\<lambda>r.
      rbind (sweep_stale_request_attempts e now (Some org) L1) (\<lambda>L2.
      rbind (insert_attempt L2 r) (\<lambda>L3.
      rbind (append_attempt_event e L3 attempt org now 1 ''pending'' None None) (\<lambda>(L4, _).
      rbind (append_account_binding e L4 r (bo_account opts)) (\<lambda>L5.
      rbind (case bo_failover opts of None \<Rightarrow> Inr L5
             | Some c \<Rightarrow> append_provider_failover e L5 org attempt (at_protocol r) (at_model r)
                 (at_policy_version r) c now) (\<lambda>L6.
      let (attribution_id, L7) = fresh e L6; (audit_id, L8) = fresh e L7 in
      rbind (prepare_work_budget (en_sha e) (hex_of_uuid attribution_id) (hex_of_uuid audit_id) (lg_budgets L8) org
               attempt (bo_work opts) (zulu_text now)) (\<lambda>(bt, prepared).
      rbind (reserve_budget_in (L8\<lparr>lg_budgets := bt\<rparr>) i (ar_scopes q) (at_tokens r) (at_cost r)
               (ar_ttl_seconds q) attempt (Some attempt) now) (\<lambda>L9.
      rbind (configured_model_id (en_sha e) (at_alias r) (at_upstream r) (at_model r)) (\<lambda>model.
      rbind (enforce_and_bind_work_budget (en_sha e) (outcome_of L9) (lg_budgets L9) prepared org attempt
               (at_protocol r) model None (at_cost r) (zulu_text now) (bo_work opts)) (\<lambda>bt'.
      Inr (L9\<lparr>lg_budgets := bt'\<rparr>,
        \<lparr>bg_attempt = attempt, bg_reservation = attempt,
         bg_attribution = (case prepared of None \<Rightarrow> None | Some p \<Rightarrow> pb_attribution p)\<rparr>))))))))))))"

text \<open>
  A denial by a work budget is recorded in a transaction of its own, after the attempt was rolled back, and
  then raised.
\<close>

definition begin_attempt_in_store :: "environment \<Rightarrow> ledger \<Rightarrow> utc_time \<Rightarrow> attempt_request \<Rightarrow> begin_options
    \<Rightarrow> ledger \<times> (store_error + begun)" where
  "begin_attempt_in_store e L now q opts =
     (case begin_transaction e L now q opts of
        Inr (L', b) \<Rightarrow> (L', Inr b)
      | Inl (Work_Budget_Denied message reason plans evaluated) \<Rightarrow>
          (case record_work_budget_denial (\<lambda>n. hex_of_uuid (en_uuid e (lg_uuids L + n))) (lg_budgets L)
                  (id_organization (ar_identity q)) (id_actor (ar_identity q)) reason plans evaluated of
             Inl _ \<Rightarrow> (L, Inl (Storage_Error ''storage_unavailable''))
           | Inr bt \<Rightarrow> (L\<lparr>lg_budgets := bt, lg_uuids := lg_uuids L + length plans\<rparr>,
               Inl (Work_Budget_Denied message reason plans evaluated)))
      | Inl err \<Rightarrow> (L, Inl err))"

section \<open>Settling an attempt\<close>

record settlement =
  se_status :: string
  se_reported :: "string option"
  se_input :: int
  se_output :: int
  se_cache_read :: int
  se_cache_write :: int
  se_reasoning :: int
  se_cost :: int
  se_request_id :: "string option"
  se_metrics :: "provider_metrics option"
  se_observation :: "native_observation option"
  se_estimate :: "route_estimate option"

definition settled_usage :: "attempt_row \<Rightarrow> settlement \<Rightarrow> utc_time \<Rightarrow> usage_row" where
  "settled_usage r x now =
     \<lparr>us_id = [], us_occurred = isoformat now, us_org = at_org r, us_actor = at_actor r,
      us_actor_name = at_actor_name r, us_team = at_team r, us_team_name = at_team_name r,
      us_identity_type = at_identity_type r, us_auth_source = at_auth_source r, us_client = at_client r,
      us_protocol = at_protocol r, us_model = at_model r, us_alias = at_alias r, us_upstream = at_upstream r,
      us_reported = se_reported x, us_policy_version = at_policy_version r, us_policy_action = at_policy_action r,
      us_status = se_status x, us_input = se_input x, us_output = se_output x, us_cache_read = se_cache_read x,
      us_cache_write = se_cache_write x, us_reasoning = se_reasoning x, us_cost = se_cost x,
      us_request_id = se_request_id x, us_redactions = at_redactions r, us_rules = at_rules r\<rparr>"

definition optional_metrics :: "environment \<Rightarrow> ledger \<Rightarrow> string \<Rightarrow> string \<Rightarrow> utc_time \<Rightarrow> provider_metrics option
    \<Rightarrow> store_error + ledger" where
  "optional_metrics e L attempt organization now m =
     (case m of None \<Rightarrow> Inr L | Some x \<Rightarrow> append_provider_metrics e L attempt organization now x)"

definition delete_hold :: "ledger \<Rightarrow> string \<Rightarrow> string \<Rightarrow> string \<Rightarrow> store_error + ledger" where
  "delete_hold L reservation attempt organization =
     (let gone = (\<lambda>h. ho_id h = reservation \<and> ho_attempt h = Some attempt \<and> ho_org h = organization) in
      if length (filter gone (lg_holds L)) \<noteq> 1 then Inl (Storage_Error ''request_attempt_reservation_missing'')
      else Inr (L\<lparr>lg_holds := filter (\<lambda>h. \<not> gone h) (lg_holds L)\<rparr>))"

definition finalize_request_attempt :: "environment \<Rightarrow> ledger \<Rightarrow> utc_time \<Rightarrow> utc_time \<Rightarrow> string \<Rightarrow> string \<Rightarrow> string
    \<Rightarrow> settlement \<Rightarrow> store_error + ledger" where
  "finalize_request_attempt e L now metrics_at attempt reservation organization x =
     rbind (require_terminal (se_status x)) (\<lambda>_.
     rbind (request_attempt_root L attempt organization) (\<lambda>r.
     rbind (latest_state L attempt) (\<lambda>latest.
     rbind (require_pending (ev_state latest)) (\<lambda>_.
     rbind (record_usage e L (settled_usage r x now)) (\<lambda>(L1, usage_id).
     rbind (append_attempt_event e L1 attempt organization now (ev_sequence latest + 1) (se_status x) None
              (Some usage_id)) (\<lambda>(L2, event_id).
     rbind (append_finance_evidence e L2 r event_id (Some usage_id) (se_status x) now (se_observation x)
              (se_estimate x)) (\<lambda>L3.
     rbind (optional_metrics e L3 attempt organization metrics_at (se_metrics x)) (\<lambda>L4.
     delete_hold L4 reservation attempt organization))))))))"

definition mark_request_attempt_outcome_unknown :: "environment \<Rightarrow> ledger \<Rightarrow> utc_time \<Rightarrow> utc_time \<Rightarrow> string \<Rightarrow> string
    \<Rightarrow> string \<Rightarrow> provider_metrics option \<Rightarrow> native_observation option \<Rightarrow> store_error + (ledger \<times> bool)" where
  "mark_request_attempt_outcome_unknown e L now metrics_at attempt organization reason m observation =
     rbind (request_attempt_root L attempt organization) (\<lambda>r.
     rbind (latest_state L attempt) (\<lambda>latest.
     rbind (should_mark_unknown (ev_state latest)) (\<lambda>mark.
     if \<not> mark then Inr (L, False)
     else rbind (append_attempt_event e L attempt organization now (ev_sequence latest + 1) ''outcome_unknown''
                   (Some reason) None) (\<lambda>(L1, event_id).
       rbind (unknown_observation_of e r observation reason) (\<lambda>ob.
       rbind (append_finance_evidence e L1 r event_id None ''outcome_unknown'' now (Some ob) None) (\<lambda>L2.
       rbind (optional_metrics e L2 attempt organization metrics_at m) (\<lambda>L3. Inr (L3, True))))))))"

section \<open>Plain reservations and reports\<close>

definition reserve_budget :: "environment \<Rightarrow> ledger \<Rightarrow> utc_time \<Rightarrow> identity \<Rightarrow> reservation_scope list \<Rightarrow> int \<Rightarrow> int
    \<Rightarrow> int \<Rightarrow> store_error + (ledger \<times> string option)" where
  "reserve_budget e L now i scopes tokens cost ttl =
     (if filter constrained scopes = [] then Inr (L, None)
      else let (reservation, L1) = fresh e L in
        rbind (sweep_stale_request_attempts e now (Some (id_organization i)) L1) (\<lambda>L2.
        rbind (reserve_budget_in L2 i (filter constrained scopes) tokens cost ttl reservation None now) (\<lambda>L3.
        Inr (L3, Some reservation))))"

definition in_organization :: "string option \<Rightarrow> string \<Rightarrow> bool" where
  "in_organization filter_org organization = (case filter_org of None \<Rightarrow> True | Some x \<Rightarrow> organization = x)"

definition release_budget_reservation :: "ledger \<Rightarrow> string option \<Rightarrow> string option \<Rightarrow> ledger" where
  "release_budget_reservation L reservation organization = (case reservation of
      None \<Rightarrow> L
    | Some i \<Rightarrow> L\<lparr>lg_holds := filter (\<lambda>h. \<not> (ho_id h = i \<and> ho_attempt h = None \<and> in_organization organization (ho_org h)))
        (lg_holds L)\<rparr>)"

definition refresh_budget_reservation :: "ledger \<Rightarrow> utc_time \<Rightarrow> string option \<Rightarrow> int \<Rightarrow> string option \<Rightarrow> store_error + ledger" where
  "refresh_budget_reservation L now reservation ttl organization = (case reservation of
      None \<Rightarrow> Inr L
    | Some i \<Rightarrow> rbind (expiry ttl now) (\<lambda>expires.
        Inr (L\<lparr>lg_holds := map (\<lambda>h. if ho_id h = i \<and> in_organization organization (ho_org h)
              then h\<lparr>ho_expires := expires\<rparr> else h) (lg_holds L)\<rparr>)))"

definition active_budget_reservations :: "ledger \<Rightarrow> utc_time \<Rightarrow> string option \<Rightarrow> nat" where
  "active_budget_reservations L now organization = length (filter (\<lambda>h. hold_active L (isoformat now) h \<and>
     in_organization organization (ho_org h)) (lg_holds L))"

definition within_period :: "string \<Rightarrow> string option \<Rightarrow> string \<Rightarrow> bool" where
  "within_period start end_before occurred =
     (start \<le> occurred \<and> (case end_before of None \<Rightarrow> True | Some t \<Rightarrow> occurred < t))"

definition monthly_totals_of :: "ledger \<Rightarrow> string option \<Rightarrow> string option \<Rightarrow> string option \<Rightarrow> string \<Rightarrow> string option
    \<Rightarrow> monthly_totals" where
  "monthly_totals_of L actor team organization start end_before =
     (let rows = filter (\<lambda>u. within_period start end_before (us_occurred u) \<and> in_organization organization (us_org u) \<and>
            in_organization actor (us_actor u) \<and> in_organization team (us_team u)) (lg_usage L);
          count = (\<lambda>status. int (length (filter (\<lambda>u. us_status u = status) rows)));
          total_of = (\<lambda>f. sum_list (map f rows))
      in \<lparr>mt_requests = int (length rows), mt_denied_requests = count ''denied'',
          mt_rate_limited_requests = count ''rate_limited'', mt_input_tokens = total_of us_input,
          mt_output_tokens = total_of us_output, mt_cache_read_tokens = total_of us_cache_read,
          mt_cache_write_tokens = total_of us_cache_write, mt_reasoning_tokens = total_of us_reasoning,
          mt_cost_microusd = total_of us_cost, mt_redaction_count = total_of us_redactions\<rparr>)"

text \<open>The usage the policy engine reads: this month's, by actor, team and organization.\<close>

definition store_meter :: "ledger \<Rightarrow> utc_time \<Rightarrow> meter" where
  "store_meter L now actor team organization =
     monthly_totals_of L actor team (Some organization) (isoformat (month_start now)) None"

definition record_secret_event :: "environment \<Rightarrow> ledger \<Rightarrow> utc_time \<Rightarrow> identity \<Rightarrow> string \<Rightarrow> string \<Rightarrow> string
    \<Rightarrow> string \<Rightarrow> string \<Rightarrow> int \<Rightarrow> string list \<Rightarrow> store_error + (ledger \<times> string)" where
  "record_secret_event e L0 now i client protocol model policy_version action detections rules =
     (if action \<notin> {''redacted'', ''denied''} then Inl (Storage_Error ''ValueError'')
      else let (event_id, L) = fresh e L0;
          row = [(''id'', JStr event_id), (''occurred_at'', JStr (isoformat now)),
            (''evidence_schema_id'', JStr ''hormuz.audit-event''), (''evidence_schema_version'', JInt 2),
            (''organization_id'', JStr (id_organization i)), (''actor_id'', JStr (id_actor i)),
            (''actor_name'', JStr (id_actor_name i)), (''team_id'', JStr (id_team i)), (''team_name'', JStr (id_team_name i)),
            (''identity_type'', JStr (id_identity_type i)), (''authentication_source'', JStr (id_authentication_source i)),
            (''client'', JStr client), (''protocol'', JStr protocol), (''requested_model'', JStr model),
            (''policy_version'', JStr policy_version), (''coverage'', JStr ''gateway_captured_requests_only''),
            (''action'', JStr action), (''detection_count'', JInt (max 0 detections)),
            (''rules'', JStr (dump True (json_rules (sorted_rules rules))))]
      in if \<exists>x \<in> set (lg_secrets L). dget x ''id'' = JStr event_id then Inl integrity
         else (case security_audit_event row of
            Inl code \<Rightarrow> Inl (Storage_Error code)
          | Inr ev \<Rightarrow> rbind (chain_append e (L\<lparr>lg_secrets := lg_secrets L @ [row]\<rparr>) (id_organization i) ev None) (\<lambda>L'.
              Inr (L', event_id))))"

end
