(* ===== verification/Attempt_Ledger.thy ===== *)
theory Attempt_Ledger
  imports Attempt_Store
begin

text \<open>
  What the operations of \<^verbatim>\<open>Attempt_Store\<close> do to the four tables the budget rests on, and the invariant of
  the ledger: every attempt has one pending event and at most one outcome, and exactly one hold while its
  outcome is open.
\<close>

section \<open>The four tables\<close>

definition core :: "ledger \<Rightarrow> attempt_row list \<times> event_row list \<times> usage_row list \<times> hold_row list" where
  "core L = (lg_attempts L, lg_events L, lg_usage L, lg_holds L)"

lemma core_eq [simp]: "core L = core M \<longleftrightarrow> lg_attempts L = lg_attempts M \<and> lg_events L = lg_events M \<and>
    lg_usage L = lg_usage M \<and> lg_holds L = lg_holds M"
  by (auto simp: core_def)

lemma rbind_InrE: "rbind r k = Inr y \<Longrightarrow> (\<And>x. r = Inr x \<Longrightarrow> k x = Inr y \<Longrightarrow> P) \<Longrightarrow> P"
  by auto

lemma fresh_core: "fresh e L = (i, M) \<Longrightarrow> core M = core L"
  by (auto simp: fresh_def)

lemma chain_append_core: "chain_append e L org ev source = Inr M \<Longrightarrow> core M = core L"
  by (auto simp: chain_append_def split: sum.splits)

lemma events_of_core: "lg_events L = lg_events M \<Longrightarrow> events_of L = events_of M"
  by (simp add: events_of_def fun_eq_iff)

lemma latest_event_core: "lg_events L = lg_events M \<Longrightarrow> latest_event L = latest_event M"
  by (simp add: latest_event_def fun_eq_iff events_of_core [of L M])

text \<open>Each operation as an equation on the tables.\<close>

lemma append_attempt_event_effect:
  assumes "append_attempt_event e L a org now n state reason usage = Inr (M, i)"
  shows "core M = (lg_attempts L, lg_events L @ [\<lparr>ev_id = i, ev_attempt = a, ev_org = org, ev_occurred = isoformat now,
      ev_sequence = n, ev_state = state, ev_reason = reason, ev_usage = usage\<rparr>], lg_usage L, lg_holds L)"
    and "\<And>w. w \<in> set (events_of L a) \<Longrightarrow> ev_sequence w \<noteq> n"
proof -
  obtain j N where f: "fresh e L = (j, N)" by fastforce
  have N: "lg_attempts N = lg_attempts L" "lg_events N = lg_events L" "lg_usage N = lg_usage L" "lg_holds N = lg_holds L"
    using fresh_core [OF f] by simp_all
  show "core M = (lg_attempts L, lg_events L @ [\<lparr>ev_id = i, ev_attempt = a, ev_org = org, ev_occurred = isoformat now,
      ev_sequence = n, ev_state = state, ev_reason = reason, ev_usage = usage\<rparr>], lg_usage L, lg_holds L)"
    using assms N by (auto simp: append_attempt_event_def f Let_def core_def split: if_splits)
  show "ev_sequence w \<noteq> n" if "w \<in> set (events_of L a)" for w
    using assms N that by (auto simp: append_attempt_event_def f Let_def events_of_def split: if_splits)
qed

lemma append_finance_evidence_core:
  "append_finance_evidence e L r i usage state now ob es = Inr M \<Longrightarrow> core M = core L"
proof -
  assume a: "append_finance_evidence e L r i usage state now ob es = Inr M"
  obtain j N where f: "fresh e L = (j, N)" by fastforce
  show ?thesis
  proof (cases "binding_from_attempt_row (attempt_columns r)")
    case (Inr b)
    show ?thesis
    proof (cases b)
      case None
      then show ?thesis using a Inr by (simp add: append_finance_evidence_def)
    next
      case (Some c)
      note a1 = a [unfolded append_finance_evidence_def Inr Some sum.case option.case f Let_def prod.case]
      from a1 obtain ev row where
        "chain_append e (N\<lparr>lg_evidence := lg_evidence N @ [row]\<rparr>) (at_org r) ev
          (Some \<lparr>cs_schema = ''hormuz.finance-attempt-evidence'', cs_version = 1, cs_event_id = j\<rparr>) = Inr M"
        by (auto split: if_splits prod.splits)
      from chain_append_core [OF this] fresh_core [OF f] show ?thesis by simp
    qed
  qed (use a in \<open>simp add: append_finance_evidence_def\<close>)
qed

lemma append_provider_metrics_core: "append_provider_metrics e L a org now m = Inr M \<Longrightarrow> core M = core L"
proof -
  assume a: "append_provider_metrics e L a org now m = Inr M"
  obtain j N where f: "fresh e L = (j, N)" by fastforce
  show ?thesis
  proof (cases "or_error (Storage_Error metrics_error) (build_provider_attempt_metrics_event j a org (isoformat now) m)")
    case (Inl x)
    with a show ?thesis by (simp only: append_provider_metrics_def f Let_def prod.case rbind_simps) simp
  next
    case (Inr ev)
    note a1 = a [unfolded append_provider_metrics_def f Let_def prod.case Inr rbind_simps]
    have "M = N\<lparr>lg_translated_metrics := lg_translated_metrics N @ [ev]\<rparr> \<or> M = N\<lparr>lg_metrics := lg_metrics N @ [ev]\<rparr>"
      using a1 by (simp only: split: if_splits) simp_all
    with fresh_core [OF f] show ?thesis by auto
  qed
qed

lemma optional_metrics_core: "optional_metrics e L a org now m = Inr M \<Longrightarrow> core M = core L"
  by (cases m) (auto simp: optional_metrics_def dest: append_provider_metrics_core)

lemma append_provider_failover_core: "append_provider_failover e L org a p m v c now = Inr M \<Longrightarrow> core M = core L"
proof -
  assume a: "append_provider_failover e L org a p m v c now = Inr M"
  obtain j N where f: "fresh e L = (j, N)" by fastforce
  from a show ?thesis
    using fresh_core [OF f] by (auto simp: append_provider_failover_def f Let_def split: if_splits)
qed

lemma append_account_binding_core: "append_account_binding e L r selected = Inr M \<Longrightarrow> core M = core L"
proof -
  assume a: "append_account_binding e L r selected = Inr M"
  obtain j N where f: "fresh e L = (j, N)" by fastforce
  from a obtain ev row where
    "chain_append e (N\<lparr>lg_bindings := lg_bindings N @ [row]\<rparr>) (at_org r) ev
       (Some \<lparr>cs_schema = ''hormuz.finance-attempt-account-binding'', cs_version = 1, cs_event_id = j\<rparr>) = Inr M"
    by (auto simp: append_account_binding_def f Let_def split: if_splits prod.splits)
  from chain_append_core [OF this] fresh_core [OF f] show ?thesis by simp
qed

lemma record_usage_effect:
  assumes "record_usage e L u = Inr (M, i)"
  shows "core M = (lg_attempts L, lg_events L, lg_usage L @ [clamped (u\<lparr>us_id := i\<rparr>)], lg_holds L)"
    and "i \<notin> us_id ` set (lg_usage L)"
proof -
  obtain j N where f: "fresh e L = (j, N)" by fastforce
  have N: "lg_attempts N = lg_attempts L" "lg_events N = lg_events L" "lg_usage N = lg_usage L" "lg_holds N = lg_holds L"
    using fresh_core [OF f] by simp_all
  let ?u = "clamped (u\<lparr>us_id := j\<rparr>)"
  have ok: "\<not> (us_policy_action u \<notin> set policy_actions \<or> us_status u \<notin> set request_statuses)"
    and new: "\<not> (\<exists>w \<in> set (lg_usage N). us_id w = j)"
    using assms by (auto simp only: record_usage_def f Let_def prod.case split: if_splits)
  note a = assms [unfolded record_usage_def f Let_def prod.case if_not_P [OF ok] if_not_P [OF new]]
  obtain ev where c: "chain_append e (N\<lparr>lg_usage := lg_usage N @ [?u]\<rparr>) (us_org ?u) ev None = Inr M" and i: "i = j"
  proof (cases "usage_audit_event (usage_columns ?u)")
    case (Inl x)
    from a [unfolded Inl sum.case] show ?thesis by (simp only: sum.distinct)
  next
    case (Inr ev)
    show ?thesis
    proof (rule rbind_InrE [OF a [unfolded Inr sum.case]])
      fix M'
      assume c: "chain_append e (N\<lparr>lg_usage := lg_usage N @ [?u]\<rparr>) (us_org ?u) ev None = Inr M'"
        and "Inr (M', j) = (Inr (M, i) :: store_error + ledger \<times> string)"
      then have "M' = M" "i = j" by simp_all
      then show ?thesis using c that by metis
    qed
  qed
  show "core M = (lg_attempts L, lg_events L, lg_usage L @ [clamped (u\<lparr>us_id := i\<rparr>)], lg_holds L)"
    using chain_append_core [OF c] N i(1) by (simp add: core_def)
  show "i \<notin> us_id ` set (lg_usage L)" using i N new by auto
qed

lemma insert_attempt_effect:
  "insert_attempt L r = Inr M \<Longrightarrow> core M = (lg_attempts L @ [r], lg_events L, lg_usage L, lg_holds L) \<and>
     at_id r \<notin> at_id ` set (lg_attempts L)"
  by (auto simp: insert_attempt_def core_def split: if_splits option.splits)

definition new_hold :: "identity \<Rightarrow> int \<Rightarrow> int \<Rightarrow> string \<Rightarrow> string option \<Rightarrow> string \<Rightarrow> string \<Rightarrow> hold_row" where
  "new_hold i tokens cost reservation attempt created expires =
     \<lparr>ho_id = reservation, ho_created = created, ho_expires = expires, ho_org = id_organization i,
      ho_actor = id_actor i, ho_team = id_team i, ho_tokens = max 0 tokens, ho_cost = max 0 cost, ho_attempt = attempt\<rparr>"

lemma drop_expired_fields [simp]:
  "lg_attempts (drop_expired now L) = lg_attempts L" "lg_events (drop_expired now L) = lg_events L"
  "lg_usage (drop_expired now L) = lg_usage L"
  by (simp_all add: drop_expired_def)

lemma reserve_budget_in_effect:
  assumes "reserve_budget_in L i scopes tokens cost ttl reservation attempt now = Inr M"
  shows "\<exists>expires. M = (drop_expired (isoformat now) L)\<lparr>lg_holds := lg_holds (drop_expired (isoformat now) L) @
       [new_hold i tokens cost reservation attempt (isoformat now) expires]\<rparr>"
    and "check_scopes (drop_expired (isoformat now) L) (id_organization i) (isoformat (month_start now)) (isoformat now)
       tokens cost (filter constrained scopes) = Inr ()"
    and "h \<in> set (lg_holds (drop_expired (isoformat now) L)) \<Longrightarrow>
       ho_id h \<noteq> reservation \<and> (attempt \<noteq> None \<longrightarrow> ho_attempt h \<noteq> attempt)"
proof -
  let ?L = "drop_expired (isoformat now) L"
  let ?c = "check_scopes ?L (id_organization i) (isoformat (month_start now)) (isoformat now) tokens cost
     (filter constrained scopes)"
  obtain u where c: "?c = Inr u" using assms by (cases ?c) (auto simp: reserve_budget_in_def Let_def)
  then show "?c = Inr ()" by simp
  obtain x where x: "expiry ttl now = Inr x" using assms c by (cases "expiry ttl now") (auto simp: reserve_budget_in_def Let_def)
  have t: "\<not> (\<exists>h \<in> set (lg_holds ?L). ho_id h = reservation \<or> (attempt \<noteq> None \<and> ho_attempt h = attempt))"
    and m: "M = ?L\<lparr>lg_holds := lg_holds ?L @ [new_hold i tokens cost reservation attempt (isoformat now) x]\<rparr>"
    using assms c x by (auto simp: reserve_budget_in_def Let_def new_hold_def split: if_splits)
  from m show "\<exists>expires. M = ?L\<lparr>lg_holds := lg_holds ?L @ [new_hold i tokens cost reservation attempt (isoformat now) expires]\<rparr>"
    by blast
  show "ho_id h \<noteq> reservation \<and> (attempt \<noteq> None \<longrightarrow> ho_attempt h \<noteq> attempt)" if "h \<in> set (lg_holds ?L)" for h
    using t that by blast
qed

lemma delete_hold_effect:
  assumes "delete_hold L reservation a org = Inr M"
  shows "core M = (lg_attempts L, lg_events L, lg_usage L, filter (\<lambda>h. \<not> (ho_id h = reservation \<and> ho_attempt h = Some a \<and>
      ho_org h = org)) (lg_holds L))"
    and "\<exists>h \<in> set (lg_holds L). ho_id h = reservation \<and> ho_attempt h = Some a \<and> ho_org h = org"
proof -
  let ?gone = "\<lambda>h. ho_id h = reservation \<and> ho_attempt h = Some a \<and> ho_org h = org"
  have l: "length (filter ?gone (lg_holds L)) = 1" using assms by (auto simp: delete_hold_def Let_def split: if_splits)
  then show "core M = (lg_attempts L, lg_events L, lg_usage L, filter (\<lambda>h. \<not> ?gone h) (lg_holds L))"
    using assms by (auto simp: delete_hold_def Let_def core_def split: if_splits)
  from l have "filter ?gone (lg_holds L) \<noteq> []" by auto
  then show "\<exists>h \<in> set (lg_holds L). ?gone h" by (auto simp: filter_empty_conv)
qed

section \<open>The invariant of the ledger\<close>

definition linked :: "string \<Rightarrow> hold_row \<Rightarrow> bool" where
  "linked a h = (ho_attempt h = Some a)"

definition hold_of_root :: "attempt_row \<Rightarrow> hold_row \<Rightarrow> bool" where
  "hold_of_root r h = (ho_id h = at_id r \<and> ho_org h = at_org r \<and> ho_actor h = at_actor r \<and> ho_team h = at_team r \<and>
     ho_tokens h = at_tokens r \<and> ho_cost h = at_cost r)"

definition held :: "hold_row list \<Rightarrow> attempt_row \<Rightarrow> bool" where
  "held H r = (\<exists>h. filter (linked (at_id r)) H = [h] \<and> hold_of_root r h)"

definition unheld :: "hold_row list \<Rightarrow> attempt_row \<Rightarrow> bool" where
  "unheld H r = (filter (linked (at_id r)) H = [])"

definition events_at :: "event_row list \<Rightarrow> string \<Rightarrow> event_row list" where
  "events_at E a = filter (\<lambda>v. ev_attempt v = a) E"

definition opening_event :: "attempt_row \<Rightarrow> event_row \<Rightarrow> bool" where
  "opening_event r p = (ev_org p = at_org r \<and> ev_sequence p = 1 \<and> ev_state p = ''pending'' \<and> ev_usage p = None)"

definition lost_event :: "attempt_row \<Rightarrow> event_row \<Rightarrow> bool" where
  "lost_event r v = (ev_org v = at_org r \<and> ev_sequence v = 2 \<and> ev_state v = ''outcome_unknown'' \<and> ev_usage v = None)"

definition closing_event :: "usage_row list \<Rightarrow> attempt_row \<Rightarrow> event_row \<Rightarrow> bool" where
  "closing_event U r v = (ev_org v = at_org r \<and> ev_sequence v = 2 \<and> ev_state v \<in> set terminal_states \<and>
     (\<exists>u \<in> set U. ev_usage v = Some (us_id u) \<and> us_org u = at_org r \<and> us_actor u = at_actor r \<and>
        us_team u = at_team r \<and> us_status u = ev_state v))"

text \<open>An attempt is pending or lost, and held; or settled, charged once and no longer held.\<close>

definition pending_attempt :: "event_row list \<Rightarrow> hold_row list \<Rightarrow> attempt_row \<Rightarrow> bool" where
  "pending_attempt E H r = (\<exists>p. events_at E (at_id r) = [p] \<and> opening_event r p \<and> held H r)"

definition lost_attempt :: "event_row list \<Rightarrow> hold_row list \<Rightarrow> attempt_row \<Rightarrow> bool" where
  "lost_attempt E H r = (\<exists>p v. events_at E (at_id r) = [p, v] \<and> opening_event r p \<and> lost_event r v \<and> held H r)"

definition settled_attempt :: "event_row list \<Rightarrow> usage_row list \<Rightarrow> hold_row list \<Rightarrow> attempt_row \<Rightarrow> bool" where
  "settled_attempt E U H r = (\<exists>p v. events_at E (at_id r) = [p, v] \<and> opening_event r p \<and> closing_event U r v \<and> unheld H r)"

definition attempt_ok :: "event_row list \<Rightarrow> usage_row list \<Rightarrow> hold_row list \<Rightarrow> attempt_row \<Rightarrow> bool" where
  "attempt_ok E U H r = (pending_attempt E H r \<or> lost_attempt E H r \<or> settled_attempt E U H r)"

definition nonnegative_usage :: "usage_row \<Rightarrow> bool" where
  "nonnegative_usage u = (0 \<le> us_input u \<and> 0 \<le> us_output u \<and> 0 \<le> us_cost u)"

definition nonnegative_hold :: "hold_row \<Rightarrow> bool" where
  "nonnegative_hold h = (0 \<le> ho_tokens h \<and> 0 \<le> ho_cost h)"

lemma nonnegative_new_hold [simp]: "nonnegative_hold (new_hold i tokens cost reservation attempt created expires)"
  by (simp add: nonnegative_hold_def new_hold_def)

lemma nonnegative_root_hold: "hold_of_root r h \<Longrightarrow> 0 \<le> at_tokens r \<Longrightarrow> 0 \<le> at_cost r \<Longrightarrow> nonnegative_hold h"
  by (simp add: hold_of_root_def nonnegative_hold_def)

definition tables_ok :: "attempt_row list \<times> event_row list \<times> usage_row list \<times> hold_row list \<Rightarrow> bool" where
  "tables_ok = (\<lambda>(A, E, U, H).
     distinct (map at_id A) \<and> distinct (map us_id U) \<and>
     (\<forall>r \<in> set A. attempt_ok E U H r \<and> 0 \<le> at_tokens r \<and> 0 \<le> at_cost r) \<and>
     (\<forall>v \<in> set E. ev_attempt v \<in> at_id ` set A) \<and>
     (\<forall>h \<in> set H. \<forall>a. ho_attempt h = Some a \<longrightarrow> a \<in> at_id ` set A) \<and>
     (\<forall>u \<in> set U. nonnegative_usage u) \<and> (\<forall>h \<in> set H. nonnegative_hold h))"

definition ledger_inv :: "ledger \<Rightarrow> bool" where
  "ledger_inv L = tables_ok (core L)"

lemma ledger_inv_core: "core M = core L \<Longrightarrow> ledger_inv M = ledger_inv L"
  by (simp add: ledger_inv_def core_def)

lemma events_at_append [simp]:
  "events_at (E @ [v]) a = events_at E a @ (if ev_attempt v = a then [v] else [])"
  by (simp add: events_at_def)

lemma filter_linked_append [simp]:
  "filter (linked a) (H @ [h]) = filter (linked a) H @ (if ho_attempt h = Some a then [h] else [])"
  by (simp add: linked_def)

lemma linked_new_hold [simp]: "linked a (new_hold i tokens cost reservation attempt created expires) = (attempt = Some a)"
  by (simp add: linked_def new_hold_def)

lemma tables_ok_root_unique:
  "tables_ok (A, E, U, H) \<Longrightarrow> r \<in> set A \<Longrightarrow> q \<in> set A \<Longrightarrow> at_id r = at_id q \<Longrightarrow> r = q"
  by (auto simp: tables_ok_def distinct_map inj_on_def)

lemma no_events_outside:
  "tables_ok (A, E, U, H) \<Longrightarrow> a \<notin> at_id ` set A \<Longrightarrow> events_at E a = []"
  by (auto simp: tables_ok_def events_at_def filter_empty_conv)

lemma no_holds_outside:
  "tables_ok (A, E, U, H) \<Longrightarrow> a \<notin> at_id ` set A \<Longrightarrow> filter (linked a) H = []"
  by (auto simp: tables_ok_def linked_def filter_empty_conv)

text \<open>An attempt depends on its own events and its own holds only, and on usage rows being kept.\<close>

lemma attempt_ok_mono:
  assumes "attempt_ok E U H r" "events_at E' (at_id r) = events_at E (at_id r)" "set U \<subseteq> set U'"
    "filter (linked (at_id r)) H' = filter (linked (at_id r)) H"
  shows "attempt_ok E' U' H' r"
proof -
  have "closing_event U r v \<Longrightarrow> closing_event U' r v" for v
    using assms(3) by (auto simp: closing_event_def)
  then show ?thesis using assms(1,2,4)
    by (auto simp: attempt_ok_def pending_attempt_def lost_attempt_def settled_attempt_def held_def unheld_def)
qed

subsection \<open>What each change of the tables keeps\<close>

lemma tables_ok_attempts:
  "tables_ok (A, E, U, H) \<Longrightarrow> r \<in> set A \<Longrightarrow> attempt_ok E U H r"
  by (auto simp: tables_ok_def)

lemma tables_ok_holds:
  assumes ok: "tables_ok (A, E, U, H)"
    and same: "\<And>a. filter (linked a) H' = filter (linked a) H" and nn: "\<forall>h \<in> set H'. nonnegative_hold h"
  shows "tables_ok (A, E, U, H')"
proof -
  have "attempt_ok E U H' r" if "r \<in> set A" for r
    using attempt_ok_mono [OF tables_ok_attempts [OF ok that] refl subset_refl same] .
  moreover have "a \<in> at_id ` set A" if "h \<in> set H'" "ho_attempt h = Some a" for h a
  proof -
    have "h \<in> set (filter (linked a) H')" using that by (simp add: linked_def)
    then have "h \<in> set (filter (linked a) H)" by (simp only: same)
    then have "h \<in> set H" by simp
    with that ok show ?thesis by (auto simp: tables_ok_def)
  qed
  ultimately show ?thesis using ok nn by (auto simp: tables_ok_def)
qed

text \<open>A refreshed hold differs in its expiry only.\<close>

definition refreshes :: "(hold_row \<Rightarrow> hold_row) \<Rightarrow> bool" where
  "refreshes f = (\<forall>h. \<exists>x. f h = h\<lparr>ho_expires := x\<rparr>)"

lemma refreshed_fields:
  assumes "refreshes f"
  shows "ho_attempt (f h) = ho_attempt h" "ho_org (f h) = ho_org h" "ho_actor (f h) = ho_actor h"
    "ho_team (f h) = ho_team h" "ho_tokens (f h) = ho_tokens h" "ho_cost (f h) = ho_cost h" "ho_id (f h) = ho_id h"
proof -
  obtain x where "f h = h\<lparr>ho_expires := x\<rparr>" using assms by (auto simp: refreshes_def)
  then show "ho_attempt (f h) = ho_attempt h" "ho_org (f h) = ho_org h" "ho_actor (f h) = ho_actor h"
    "ho_team (f h) = ho_team h" "ho_tokens (f h) = ho_tokens h" "ho_cost (f h) = ho_cost h" "ho_id (f h) = ho_id h"
    by simp_all
qed

lemma tables_ok_refresh:
  assumes ok: "tables_ok (A, E, U, H)" and f: "refreshes f"
  shows "tables_ok (A, E, U, map f H)"
proof -
  have lk: "linked a (f h) = linked a h" for a h by (simp add: linked_def refreshed_fields [OF f])
  have fl: "filter (linked a) (map f H) = map f (filter (linked a) H)" for a
    by (simp add: filter_map comp_def lk)
  have "attempt_ok E U (map f H) r" if "r \<in> set A" for r
    using tables_ok_attempts [OF ok that]
    by (auto simp: attempt_ok_def pending_attempt_def lost_attempt_def settled_attempt_def held_def unheld_def fl
        hold_of_root_def refreshed_fields [OF f])
  then show ?thesis using ok by (auto simp: tables_ok_def nonnegative_hold_def refreshed_fields [OF f])
qed

lemma tables_ok_usage:
  assumes ok: "tables_ok (A, E, U, H)" and new: "us_id u \<notin> us_id ` set U" "nonnegative_usage u"
  shows "tables_ok (A, E, U @ [u], H)"
proof -
  have "attempt_ok E (U @ [u]) H r" if "r \<in> set A" for r
    by (rule attempt_ok_mono [OF tables_ok_attempts [OF ok that] refl _ refl]) auto
  then show ?thesis using ok new by (auto simp: tables_ok_def)
qed

text \<open>Opening: the attempt, its pending event and its hold.\<close>

lemma tables_ok_open:
  assumes ok: "tables_ok (A, E, U, H)" and new: "at_id r \<notin> at_id ` set A"
    and p: "ev_attempt p = at_id r" "opening_event r p"
    and h: "ho_attempt h = Some (at_id r)" "hold_of_root r h"
    and nn: "0 \<le> at_tokens r" "0 \<le> at_cost r"
  shows "tables_ok (A @ [r], E @ [p], U, H @ [h])"
proof -
  have e0: "events_at E (at_id r) = []" and h0: "filter (linked (at_id r)) H = []"
    using no_events_outside [OF ok new] no_holds_outside [OF ok new] .
  have "attempt_ok (E @ [p]) U (H @ [h]) r"
    using e0 h0 p h by (auto simp: attempt_ok_def pending_attempt_def held_def linked_def)
  moreover have "attempt_ok (E @ [p]) U (H @ [h]) q" if q: "q \<in> set A" for q
  proof -
    have "at_id q \<noteq> at_id r" using new q by (metis imageI)
    then show ?thesis
      using p h by (auto simp: linked_def intro!: attempt_ok_mono [OF tables_ok_attempts [OF ok q]])
  qed
  ultimately show ?thesis using ok new p h nn nonnegative_root_hold [OF h(2) nn] by (auto simp: tables_ok_def)
qed

text \<open>Losing: a pending attempt gets its \<^verbatim>\<open>outcome_unknown\<close> event and keeps its hold.\<close>

lemma tables_ok_lose:
  assumes ok: "tables_ok (A, E, U, H)" and r: "r \<in> set A" "pending_attempt E H r"
    and v: "ev_attempt v = at_id r" "lost_event r v"
  shows "tables_ok (A, E @ [v], U, H)" and "lost_attempt (E @ [v]) H r"
proof -
  show l: "lost_attempt (E @ [v]) H r"
    using r v by (auto simp: pending_attempt_def lost_attempt_def)
  have "attempt_ok (E @ [v]) U H q" if q: "q \<in> set A" for q
  proof (cases "q = r")
    case True
    then show ?thesis using l by (simp add: attempt_ok_def)
  next
    case False
    then have "at_id q \<noteq> at_id r" using tables_ok_root_unique [OF ok q r(1)] by auto
    then show ?thesis using v by (auto intro!: attempt_ok_mono [OF tables_ok_attempts [OF ok q]])
  qed
  then show "tables_ok (A, E @ [v], U, H)" using ok r v by (auto simp: tables_ok_def)
qed

text \<open>Settling: a pending attempt gets its usage row and its terminal event, and its hold is deleted.\<close>

lemma tables_ok_settle:
  assumes ok: "tables_ok (A, E, U, H)" and r: "r \<in> set A" "pending_attempt E H r"
    and u: "us_id u \<notin> us_id ` set U" "nonnegative_usage u"
    and v: "ev_attempt v = at_id r" "closing_event (U @ [u]) r v"
    and gone: "\<And>h. gone h \<Longrightarrow> ho_attempt h = Some (at_id r)" "\<exists>h \<in> set H. gone h"
  shows "tables_ok (A, E @ [v], U @ [u], filter (\<lambda>h. \<not> gone h) H)"
    and "settled_attempt (E @ [v]) (U @ [u]) (filter (\<lambda>h. \<not> gone h) H) r"
proof -
  let ?H = "filter (\<lambda>h. \<not> gone h) H"
  obtain h0 where h0: "filter (linked (at_id r)) H = [h0]" using r(2) by (auto simp: pending_attempt_def held_def)
  from gone obtain g where g: "g \<in> set H" "gone g" "linked (at_id r) g" by (auto simp: linked_def)
  then have "g \<in> set (filter (linked (at_id r)) H)" by simp
  with h0 have "g = h0" by simp
  have "filter (linked (at_id r)) ?H = filter (\<lambda>h. \<not> gone h) (filter (linked (at_id r)) H)"
    by (simp add: conj_commute)
  also have "\<dots> = []" using h0 g \<open>g = h0\<close> by simp
  finally have un: "unheld ?H r" by (simp add: unheld_def)
  show s: "settled_attempt (E @ [v]) (U @ [u]) ?H r"
    using r v un by (auto simp: pending_attempt_def settled_attempt_def)
  have other: "filter (linked a) ?H = filter (linked a) H" if "a \<noteq> at_id r" for a
  proof -
    have "\<not> gone h" if "linked a h" for h
      using gone(1) [of h] that \<open>a \<noteq> at_id r\<close> by (auto simp: linked_def)
    then show ?thesis by (auto intro: filter_cong)
  qed
  have "attempt_ok (E @ [v]) (U @ [u]) ?H q" if q: "q \<in> set A" for q
  proof (cases "q = r")
    case True
    then show ?thesis using s by (simp add: attempt_ok_def)
  next
    case False
    then have "at_id q \<noteq> at_id r" using tables_ok_root_unique [OF ok q r(1)] by auto
    then show ?thesis using v other by (auto intro!: attempt_ok_mono [OF tables_ok_attempts [OF ok q]])
  qed
  then show "tables_ok (A, E @ [v], U @ [u], ?H)" using ok r v u by (auto simp: tables_ok_def)
qed

subsection \<open>The latest event\<close>

lemma events_of_at: "events_of L a = events_at (lg_events L) a"
  by (simp add: events_of_def events_at_def)

lemma latest_event_pending:
  "pending_attempt E H r \<Longrightarrow> lg_events L = E \<Longrightarrow> \<exists>p. latest_event L (at_id r) = Some p \<and> opening_event r p"
  by (auto simp: pending_attempt_def latest_event_def events_of_at)

lemma latest_event_lost:
  "lost_attempt E H r \<Longrightarrow> lg_events L = E \<Longrightarrow> \<exists>v. latest_event L (at_id r) = Some v \<and> lost_event r v"
  by (auto simp: lost_attempt_def latest_event_def events_of_at opening_event_def lost_event_def)

lemma latest_event_settled:
  "settled_attempt E U H r \<Longrightarrow> lg_events L = E \<Longrightarrow> \<exists>v. latest_event L (at_id r) = Some v \<and> closing_event U r v"
  by (auto simp: settled_attempt_def latest_event_def events_of_at opening_event_def closing_event_def)

lemma terminal_not_open: "s \<in> set terminal_states \<Longrightarrow> s \<notin> set open_states"
  by (auto simp: terminal_states_def open_states_def)

lemma pending_by_state:
  assumes "attempt_ok (lg_events L) U H r" "latest_event L (at_id r) = Some v" "ev_state v = ''pending''"
  shows "pending_attempt (lg_events L) H r" "ev_sequence v = 1"
proof -
  have "\<not> lost_attempt (lg_events L) H r"
    using latest_event_lost [of "lg_events L" H r L] assms by (auto simp: lost_event_def)
  moreover have "\<not> settled_attempt (lg_events L) U H r"
    using latest_event_settled [of "lg_events L" U H r L] assms by (auto simp: closing_event_def terminal_states_def)
  ultimately show p: "pending_attempt (lg_events L) H r" using assms(1) by (simp add: attempt_ok_def)
  show "ev_sequence v = 1"
    using latest_event_pending [OF p refl] assms(2) by (auto simp: opening_event_def)
qed

lemma latest_state_Inr: "latest_state L a = Inr v \<Longrightarrow> latest_event L a = Some v"
  by (auto simp: latest_state_def split: option.splits)

lemma request_attempt_root_Inr:
  "request_attempt_root L a org = Inr r \<Longrightarrow> r \<in> set (lg_attempts L) \<and> at_id r = a \<and> at_org r = org"
  by (auto simp: request_attempt_root_def root_of_def find_Some_iff split: option.splits)

section \<open>The steps of the tables\<close>

type_synonym tables = "attempt_row list \<times> event_row list \<times> usage_row list \<times> hold_row list"

text \<open>A pending attempt is lost: the sweep and the operator's mark do nothing else to the four tables.\<close>

inductive lose_step :: "tables \<Rightarrow> tables \<Rightarrow> bool" where
  lose: "r \<in> set A \<Longrightarrow> pending_attempt E H r \<Longrightarrow> ev_attempt v = at_id r \<Longrightarrow> lost_event r v \<Longrightarrow>
    lose_step (A, E, U, H) (A, E @ [v], U, H)"

text \<open>Every change an operation makes: plain holds come and go, usage is recorded, attempts open, are lost, settle.\<close>

inductive table_step :: "tables \<Rightarrow> tables \<Rightarrow> bool" where
  plain_holds: "(\<And>a. filter (linked a) H' = filter (linked a) H) \<Longrightarrow>
    (set H \<subseteq> Collect nonnegative_hold \<Longrightarrow> set H' \<subseteq> Collect nonnegative_hold) \<Longrightarrow> table_step (A, E, U, H) (A, E, U, H')"
| refreshed: "refreshes f \<Longrightarrow> table_step (A, E, U, H) (A, E, U, map f H)"
| usage: "us_id u \<notin> us_id ` set U \<Longrightarrow> nonnegative_usage u \<Longrightarrow> table_step (A, E, U, H) (A, E, U @ [u], H)"
| open_attempt: "at_id r \<notin> at_id ` set A \<Longrightarrow> ev_attempt p = at_id r \<Longrightarrow> opening_event r p \<Longrightarrow>
    ho_attempt h = Some (at_id r) \<Longrightarrow> hold_of_root r h \<Longrightarrow> 0 \<le> at_tokens r \<Longrightarrow> 0 \<le> at_cost r \<Longrightarrow>
    table_step (A, E, U, H) (A @ [r], E @ [p], U, H @ [h])"
| lose_attempt: "lose_step T T' \<Longrightarrow> table_step T T'"
| settle: "r \<in> set A \<Longrightarrow> pending_attempt E H r \<Longrightarrow> us_id u \<notin> us_id ` set U \<Longrightarrow> nonnegative_usage u \<Longrightarrow>
    ev_attempt v = at_id r \<Longrightarrow> ev_usage v = Some (us_id u) \<Longrightarrow> closing_event (U @ [u]) r v \<Longrightarrow>
    (\<And>h. gone h \<Longrightarrow> ho_attempt h = Some (at_id r)) \<Longrightarrow> \<exists>h \<in> set H. gone h \<Longrightarrow>
    table_step (A, E, U, H) (A, E @ [v], U @ [u], filter (\<lambda>h. \<not> gone h) H)"

inductive_cases lose_stepE: "lose_step T T'"
inductive_cases table_stepE: "table_step T T'"

lemma lose_step_ok: "lose_step T T' \<Longrightarrow> tables_ok T \<Longrightarrow> tables_ok T'"
  by (erule lose_stepE) (simp add: tables_ok_lose(1))

lemma table_step_ok:
  assumes "table_step T T'" "tables_ok T"
  shows "tables_ok T'"
  using assms
proof (cases rule: table_step.cases)
  case (plain_holds H' H A E U)
  have "set H \<subseteq> Collect nonnegative_hold" using assms(2) plain_holds(1) by (auto simp: tables_ok_def)
  from plain_holds(4) [OF this] show ?thesis
    using tables_ok_holds [OF assms(2) [unfolded plain_holds(1)] plain_holds(3)] plain_holds(2) by auto
next
  case (refreshed f A E U H)
  with assms show ?thesis using tables_ok_refresh by simp
next
  case (usage u U A E H)
  with assms show ?thesis using tables_ok_usage by simp
next
  case (open_attempt r A p h E U H)
  with assms show ?thesis using tables_ok_open by simp
next
  case lose_attempt
  with assms show ?thesis using lose_step_ok by simp
next
  case (settle r A E H u U v gone)
  show ?thesis unfolding settle(2)
    by (rule tables_ok_settle(1) [OF assms(2) [unfolded settle(1)] settle(3-7) settle(9-11)])
qed

lemma lose_steps_ok: "lose_step\<^sup>*\<^sup>* T T' \<Longrightarrow> tables_ok T \<Longrightarrow> tables_ok T'"
  by (induction rule: rtranclp_induct) (auto intro: lose_step_ok)

lemma table_steps_ok: "table_step\<^sup>*\<^sup>* T T' \<Longrightarrow> tables_ok T \<Longrightarrow> tables_ok T'"
  by (induction rule: rtranclp_induct) (auto intro: table_step_ok)

lemma lose_steps_table: "lose_step\<^sup>*\<^sup>* T T' \<Longrightarrow> table_step\<^sup>*\<^sup>* T T'"
  by (induction rule: rtranclp_induct) (auto intro: lose_attempt rtranclp.rtrancl_into_rtrancl)

lemma lose_steps_same: "lose_step\<^sup>*\<^sup>* T T' \<Longrightarrow> \<exists>E'. T' = (fst T, E', snd (snd T))"
proof (induction rule: rtranclp_induct)
  case base
  show ?case by (rule exI [of _ "fst (snd T)"]) simp
next
  case (step S S')
  then show ?case by (auto elim: lose_stepE)
qed

section \<open>The operations as steps of the tables\<close>

lemma core_tables: "core L = (lg_attempts L, lg_events L, lg_usage L, lg_holds L)"
  by (simp add: core_def)

lemma inv_attempt_ok: "ledger_inv L \<Longrightarrow> r \<in> set (lg_attempts L) \<Longrightarrow> attempt_ok (lg_events L) (lg_usage L) (lg_holds L) r"
  by (simp add: ledger_inv_def core_tables tables_ok_attempts)

lemma append_unknown_event:
  assumes inv: "ledger_inv L" and r: "r \<in> set (lg_attempts L)" "at_id r = a" "at_org r = org"
    and latest: "latest_event L a = Some w" "ev_state w = ''pending''"
    and ap: "append_attempt_event e L a org now (ev_sequence w + 1) ''outcome_unknown'' reason None = Inr (M, i)"
  shows "lose_step (core L) (core M)"
proof -
  note ok = inv_attempt_ok [OF inv r(1)]
  note p = pending_by_state [OF ok latest(1) [folded r(2)] latest(2)]
  show ?thesis unfolding append_attempt_event_effect(1) [OF ap] core_tables [of L]
    by (rule lose_step.lose [OF r(1) p(1)]) (simp_all add: lost_event_def r p(2))
qed

lemma sweep_one_steps:
  assumes inv: "ledger_inv L" and s: "sweep_one e now (a, org) L = Inr M"
  shows "lose_step\<^sup>*\<^sup>* (core L) (core M)"
proof -
  from s obtain r w where r: "request_attempt_root L a org = Inr r" and w: "latest_state L a = Inr w"
    and rest: "(if ev_state w \<noteq> ''pending'' then Inr L
       else rbind (append_attempt_event e L a org now (ev_sequence w + 1) ''outcome_unknown'' (Some ''stale_pending'') None)
        (\<lambda>(L1, event_id). rbind (unknown_observation_of e r None ''stale_pending'') (\<lambda>ob.
           append_finance_evidence e L1 r event_id None ''outcome_unknown'' now (Some ob) None))) = Inr M"
    unfolding sweep_one_def prod.case by (elim rbind_InrE) blast
  show ?thesis
  proof (cases "ev_state w = ''pending''")
    case False
    with rest show ?thesis by simp
  next
    case True
    note rest1 = rest [unfolded True, simplified if_False not_True_eq_False refl]
    from rest1 obtain N i ob where n: "append_attempt_event e L a org now (ev_sequence w + 1) ''outcome_unknown''
        (Some ''stale_pending'') None = Inr (N, i)"
      and m: "append_finance_evidence e N r i None ''outcome_unknown'' now (Some ob) None = Inr M"
      by auto
    have "lose_step (core L) (core N)"
      using append_unknown_event [OF inv _ _ _ latest_state_Inr [OF w] True n] request_attempt_root_Inr [OF r] by blast
    then show ?thesis unfolding append_finance_evidence_core [OF m] by (rule r_into_rtranclp)
  qed
qed

lemma sweep_all_steps:
  "sweep_all e now xs L = Inr M \<Longrightarrow> ledger_inv L \<Longrightarrow> lose_step\<^sup>*\<^sup>* (core L) (core M)"
proof (induction xs arbitrary: L)
  case (Cons x xs)
  obtain a org where x: "x = (a, org)" by fastforce
  from Cons.prems obtain N where n: "sweep_one e now (a, org) L = Inr N" and m: "sweep_all e now xs N = Inr M"
    unfolding x sweep_all.simps by (elim rbind_InrE) blast
  note s = sweep_one_steps [OF Cons.prems(2) n]
  have "ledger_inv N" using lose_steps_ok [OF s] Cons.prems(2) by (simp add: ledger_inv_def)
  from rtranclp_trans [OF s Cons.IH [OF m this]] show ?case .
qed simp

lemma sweep_steps:
  "sweep_stale_request_attempts e now org L = Inr M \<Longrightarrow> ledger_inv L \<Longrightarrow> lose_step\<^sup>*\<^sup>* (core L) (core M)"
  by (simp add: sweep_stale_request_attempts_def sweep_all_steps)

text \<open>A new attempt: stale attempts are lost, then the attempt is admitted against the holds that remain.\<close>

definition root_of_request :: "attempt_request \<Rightarrow> attempt_row \<Rightarrow> bool" where
  "root_of_request q r = (at_org r = id_organization (ar_identity q) \<and> at_actor r = id_actor (ar_identity q) \<and>
     at_team r = id_team (ar_identity q) \<and> at_tokens r = max 0 (ar_reserved_tokens q) \<and>
     at_cost r = max 0 (ar_reserved_cost_microusd q))"

definition admitted :: "ledger \<Rightarrow> utc_time \<Rightarrow> attempt_request \<Rightarrow> attempt_row \<Rightarrow> ledger \<Rightarrow> ledger \<Rightarrow> bool" where
  "admitted L now q r K M = (\<exists>E p x.
     lose_step\<^sup>*\<^sup>* (core L) (lg_attempts L, E, lg_usage L, lg_holds L) \<and> root_of_request q r \<and>
     at_id r \<notin> at_id ` set (lg_attempts L) \<and> ev_attempt p = at_id r \<and> opening_event r p \<and>
     core K = (lg_attempts L @ [r], E @ [p], lg_usage L, lg_holds (drop_expired (isoformat now) L)) \<and>
     check_scopes K (at_org r) (isoformat (month_start now)) (isoformat now) (at_tokens r) (at_cost r)
       (filter constrained (ar_scopes q)) = Inr () \<and>
     core M = (lg_attempts L @ [r], E @ [p], lg_usage L, lg_holds (drop_expired (isoformat now) L) @
       [new_hold (ar_identity q) (at_tokens r) (at_cost r) (at_id r) (Some (at_id r)) (isoformat now) x]))"

lemma build_root_fields:
  "build_request_attempt_root a now q rc = Inr r \<Longrightarrow> root_of_request q r \<and> at_id r = a"
  by (auto simp: build_request_attempt_root_def root_of_request_def Let_def split: if_splits)

lemma begin_transaction_admits:
  assumes inv: "ledger_inv L" and b: "begin_transaction e L now q opts = Inr (M, b)"
  shows "\<exists>r K. admitted L now q r K M \<and> bg_attempt b = at_id r"
proof -
  let ?i = "ar_identity q" let ?org = "id_organization ?i"
  obtain a L1 where f1: "fresh e L = (a, L1)" by fastforce
  obtain r L2 L3 L4 pid L5 L6 L8 L9 bt bt'
    where r: "build_request_attempt_root a now q (bo_card opts) = Inr r"
    and l2: "sweep_stale_request_attempts e now (Some ?org) L1 = Inr L2"
    and l3: "insert_attempt L2 r = Inr L3"
    and l4: "append_attempt_event e L3 a ?org now 1 ''pending'' None None = Inr (L4, pid)"
    and l5: "append_account_binding e L4 r (bo_account opts) = Inr L5"
    and l6: "(case bo_failover opts of None \<Rightarrow> Inr L5
             | Some c \<Rightarrow> append_provider_failover e L5 ?org a (at_protocol r) (at_model r)
                 (at_policy_version r) c now) = Inr L6"
    and l8: "L8 = snd (fresh e (snd (fresh e L6)))"
    and l9: "reserve_budget_in (L8\<lparr>lg_budgets := bt\<rparr>) ?i (ar_scopes q) (at_tokens r) (at_cost r)
               (ar_ttl_seconds q) a (Some a) now = Inr L9"
    and m: "M = L9\<lparr>lg_budgets := bt'\<rparr>" "bg_attempt b = a"
    using b unfolding begin_transaction_def f1 Let_def prod.case by (elim rbind_InrE) (auto simp: case_prod_unfold)
  let ?now = "isoformat now"
  note root = build_root_fields [OF r]
  have c1: "core L1 = core L" by (rule fresh_core [OF f1])
  note s = sweep_steps [OF l2 inv [folded ledger_inv_core [OF c1]], unfolded c1]
  obtain E where c2: "core L2 = (lg_attempts L, E, lg_usage L, lg_holds L)"
    using lose_steps_same [OF s] by (auto simp: core_tables [of L])
  then have t2: "lg_attempts L2 = lg_attempts L" "lg_events L2 = E" "lg_usage L2 = lg_usage L" "lg_holds L2 = lg_holds L"
    by (simp_all add: core_tables)
  note c3 = insert_attempt_effect [OF l3]
  have t3: "lg_attempts L3 = lg_attempts L @ [r]" "lg_events L3 = E" "lg_usage L3 = lg_usage L" "lg_holds L3 = lg_holds L"
    using c3 t2 by (simp_all add: core_tables)
  define p where "p = \<lparr>ev_id = pid, ev_attempt = a, ev_org = ?org, ev_occurred = ?now, ev_sequence = 1,
      ev_state = ''pending'', ev_reason = None, ev_usage = None\<rparr>"
  note c4 = append_attempt_event_effect(1) [OF l4, folded p_def, unfolded t3]
  have c6: "core L6 = core L5"
    using l6 append_provider_failover_core by (auto split: option.splits)
  obtain x L7 where f7: "fresh e L6 = (x, L7)" by fastforce
  obtain y L8' where f8: "fresh e L7 = (y, L8')" by fastforce
  have l8': "L8 = L8'" using l8 f7 f8 by simp
  let ?K = "L8\<lparr>lg_budgets := bt\<rparr>"
  have "core ?K = core L8" by simp
  also have "\<dots> = core L6" unfolding l8' using fresh_core [OF f8] fresh_core [OF f7] by (simp only:)
  also have "\<dots> = (lg_attempts L @ [r], E @ [p], lg_usage L, lg_holds L)"
    unfolding c6 append_account_binding_core [OF l5] by (rule c4)
  finally have k: "core ?K = (lg_attempts L @ [r], E @ [p], lg_usage L, lg_holds L)" .
  then have tk: "lg_attempts ?K = lg_attempts L @ [r]" "lg_events ?K = E @ [p]" "lg_usage ?K = lg_usage L"
    "lg_holds ?K = lg_holds L" by (simp_all add: core_tables)
  let ?D = "drop_expired ?now ?K"
  have d: "lg_holds ?D = lg_holds (drop_expired ?now L)" using tk by (simp add: drop_expired_def)
  have cd: "core ?D = (lg_attempts L @ [r], E @ [p], lg_usage L, lg_holds (drop_expired ?now L))"
    using tk d by (simp add: core_tables)
  obtain expires where l: "L9 = ?D\<lparr>lg_holds := lg_holds ?D @
       [new_hold ?i (at_tokens r) (at_cost r) a (Some a) ?now expires]\<rparr>"
    using reserve_budget_in_effect(1) [OF l9] by blast
  have cm: "core M = (lg_attempts L @ [r], E @ [p], lg_usage L, lg_holds (drop_expired ?now L) @
       [new_hold ?i (at_tokens r) (at_cost r) a (Some a) ?now expires])"
    using tk d unfolding m(1) l by (simp add: core_tables)
  have opens: "ev_attempt p = at_id r" "opening_event r p"
    using root by (simp_all add: p_def opening_event_def root_of_request_def)
  have "check_scopes ?D (at_org r) (isoformat (month_start now)) ?now (at_tokens r) (at_cost r)
       (filter constrained (ar_scopes q)) = Inr ()"
    using reserve_budget_in_effect(2) [OF l9] root by (simp add: root_of_request_def)
  then have "admitted L now q r ?D M"
    unfolding admitted_def using s c2 root c3 t2 opens cd cm by (intro exI [of _ E] exI [of _ p] exI [of _ expires]) simp
  then show ?thesis using m(2) root by (intro exI [of _ r] exI [of _ ?D]) simp
qed

text \<open>A settlement: the usage row, the terminal event that names it, and the deletion of the hold.\<close>

definition settles :: "ledger \<Rightarrow> attempt_row \<Rightarrow> usage_row \<Rightarrow> ledger \<Rightarrow> bool" where
  "settles L r u M = (r \<in> set (lg_attempts L) \<and> pending_attempt (lg_events L) (lg_holds L) r \<and>
     us_id u \<notin> us_id ` set (lg_usage L) \<and> nonnegative_usage u \<and>
     us_org u = at_org r \<and> us_actor u = at_actor r \<and> us_team u = at_team r \<and>
     (\<exists>v gone. ev_attempt v = at_id r \<and> ev_usage v = Some (us_id u) \<and> closing_event (lg_usage L @ [u]) r v \<and>
        (\<forall>h. gone h \<longrightarrow> ho_attempt h = Some (at_id r)) \<and> (\<exists>h \<in> set (lg_holds L). gone h) \<and>
        core M = (lg_attempts L, lg_events L @ [v], lg_usage L @ [u], filter (\<lambda>h. \<not> gone h) (lg_holds L))))"

lemma clamped_fields [simp]:
  "us_id (clamped u) = us_id u" "us_org (clamped u) = us_org u" "us_actor (clamped u) = us_actor u"
  "us_team (clamped u) = us_team u" "us_status (clamped u) = us_status u" "us_cost (clamped u) = max 0 (us_cost u)"
  "us_input (clamped u) = max 0 (us_input u)" "us_output (clamped u) = max 0 (us_output u)"
  "us_occurred (clamped u) = us_occurred u" "nonnegative_usage (clamped u)"
  by (simp_all add: clamped_def nonnegative_usage_def)

lemma settled_usage_fields [simp]:
  "us_org (settled_usage r x now) = at_org r" "us_actor (settled_usage r x now) = at_actor r"
  "us_team (settled_usage r x now) = at_team r" "us_status (settled_usage r x now) = se_status x"
  "us_input (settled_usage r x now) = se_input x" "us_output (settled_usage r x now) = se_output x"
  "us_cost (settled_usage r x now) = se_cost x" "us_occurred (settled_usage r x now) = isoformat now"
  by (simp_all add: settled_usage_def)

lemma finalize_settles:
  assumes inv: "ledger_inv L"
    and f: "finalize_request_attempt e L now metrics_at attempt reservation organization x = Inr M"
  shows "\<exists>r i. at_id r = attempt \<and> at_org r = organization \<and>
    settles L r (clamped ((settled_usage r x now)\<lparr>us_id := i\<rparr>)) M"
proof -
  obtain t r w p L1 i L2 j L3 L4 where t: "require_terminal (se_status x) = Inr t"
    and r: "request_attempt_root L attempt organization = Inr r" and w: "latest_state L attempt = Inr w"
    and p: "require_pending (ev_state w) = Inr p" and l1: "record_usage e L (settled_usage r x now) = Inr (L1, i)"
    and l2: "append_attempt_event e L1 attempt organization now (ev_sequence w + 1) (se_status x) None (Some i) = Inr (L2, j)"
    and l3: "append_finance_evidence e L2 r j (Some i) (se_status x) now (se_observation x) (se_estimate x) = Inr L3"
    and l4: "optional_metrics e L3 attempt organization metrics_at (se_metrics x) = Inr L4"
    and m: "delete_hold L4 reservation attempt organization = Inr M"
    using f unfolding finalize_request_attempt_def by (elim rbind_InrE) (auto simp: case_prod_unfold)
  note root = request_attempt_root_Inr [OF r]
  then have ra: "r \<in> set (lg_attempts L)" and rid: "at_id r = attempt" and rorg: "at_org r = organization" by simp_all
  have terminal: "se_status x \<in> set terminal_states" using t by (auto simp: require_terminal_def split: if_splits)
  have pend: "ev_state w = ''pending''" using p by (auto simp: require_pending_def split: if_splits)
  note w' = latest_state_Inr [OF w, folded rid]
  note pe = pending_by_state [OF inv_attempt_ok [OF inv ra] w' pend]
  let ?u = "clamped ((settled_usage r x now)\<lparr>us_id := i\<rparr>)"
  note c1 = record_usage_effect(1) [OF l1]
  then have t1: "lg_attempts L1 = lg_attempts L" "lg_events L1 = lg_events L" "lg_usage L1 = lg_usage L @ [?u]"
    "lg_holds L1 = lg_holds L" by (simp_all add: core_tables)
  define v where "v = \<lparr>ev_id = j, ev_attempt = attempt, ev_org = organization, ev_occurred = isoformat now,
    ev_sequence = ev_sequence w + 1, ev_state = se_status x, ev_reason = None, ev_usage = Some i\<rparr>"
  note c2 = append_attempt_event_effect(1) [OF l2, folded v_def, unfolded t1]
  have c4: "core L4 = (lg_attempts L, lg_events L @ [v], lg_usage L @ [?u], lg_holds L)"
    unfolding optional_metrics_core [OF l4] append_finance_evidence_core [OF l3] by (rule c2)
  then have t4: "lg_attempts L4 = lg_attempts L" "lg_events L4 = lg_events L @ [v]" "lg_usage L4 = lg_usage L @ [?u]"
    "lg_holds L4 = lg_holds L" by (simp_all add: core_tables)
  let ?gone = "\<lambda>h. ho_id h = reservation \<and> ho_attempt h = Some attempt \<and> ho_org h = organization"
  have v: "ev_attempt v = at_id r" "ev_usage v = Some (us_id ?u)" "closing_event (lg_usage L @ [?u]) r v"
    using terminal pe(2) rid rorg by (auto simp: v_def closing_event_def)
  have "settles L r ?u M"
    unfolding settles_def using ra pe(1) record_usage_effect(2) [OF l1] v rid delete_hold_effect(2) [OF m, unfolded t4]
      delete_hold_effect(1) [OF m, unfolded t4]
    by (intro conjI exI [of _ v] exI [of _ ?gone]) simp_all
  then show ?thesis using rid rorg by blast
qed

lemma settles_step: "settles L r u M \<Longrightarrow> table_step (core L) (core M)"
  unfolding settles_def core_tables [of L] by (elim conjE exE) (simp only:, rule table_step.settle, simp_all)

lemma admitted_holds:
  "filter (linked a) (lg_holds (drop_expired now L)) = filter (linked a) (lg_holds L)"
  by (auto simp: drop_expired_def linked_def intro: filter_cong)

lemma dropped_nonnegative:
  "set (lg_holds L) \<subseteq> Collect nonnegative_hold \<Longrightarrow> set (lg_holds (drop_expired now L)) \<subseteq> Collect nonnegative_hold"
  by (auto simp: drop_expired_def)

lemma admitted_steps:
  assumes "admitted L now q r K M"
  shows "table_step\<^sup>*\<^sup>* (core L) (core M)"
proof -
  obtain E p x where s: "lose_step\<^sup>*\<^sup>* (core L) (lg_attempts L, E, lg_usage L, lg_holds L)" and q: "root_of_request q r"
    and p: "at_id r \<notin> at_id ` set (lg_attempts L)" "ev_attempt p = at_id r" "opening_event r p"
    and m: "core M = (lg_attempts L @ [r], E @ [p], lg_usage L, lg_holds (drop_expired (isoformat now) L) @
       [new_hold (ar_identity q) (at_tokens r) (at_cost r) (at_id r) (Some (at_id r)) (isoformat now) x])"
    using assms unfolding admitted_def by blast
  let ?H = "lg_holds (drop_expired (isoformat now) L)"
  let ?h = "new_hold (ar_identity q) (at_tokens r) (at_cost r) (at_id r) (Some (at_id r)) (isoformat now) x"
  note lose_steps_table [OF s]
  also have "table_step (lg_attempts L, E, lg_usage L, lg_holds L) (lg_attempts L, E, lg_usage L, ?H)"
    by (rule table_step.plain_holds) (simp_all add: admitted_holds dropped_nonnegative)
  also have "table_step (lg_attempts L, E, lg_usage L, ?H) (core M)"
    unfolding m using q by (intro table_step.open_attempt p) (auto simp: new_hold_def hold_of_root_def root_of_request_def)
  finally show ?thesis .
qed

lemma begin_steps:
  assumes inv: "ledger_inv L" and b: "begin_attempt_in_store e L now q opts = (M, res)"
  shows "table_step\<^sup>*\<^sup>* (core L) (core M)"
proof (cases "begin_transaction e L now q opts")
  case (Inr z)
  obtain N b' where z: "z = (N, b')" by fastforce
  with b Inr have "N = M" by (simp add: begin_attempt_in_store_def)
  then show ?thesis using begin_transaction_admits [OF inv Inr [unfolded z]] admitted_steps by blast
next
  case (Inl err)
  have "core M = core L"
    using b Inl by (cases err) (auto simp: begin_attempt_in_store_def split: sum.splits)
  then show ?thesis by (simp only: rtranclp.rtrancl_refl)
qed

lemma mark_unknown_steps:
  assumes inv: "ledger_inv L"
    and m: "mark_request_attempt_outcome_unknown e L now metrics_at attempt organization reason mt ob = Inr (M, changed)"
  shows "lose_step\<^sup>*\<^sup>* (core L) (core M)"
proof -
  from m obtain r w mk where r: "request_attempt_root L attempt organization = Inr r" and w: "latest_state L attempt = Inr w"
    and mk: "should_mark_unknown (ev_state w) = Inr mk"
    and rest: "(if \<not> mk then Inr (L, False)
     else rbind (append_attempt_event e L attempt organization now (ev_sequence w + 1) ''outcome_unknown''
                   (Some reason) None) (\<lambda>(L1, event_id).
       rbind (unknown_observation_of e r ob reason) (\<lambda>ob.
       rbind (append_finance_evidence e L1 r event_id None ''outcome_unknown'' now (Some ob) None) (\<lambda>L2.
       rbind (optional_metrics e L2 attempt organization metrics_at mt) (\<lambda>L3. Inr (L3, True)))))) = Inr (M, changed)"
    unfolding mark_request_attempt_outcome_unknown_def by (elim rbind_InrE) blast
  show ?thesis
  proof (cases mk)
    case False
    with rest show ?thesis by simp
  next
    case True
    have pend: "ev_state w = ''pending''"
      using mk True by (auto simp: should_mark_unknown_def require_pending_def split: if_splits)
    obtain N i ob' N' where n: "append_attempt_event e L attempt organization now (ev_sequence w + 1) ''outcome_unknown''
        (Some reason) None = Inr (N, i)"
      and n': "append_finance_evidence e N r i None ''outcome_unknown'' now (Some ob') None = Inr N'"
      and om: "optional_metrics e N' attempt organization metrics_at mt = Inr M"
      using rest True by (auto simp: case_prod_unfold)
    have "lose_step (core L) (core N)"
      using append_unknown_event [OF inv _ _ _ latest_state_Inr [OF w] pend n] request_attempt_root_Inr [OF r] by blast
    then show ?thesis unfolding optional_metrics_core [OF om] append_finance_evidence_core [OF n'] by (rule r_into_rtranclp)
  qed
qed

text \<open>The remaining operations.\<close>

lemma record_usage_step: "record_usage e L u = Inr (M, i) \<Longrightarrow> table_step (core L) (core M)"
  using record_usage_effect [of e L u M i] unfolding core_tables [of L] by (auto intro: table_step.usage)

lemma chain_step_core: "core N = core L \<Longrightarrow> chain_append e N org ev source = Inr M \<Longrightarrow> core M = core L"
  by (simp only: chain_append_core)

lemma record_secret_event_core:
  assumes "record_secret_event e L now i client protocol model pv action d rules = Inr (M, j)"
  shows "core M = core L"
proof -
  obtain k N where f: "fresh e L = (k, N)" by fastforce
  have "\<exists>row ev. chain_append e (N\<lparr>lg_secrets := lg_secrets N @ [row]\<rparr>) (id_organization i) ev None = Inr M"
    using assms unfolding record_secret_event_def f Let_def prod.case
    by (auto split: if_splits simp del: core_eq) (auto split: sum.splits)
  then obtain row ev where "chain_append e (N\<lparr>lg_secrets := lg_secrets N @ [row]\<rparr>) (id_organization i) ev None = Inr M"
    by blast
  from chain_append_core [OF this] fresh_core [OF f] show ?thesis by simp
qed

lemma reserve_budget_steps:
  assumes inv: "ledger_inv L" and r: "reserve_budget e L now i scopes tokens cost ttl = Inr (M, res)"
  shows "table_step\<^sup>*\<^sup>* (core L) (core M)"
proof (cases "filter constrained scopes = []")
  case True
  with r show ?thesis by (simp add: reserve_budget_def)
next
  case False
  obtain k N where f: "fresh e L = (k, N)" by fastforce
  have c1: "core N = core L" by (rule fresh_core [OF f])
  obtain L2 where l2: "sweep_stale_request_attempts e now (Some (id_organization i)) N = Inr L2"
    and l3: "reserve_budget_in L2 i (filter constrained scopes) tokens cost ttl k None now = Inr M"
    using r False unfolding reserve_budget_def f by (auto simp: Let_def)
  note s = sweep_steps [OF l2 inv [folded ledger_inv_core [OF c1]], unfolded c1]
  obtain x where m: "M = (drop_expired (isoformat now) L2)\<lparr>lg_holds := lg_holds (drop_expired (isoformat now) L2) @
       [new_hold i tokens cost k None (isoformat now) x]\<rparr>"
    using reserve_budget_in_effect(1) [OF l3] by blast
  have "table_step (core L2) (core M)"
    unfolding m core_tables
    by simp (rule table_step.plain_holds, simp_all add: admitted_holds dropped_nonnegative)
  with lose_steps_table [OF s] show ?thesis by simp
qed

lemma release_step: "table_step (core L) (core (release_budget_reservation L reservation organization))"
proof (cases reservation)
  case None
  then show ?thesis by (simp add: release_budget_reservation_def core_tables table_step.plain_holds)
next
  case (Some i)
  have "filter (linked a) (lg_holds (release_budget_reservation L reservation organization)) = filter (linked a) (lg_holds L)"
    for a unfolding release_budget_reservation_def Some by (auto simp: linked_def intro: filter_cong)
  moreover have "set (lg_holds (release_budget_reservation L reservation organization)) \<subseteq> set (lg_holds L)"
    by (auto simp: release_budget_reservation_def Some)
  moreover have "core (release_budget_reservation L reservation organization) = (lg_attempts L, lg_events L, lg_usage L,
      lg_holds (release_budget_reservation L reservation organization))"
    by (simp add: release_budget_reservation_def Some core_def)
  ultimately show ?thesis unfolding core_tables [of L] by (auto intro!: table_step.plain_holds)
qed

lemma hold_self: "\<exists>x. h = h\<lparr>ho_expires := x\<rparr>"
  by (rule exI [of _ "ho_expires h"]) simp

lemma refresh_step:
  assumes "refresh_budget_reservation L now reservation ttl organization = Inr M"
  shows "table_step (core L) (core M)"
proof (cases reservation)
  case None
  with assms show ?thesis by (simp add: refresh_budget_reservation_def core_tables table_step.plain_holds)
next
  case (Some i)
  then obtain x where m: "M = L\<lparr>lg_holds := map (\<lambda>h. if ho_id h = i \<and> in_organization organization (ho_org h)
              then h\<lparr>ho_expires := x\<rparr> else h) (lg_holds L)\<rparr>"
    using assms by (auto simp: refresh_budget_reservation_def)
  show ?thesis unfolding m core_tables
    by simp (rule table_step.refreshed, auto simp: refreshes_def hold_self)
qed

section \<open>The ledger as a state machine\<close>

definition empty_ledger :: "ledger \<Rightarrow> bool" where
  "empty_ledger L = (core L = ([], [], [], []))"

text \<open>One committed or refused transaction of the store, and the writes of other modules to their own tables.\<close>

inductive ledger_step :: "environment \<Rightarrow> ledger \<Rightarrow> ledger \<Rightarrow> bool" for e where
  begins: "begin_attempt_in_store e L now q opts = (M, res) \<Longrightarrow> ledger_step e L M"
| finalizes: "finalize_request_attempt e L now metrics_at attempt reservation organization x = Inr M \<Longrightarrow> ledger_step e L M"
| marks_unknown: "mark_request_attempt_outcome_unknown e L now metrics_at attempt organization reason mt ob = Inr (M, changed)
    \<Longrightarrow> ledger_step e L M"
| sweeps: "sweep_stale_request_attempts e now organization_filter L = Inr M \<Longrightarrow> ledger_step e L M"
| records: "record_usage e L u = Inr (M, i) \<Longrightarrow> ledger_step e L M"
| records_secret: "record_secret_event e L now i client protocol model pv action d rules = Inr (M, j) \<Longrightarrow> ledger_step e L M"
| reserves: "reserve_budget e L now i scopes tokens cost ttl = Inr (M, res) \<Longrightarrow> ledger_step e L M"
| releases: "ledger_step e L (release_budget_reservation L reservation organization)"
| refreshed: "refresh_budget_reservation L now reservation ttl organization = Inr M \<Longrightarrow> ledger_step e L M"
| administers: "ledger_step e L (L\<lparr>lg_accounts := accounts, lg_budgets := budgets, lg_chains := audit, lg_uuids := n\<rparr>)"

inductive ledger_reachable :: "environment \<Rightarrow> ledger \<Rightarrow> bool" for e where
  start: "empty_ledger L \<Longrightarrow> ledger_reachable e L"
| step: "ledger_reachable e L \<Longrightarrow> ledger_step e L M \<Longrightarrow> ledger_reachable e M"

inductive_cases ledger_stepE: "ledger_step e L M"

lemma ledger_step_tables:
  assumes "ledger_step e L M" "ledger_inv L"
  shows "table_step\<^sup>*\<^sup>* (core L) (core M)"
  using assms(1)
proof cases
  case begins
  then show ?thesis by (rule begin_steps [OF assms(2)])
next
  case finalizes
  then show ?thesis using finalize_settles [OF assms(2)] settles_step by blast
next
  case marks_unknown
  then show ?thesis by (rule lose_steps_table [OF mark_unknown_steps [OF assms(2)]])
next
  case sweeps
  then show ?thesis by (rule lose_steps_table [OF sweep_steps [OF _ assms(2)]])
next
  case records
  then show ?thesis using record_usage_step by blast
next
  case records_secret
  from record_secret_event_core [OF this] show ?thesis by (simp only: rtranclp.rtrancl_refl)
next
  case reserves
  then show ?thesis by (rule reserve_budget_steps [OF assms(2)])
next
  case releases
  then show ?thesis using release_step by blast
next
  case refreshed
  then show ?thesis using refresh_step by blast
next
  case administers
  then have "core M = core L" by simp
  then show ?thesis by (simp only: rtranclp.rtrancl_refl)
qed

lemma reachable_inv: "ledger_reachable e L \<Longrightarrow> ledger_inv L"
proof (induction rule: ledger_reachable.induct)
  case (start L)
  then show ?case by (auto simp: empty_ledger_def ledger_inv_def tables_ok_def)
next
  case (step L M)
  then show ?case using table_steps_ok [OF ledger_step_tables] by (simp add: ledger_inv_def)
qed

lemma open_attempt_open:
  assumes "attempt_ok (lg_events L) U H r" "filter (linked (at_id r)) H \<noteq> []"
  shows "attempt_open L (at_id r)"
proof -
  have "\<not> settled_attempt (lg_events L) U H r"
    using assms(2) by (auto simp: settled_attempt_def unheld_def)
  then show ?thesis
    using assms(1) latest_event_pending [of "lg_events L" H r L] latest_event_lost [of "lg_events L" H r L]
    by (auto simp: attempt_ok_def attempt_open_def open_states_def opening_event_def lost_event_def)
qed

lemma linked_hold_open:
  assumes "ledger_inv L" "h \<in> set (lg_holds L)" "ho_attempt h = Some a"
  shows "attempt_open L a"
proof -
  obtain r where r: "r \<in> set (lg_attempts L)" "at_id r = a"
    using assms by (force simp: ledger_inv_def tables_ok_def core_def)
  have "h \<in> set (filter (linked (at_id r)) (lg_holds L))" using assms(2,3) r(2) by (simp add: linked_def)
  then have "filter (linked (at_id r)) (lg_holds L) \<noteq> []" by (metis empty_iff empty_set)
  then show ?thesis using open_attempt_open [OF inv_attempt_ok [OF assms(1) r(1)]] r(2) by simp
qed

end
