(* ===== verification/Attempt_Example.thy ===== *)
theory Attempt_Example
  imports Attempt_Ledger
begin

text \<open>
  One attempt on an empty ledger, evaluated: the concrete run the witnesses of the ledger's properties use.
\<close>

definition example_uuid :: "nat \<Rightarrow> string" where
  "example_uuid n = ''00000000-0000-4000-8000-0000000000'' @ [char_of (48 + n div 10), char_of (48 + n mod 10)]"

definition example_env :: environment where
  "example_env = \<lparr>en_sha = example_sha, en_external = finance_account_source_identity example_sha, en_uuid = example_uuid\<rparr>"

definition ledger_identity :: identity where
  "ledger_identity = \<lparr>id_token_env = [], id_token = [], id_actor = ''ann'', id_actor_name = ''Ann'', id_team = ''core'',
     id_team_name = ''Core'', id_allowed_clients = [''codex''], id_organization = ''org'', id_clearance = ''public'',
     id_identity_type = ''human'', id_authentication_source = ''static_token'', id_token_file = None\<rparr>"

definition example_scopes :: "reservation_scope list" where
  "example_scopes = [\<lparr>rs_name = ''actor'', rs_actor_id = Some ''ann'', rs_team_id = None, rs_token_limit = Some 1000,
     rs_cost_limit_microusd = Some 5000\<rparr>]"

definition example_request :: attempt_request where
  "example_request = \<lparr>ar_repository = Usage_Store, ar_identity = ledger_identity, ar_client = ''codex'', ar_protocol = ''openai'',
     ar_policy_action = ''allowed'', ar_redaction_count = 0, ar_redaction_rules = [], ar_requested_model = ''m'',
     ar_resolved_alias = Some ''m'', ar_upstream_model = Some ''up'', ar_policy_version = ''v1'', ar_scopes = example_scopes,
     ar_reserved_tokens = 300, ar_reserved_cost_microusd = 700, ar_ttl_seconds = 60\<rparr>"

definition example_options :: begin_options where
  "example_options = \<lparr>bo_work = None, bo_failover = None,
     bo_card = \<lparr>rc_id = ''card'', rc_version = 1, rc_digest = example_sha [], rc_currency = ''USD''\<rparr>,
     bo_account = Unavailable_Finance ''not_configured''\<rparr>"

definition example_now :: utc_time where
  "example_now = \<lparr>ut_year = 2026, ut_month = 3, ut_day = 4, ut_hour = 5, ut_minute = 6, ut_second = 7, ut_micro = 0\<rparr>"

definition start_ledger :: ledger where
  "start_ledger = \<lparr>lg_attempts = [], lg_events = [], lg_usage = [], lg_secrets = [], lg_holds = [], lg_evidence = [],
     lg_bindings = [], lg_failovers = [], lg_metrics = [], lg_translated_metrics = [],
     lg_accounts = \<lparr>ac_registrations = [], ac_sources = []\<rparr>,
     lg_budgets = \<lparr>bt_plans = [], bt_activations = [], bt_pointers = [], bt_scopes = [], bt_attribution_audit = [],
       bt_attributions = [], bt_bindings = [], bt_audit = []\<rparr>,
     lg_chains = (\<lambda>_. empty_store), lg_uuids = 0\<rparr>"



lemma commit_first:
  assumes plain: "plain (JDict ev)" and c: "canon (JDict ev) = JDict n"
    and org: "dget ev ''organization_id'' = JStr org" "org \<noteq> []" and id: "cs_event_id s \<noteq> []" and ver: "int_ok (cs_version s)"
    and ident: "source_identity uuid_text example_sha external (cs_schema s) (cs_version s) (cs_event_id s) n = Some (cs_event_id s)"
    and valid: "validate_audit_chain_entry example_sha external (entry_v2 1 1 1 None example_digest s n)"
  shows "\<exists>st. commit_event example_sha external ev (Some s) empty_store = Inr st"
proof -
  obtain n' where n': "reread ev = Some n'" "canon (JDict ev) = JDict n'" "plain (JDict n')" "canon (JDict n') = JDict n'"
    using reread_plain [OF plain] by metis
  have n: "n' = n" using n'(2) c by simp
  have dn: "dget n ''organization_id'' = JStr org" using canon_dget [OF c plain_dictD [OF plain]] org by simp
  have norm: "normalized_v2_source_event example_sha external s ev = Inr n"
    unfolding normalized_v2_source_event_def n'(1) n using ident dn org by (simp add: organization_known_def)
  have one: "int_ok 1" by code_simp
  have "finite_tree (hashed_v2 org 1 1 1 None s n)"
    using plain_finite [OF n'(3)] unfolding n by (simp add: hashed_v2_def position_members_def source_members_def Finance_Attempts.opt_str_def one ver)
  then have dig: "entry_digest_v2 example_sha org 1 1 1 None s n = Inr example_digest"
    by (simp add: entry_digest_v2_def digest_of_def canonical_json_bytes_def canonical_json_text_def example_sha_def)
  have on: "organization_of n = org" using dn by (simp add: organization_of_def)
  have b: "build_audit_chain_entry example_sha external ev 1 1 1 None 2 (Some s) =
      Inr (entry_v2 1 1 1 None example_digest s n)"
    by (simp add: build_audit_chain_entry_def validate_chain_position_def validate_digest_def norm on dig
        validate_entry_def valid)
  have m: "value_mapping (entry_v2 1 1 1 None example_digest s n) ''event'' = Some n"
    "value_string (entry_v2 1 1 1 None example_digest s n) ''event_digest'' = Some example_digest"
    by (simp_all add: value_mapping_def value_string_def entry_v2_def position_members_def source_members_def example_sha_def)
  have t: "canonical_json_text ''audit_chain_malformed'' (JDict n) = Inr (dump False (canon (JDict n)))"
    using plain_finite [OF n'(3)] unfolding n by (simp only: canonical_json_text_def if_True)
  have vo: "value_string ev ''organization_id'' = Some org" using org by (simp add: value_string_def)
  show ?thesis
    by (simp add: commit_event_def append_audit_chain_entry_def source_of_event_def vo id with_head_def empty_store_def Let_def
        b m t del: canon.simps finite_tree.simps dump.simps)
qed


definition example_event :: jdict where
  "example_event = [(''schema_id'', JStr ''hormuz.finance-attempt-account-binding''), (''schema_version'', JInt 1),
     (''organization_id'', JStr ''org''), (''request_attempt_id'', JStr (example_uuid 0)),
     (''event_id'', JStr (example_uuid 2)), (''captured_at'', JStr ''2026-03-04T05:06:07+00:00''),
     (''state'', JStr ''unbound''), (''reason_code'', JStr ''not_configured'')] @
     map (\<lambda>f. (f, JNull)) binding_coordinates"

definition example_root :: attempt_row where
  "example_root = \<lparr>at_id = example_uuid 0, at_created = ''2026-03-04T05:06:07+00:00'', at_org = ''org'',
     at_actor = ''ann'', at_actor_name = ''Ann'', at_team = ''core'', at_team_name = ''Core'', at_identity_type = ''human'',
     at_auth_source = ''static_token'', at_client = ''codex'', at_protocol = ''openai'', at_model = ''m'',
     at_alias = Some ''m'', at_upstream = Some ''up'', at_policy_version = ''v1'', at_policy_action = ''allowed'',
     at_redactions = 0, at_rules = [], at_tokens = 300, at_cost = 700, at_card = Some (bo_card example_options)\<rparr>"

definition example_opening :: event_row where
  "example_opening = \<lparr>ev_id = example_uuid 1, ev_attempt = example_uuid 0, ev_org = ''org'',
     ev_occurred = ''2026-03-04T05:06:07+00:00'', ev_sequence = 1, ev_state = ''pending'', ev_reason = None, ev_usage = None\<rparr>"

lemma example_iso: "isoformat example_now = ''2026-03-04T05:06:07+00:00''"
  by code_simp

lemma example_root_built:
  "build_request_attempt_root (example_uuid 0) example_now example_request (bo_card example_options) = Inr example_root"
  by code_simp

lemma example_root_inserts:
  "is_ok (organization_text (JStr (at_org example_root)))"
  "is_ok (rate_card_binding_of (JStr ''card'') (JInt 1) (JStr example_digest) (JStr ''USD''))"
  by code_simp+

lemma example_event_valid: "validate_request_attempt_event (event_dict example_opening)"
  by code_simp

lemma example_binding_built: "\<exists>row. attempt_binding_row example_sha (finance_account_source_identity example_sha)
    \<lparr>ac_registrations = [], ac_sources = []\<rparr> (example_uuid 2) ''org'' (example_uuid 0) ''2026-03-04T05:06:07+00:00''
    (Unavailable_Finance ''not_configured'') = Inr (example_event, row)"
proof -
  have "map_sum id fst (attempt_binding_row example_sha (finance_account_source_identity example_sha)
    \<lparr>ac_registrations = [], ac_sources = []\<rparr> (example_uuid 2) ''org'' (example_uuid 0) ''2026-03-04T05:06:07+00:00''
    (Unavailable_Finance ''not_configured'')) = Inr example_event"
    by code_simp
  then show ?thesis by (auto simp: map_sum_def split: sum.splits)
qed

abbreviation "example_binding_source \<equiv>
  \<lparr>cs_schema = ''hormuz.finance-attempt-account-binding'', cs_version = 1, cs_event_id = example_uuid 2\<rparr>"

definition example_canonical :: jdict where
  "example_canonical = (case canon (JDict example_event) of JDict n \<Rightarrow> n)"

lemma example_canonical_source:
  "source_identity uuid_text example_sha (finance_account_source_identity example_sha)
     ''hormuz.finance-attempt-account-binding'' 1 (example_uuid 2) example_canonical = Some (example_uuid 2)"
  by code_simp

lemma example_canonical_entry:
  "validate_audit_chain_entry example_sha (finance_account_source_identity example_sha)
     (entry_v2 1 1 1 None example_digest example_binding_source example_canonical)"
  by code_simp

lemma example_binding_commits: "\<exists>st. commit_event example_sha (finance_account_source_identity example_sha) example_event
    (Some example_binding_source) empty_store = Inr st"
proof -
  obtain n where n: "canon (JDict example_event) = JDict n" using canon_dict by blast
  have c: "canon (JDict example_event) = JDict example_canonical"
    unfolding example_canonical_def n by (simp only: json.case)
  have p: "plain (JDict example_event)" by code_simp
  have one: "int_ok 1" by code_simp
  show ?thesis
    by (rule commit_first [OF p c, of "''org''"])
      (simp_all only: chain_source.select_convs one example_canonical_source example_canonical_entry,
        simp_all add: example_event_def example_uuid_def)
qed

definition example_hold :: hold_row where
  "example_hold = new_hold ledger_identity 300 700 (example_uuid 0) (Some (example_uuid 0)) ''2026-03-04T05:06:07+00:00''
     ''2026-03-04T05:07:07+00:00''"

lemma example_expiry: "expiry 60 example_now = Inr ''2026-03-04T05:07:07+00:00''"
  by code_simp

lemma example_model: "configured_model_id example_sha (Some ''m'') (Some ''up'') ''m'' = Inr ''m''"
  by code_simp

lemma example_no_plans: "is_ok (effective_plan_rows example_sha (lg_budgets start_ledger) ''org'' (zulu_text example_now))"
  "effective_plan_rows example_sha (lg_budgets start_ledger) ''org'' (zulu_text example_now) = Inr []"
  by code_simp+

lemma example_begins:
  "\<exists>M b. begin_transaction example_env start_ledger example_now example_request example_options = Inr (M, b) \<and>
     core M = ([example_root], [example_opening], [], [example_hold])"
proof -
  obtain row where row: "attempt_binding_row example_sha (finance_account_source_identity example_sha)
    \<lparr>ac_registrations = [], ac_sources = []\<rparr> (example_uuid 2) ''org'' (example_uuid 0) ''2026-03-04T05:06:07+00:00''
    (Unavailable_Finance ''not_configured'') = Inr (example_event, row)"
    using example_binding_built by blast
  obtain st where st: "commit_event example_sha (finance_account_source_identity example_sha) example_event
    (Some example_binding_source) empty_store = Inr st"
    using example_binding_commits by blast
  define L1 where "L1 = start_ledger\<lparr>lg_uuids := 1\<rparr>"
  define L4 where "L4 = L1\<lparr>lg_attempts := [example_root], lg_events := [example_opening], lg_uuids := 2\<rparr>"
  define L5 where "L5 = L4\<lparr>lg_bindings := [row], lg_chains := (lg_chains L4)(''org'' := st), lg_uuids := 3\<rparr>"
  define L8 where "L8 = L5\<lparr>lg_uuids := 5\<rparr>"
  have org: "id_organization ledger_identity = ''org''"
    by (simp add: ledger_identity_def)
  have f1: "fresh example_env start_ledger = (example_uuid 0, L1)"
    by (simp add: fresh_def L1_def example_env_def start_ledger_def)
  have sw: "sweep_stale_request_attempts example_env example_now (Some ''org'') L1 = Inr L1"
    by (simp add: sweep_stale_request_attempts_def stale_attempts_def L1_def start_ledger_def)
  have ins: "insert_attempt L1 example_root = Inr (L1\<lparr>lg_attempts := [example_root]\<rparr>)"
    using example_root_inserts
    by (simp add: insert_attempt_def L1_def start_ledger_def example_root_def example_options_def)
  have ap: "append_attempt_event example_env (L1\<lparr>lg_attempts := [example_root]\<rparr>) (example_uuid 0) ''org'' example_now 1
      ''pending'' None None = Inr (L4, example_uuid 1)"
    using example_event_valid
    by (simp add: append_attempt_event_def fresh_def example_env_def L4_def L1_def start_ledger_def example_iso
        example_opening_def)
  have bd: "append_account_binding example_env L4 example_root (Unavailable_Finance ''not_configured'') = Inr L5"
    using row st
    by (simp add: append_account_binding_def fresh_def example_env_def L5_def L4_def L1_def start_ledger_def
        example_root_def or_error_def chain_append_def)
  obtain x y where f8: "fresh example_env L5 = (x, L5\<lparr>lg_uuids := 4\<rparr>)" "fresh example_env (L5\<lparr>lg_uuids := 4\<rparr>) = (y, L8)"
    by (simp add: fresh_def L5_def L8_def)
  have pw: "prepare_work_budget example_sha a b (lg_budgets L8) ''org'' c None (zulu_text example_now) =
      Inr (lg_budgets L8, None)" for a b c
    using example_no_plans(2)
    by (simp add: prepare_work_budget_def L8_def L5_def L4_def L1_def)
  define L9 where "L9 = L8\<lparr>lg_holds := [example_hold]\<rparr>"
  have dr: "drop_expired now L8 = L8" for now
    by (simp add: drop_expired_def L8_def L5_def L4_def L1_def start_ledger_def)
  have none: "usage_sum f L8 s org since = 0" "hold_sum g L8 s org now = 0" for f g s org since now
    by (simp_all add: usage_sum_def hold_sum_def L8_def L5_def L4_def L1_def start_ledger_def)
  have rb: "reserve_budget_in L8 ledger_identity example_scopes 300 700 60 (example_uuid 0) (Some (example_uuid 0))
      example_now = Inr L9"
    by (simp add: reserve_budget_in_def dr Let_def example_scopes_def constrained_def none over_def example_expiry example_iso)
      (simp add: L9_def example_hold_def new_hold_def L8_def L5_def L4_def L1_def start_ledger_def example_identity_def)
  have req: "ar_identity example_request = ledger_identity" "ar_scopes example_request = example_scopes"
    "ar_ttl_seconds example_request = 60" "bo_work example_options = None" "bo_failover example_options = None"
    "bo_account example_options = Unavailable_Finance ''not_configured''" "en_sha example_env = example_sha"
    "at_tokens example_root = 300" "at_cost example_root = 700" "at_alias example_root = Some ''m''"
    "at_upstream example_root = Some ''up''" "at_model example_root = ''m''"
    by (simp_all add: example_request_def example_options_def example_env_def example_root_def)
  have same: "L8\<lparr>lg_budgets := lg_budgets L8\<rparr> = L8" by simp
  show ?thesis
    by (simp add: begin_transaction_def f1 org example_root_built sw ins ap bd f8 pw same rb req Let_def
        example_model enforce_and_bind_work_budget_def)
      (simp add: core_def L9_def L8_def L5_def L4_def L1_def start_ledger_def)
qed

end
