(* ===== verification/Attempt_Book.thy ===== *)
theory Attempt_Book
  imports Attempt_Example
begin

text \<open>
  What the ledger promises of every attempt: an account that is held when the attempt opens, may be lost, and
  is spent at most once. \<open>book_of\<close> reads the accounts from the tables, and every transaction of the store is a
  sequence of steps of the accounts.
\<close>

section \<open>Accounts\<close>

datatype account = Held int int | Lost int int | Spent string int int

type_synonym book = "string \<Rightarrow> account option"

inductive book_step :: "book \<Rightarrow> book \<Rightarrow> bool" where
  book_open: "B a = None \<Longrightarrow> 0 \<le> t \<Longrightarrow> 0 \<le> c \<Longrightarrow> book_step B (B(a \<mapsto> Held t c))"
| book_lose: "B a = Some (Held t c) \<Longrightarrow> book_step B (B(a \<mapsto> Lost t c))"
| book_settle: "B a = Some (Held t c) \<Longrightarrow> s \<in> set terminal_states \<Longrightarrow> 0 \<le> t' \<Longrightarrow> 0 \<le> c' \<Longrightarrow>
    book_step B (B(a \<mapsto> Spent s t' c'))"

inductive_cases book_stepE: "book_step B B'"

lemma book_step_spent: "book_step B B' \<Longrightarrow> B a = Some (Spent s t c) \<Longrightarrow> B' a = Some (Spent s t c)"
  by (erule book_stepE) auto

lemma book_steps_spent: "book_step\<^sup>*\<^sup>* B B' \<Longrightarrow> B a = Some (Spent s t c) \<Longrightarrow> B' a = Some (Spent s t c)"
  by (induction rule: rtranclp_induct) (auto intro: book_step_spent)

section \<open>The accounts of a ledger\<close>

definition account_of :: "attempt_row \<Rightarrow> event_row \<Rightarrow> usage_row list \<Rightarrow> account option" where
  "account_of r v U =
     (if ev_state v = ''pending'' then Some (Held (at_tokens r) (at_cost r))
      else if ev_state v = ''outcome_unknown'' then Some (Lost (at_tokens r) (at_cost r))
      else (case ev_usage v of
          None \<Rightarrow> None
        | Some i \<Rightarrow> (case find (\<lambda>u. us_id u = i) U of
              None \<Rightarrow> None
            | Some u \<Rightarrow> Some (Spent (ev_state v) (usage_tokens u) (us_cost u)))))"

definition book :: "tables \<Rightarrow> book" where
  "book = (\<lambda>(A, E, U, H) a. (case find (\<lambda>r. at_id r = a) A of
      None \<Rightarrow> None
    | Some r \<Rightarrow> (case last_event (events_at E a) of None \<Rightarrow> None | Some v \<Rightarrow> account_of r v U)))"

definition book_of :: "ledger \<Rightarrow> book" where
  "book_of L = book (core L)"

lemma find_by_key: "distinct (map f xs) \<Longrightarrow> x \<in> set xs \<Longrightarrow> find (\<lambda>y. f y = f x) xs = Some x"
proof (induction xs)
  case (Cons y ys)
  then show ?case by (cases "y = x") (auto simp: image_iff dest: sym)
qed simp

lemma find_absent: "a \<notin> f ` set xs \<Longrightarrow> find (\<lambda>y. f y = a) xs = None"
  by (auto simp: find_None_iff)

lemma find_snoc: "find P (xs @ [x]) = (case find P xs of None \<Rightarrow> if P x then Some x else None | Some y \<Rightarrow> Some y)"
  by (induction xs) auto

lemma tables_ok_distinct:
  "tables_ok (A, E, U, H) \<Longrightarrow> distinct (map at_id A) \<and> distinct (map us_id U)"
  by (simp add: tables_ok_def)

lemma book_pending:
  assumes "tables_ok (A, E, U, H)" "r \<in> set A" "pending_attempt E H r"
  shows "book (A, E, U, H) (at_id r) = Some (Held (at_tokens r) (at_cost r))"
  using assms find_by_key [of at_id A r] tables_ok_distinct [OF assms(1)]
  by (auto simp: book_def account_of_def pending_attempt_def opening_event_def)

lemma book_lost:
  assumes "tables_ok (A, E, U, H)" "r \<in> set A" "lost_attempt E H r"
  shows "book (A, E, U, H) (at_id r) = Some (Lost (at_tokens r) (at_cost r))"
  using assms find_by_key [of at_id A r] tables_ok_distinct [OF assms(1)]
  by (auto simp: book_def account_of_def lost_attempt_def opening_event_def lost_event_def)

lemma book_settled:
  assumes ok: "tables_ok (A, E, U, H)" and r: "r \<in> set A" and e: "events_at E (at_id r) = [p, v]"
    and p: "opening_event r p" and v: "closing_event U r v" and u: "u \<in> set U" "ev_usage v = Some (us_id u)"
  shows "book (A, E, U, H) (at_id r) = Some (Spent (ev_state v) (usage_tokens u) (us_cost u))"
  using r e p v u find_by_key [of at_id A r] find_by_key [of us_id U u] tables_ok_distinct [OF ok]
  by (auto simp: book_def account_of_def opening_event_def closing_event_def terminal_states_def)

lemma book_absent: "a \<notin> at_id ` set A \<Longrightarrow> book (A, E, U, H) a = None"
  by (simp add: book_def find_absent)

text \<open>The account of an attempt depends on its own events; recorded usage and holds leave it as it is.\<close>

lemma book_frame:
  assumes ok: "tables_ok (A, E, U, H)" and a: "a \<in> at_id ` set A"
    and e: "events_at E' a = events_at E a" and A': "A' = A \<or> (\<exists>q. A' = A @ [q])"
    and U': "U' = U \<or> (\<exists>u. U' = U @ [u])"
  shows "book (A', E', U', H') a = book (A, E, U, H) a"
proof -
  obtain r where r: "r \<in> set A" "a = at_id r" using a by auto
  have fA: "find (\<lambda>q. at_id q = a) A = Some r"
    using find_by_key [of at_id A r] tables_ok_distinct [OF ok] r by simp
  then have fA': "find (\<lambda>q. at_id q = a) A' = Some r" using A' by (auto simp: find_snoc)
  have "account_of r v U' = account_of r v U" if "last_event (events_at E a) = Some v" for v
  proof (cases "settled_attempt E U H r")
    case True
    then obtain p w u where w: "events_at E a = [p, w]" "opening_event r p" "closing_event U r w" "u \<in> set U"
      "ev_usage w = Some (us_id u)" unfolding settled_attempt_def closing_event_def r(2) by blast
    then have "v = w" using that by (auto simp: opening_event_def closing_event_def)
    moreover have "find (\<lambda>x. us_id x = us_id u) U = Some u"
      using find_by_key [of us_id U u] tables_ok_distinct [OF ok] w(4) by simp
    ultimately show ?thesis using U' w(5) by (auto simp: account_of_def find_snoc)
  next
    case False
    then have "ev_state v = ''pending'' \<or> ev_state v = ''outcome_unknown''"
      using tables_ok_attempts [OF ok r(1)] that
      by (auto simp: attempt_ok_def pending_attempt_def lost_attempt_def opening_event_def lost_event_def r(2))
    then show ?thesis by (auto simp: account_of_def)
  qed
  then show ?thesis by (auto simp: book_def fA fA' e split: option.splits)
qed

section \<open>Refinement\<close>

lemma book_same:
  assumes ok: "tables_ok (A, E, U, H)" and U': "U' = U \<or> (\<exists>u. U' = U @ [u])"
  shows "book (A, E, U', H') = book (A, E, U, H)"
proof
  fix a
  show "book (A, E, U', H') a = book (A, E, U, H) a"
    using book_frame [OF ok _ refl _ U'] book_absent by (cases "a \<in> at_id ` set A") auto
qed

lemma book_update:
  assumes ok: "tables_ok (A, E, U, H)" and v: "ev_attempt v = at_id r" and A': "set A' = insert r (set A)"
    "A' = A \<or> (\<exists>q. A' = A @ [q])" and U': "U' = U \<or> (\<exists>u. U' = U @ [u])"
    and new: "book (A', E @ [v], U', H') (at_id r) = Some x"
  shows "book (A', E @ [v], U', H') = (book (A, E, U, H))(at_id r \<mapsto> x)"
proof
  fix a
  show "book (A', E @ [v], U', H') a = ((book (A, E, U, H))(at_id r \<mapsto> x)) a"
  proof (cases "a = at_id r")
    case True
    then show ?thesis using new by simp
  next
    case False
    then have e: "events_at (E @ [v]) a = events_at E a" using v by simp
    show ?thesis
    proof (cases "a \<in> at_id ` set A")
      case True
      from book_frame [OF ok True e A'(2) U'] False show ?thesis by simp
    next
      case out: False
      then have "a \<notin> at_id ` set A'" using A'(1) False by auto
      with out False show ?thesis by (simp add: book_absent)
    qed
  qed
qed

lemma lose_step_refines:
  assumes "lose_step T T'" "tables_ok T"
  shows "book_step (book T) (book T')"
  using assms(1)
proof cases
  case (lose r A E H v U)
  note ok = assms(2) [unfolded lose(1)]
  note l = tables_ok_lose [OF ok lose(3-6)]
  have "book T' = (book T)(at_id r \<mapsto> Lost (at_tokens r) (at_cost r))"
    unfolding lose(1,2)
    by (rule book_update [OF ok lose(5)]) (use lose(3) book_lost [OF l(1) lose(3) l(2)] in auto)
  then show ?thesis using book_pending [OF ok lose(3,4)] lose(1) by (simp add: book_lose)
qed

lemma table_step_refines:
  assumes "table_step T T'" "tables_ok T"
  shows "book_step\<^sup>=\<^sup>= (book T) (book T')"
  using assms(1)
proof cases
  case (plain_holds H' H A E U)
  have "book T' = book T" using book_same [OF assms(2) [unfolded plain_holds(1)], of U H'] plain_holds(1,2) by simp
  then show ?thesis by simp
next
  case (refreshed f A E U H)
  have "book T' = book T" using book_same [OF assms(2) [unfolded refreshed(1)], of U "map f H"] refreshed(1,2) by simp
  then show ?thesis by simp
next
  case (usage u U A E H)
  have "book T' = book T" using book_same [OF assms(2) [unfolded usage(1)], of "U @ [u]" H] usage(1,2) by simp
  then show ?thesis by simp
next
  case (open_attempt r A p h E U H)
  note ok = assms(2) [unfolded open_attempt(1)]
  note ok' = table_step_ok [OF assms, unfolded open_attempt(2)]
  have "pending_attempt (E @ [p]) (H @ [h]) r"
    using open_attempt no_events_outside [OF ok open_attempt(3)] no_holds_outside [OF ok open_attempt(3)]
    by (auto simp: pending_attempt_def held_def linked_def)
  note b = book_pending [OF ok' _ this]
  have "book T' = (book T)(at_id r \<mapsto> Held (at_tokens r) (at_cost r))"
    unfolding open_attempt(1,2)
    by (rule book_update [OF ok open_attempt(4)]) (use b in auto)
  then show ?thesis
    using book_open [of "book T" "at_id r"] book_absent [OF open_attempt(3)] open_attempt(1,8,9) by simp
next
  case lose_attempt
  then show ?thesis using lose_step_refines [OF _ assms(2)] by simp
next
  case (settle r A E H u U v gone)
  note ok = assms(2) [unfolded settle(1)]
  note ok' = table_step_ok [OF assms, unfolded settle(2)]
  obtain p where p: "events_at E (at_id r) = [p]" "opening_event r p"
    using settle(4) by (auto simp: pending_attempt_def)
  have "book T' = (book T)(at_id r \<mapsto> Spent (ev_state v) (usage_tokens u) (us_cost u))"
    unfolding settle(1,2)
    by (rule book_update [OF ok settle(7)])
      (use settle(3,7) book_settled [OF ok' settle(3) _ p(2) settle(9) _ settle(8)] p(1) in auto)
  moreover have "0 \<le> usage_tokens u" "0 \<le> us_cost u" "ev_state v \<in> set terminal_states"
    using settle(6,9) by (auto simp: nonnegative_usage_def usage_tokens_def closing_event_def)
  ultimately show ?thesis
    using book_settle [of "book T" "at_id r"] book_pending [OF ok settle(3,4)] settle(1) by simp
qed

lemma table_steps_refine:
  "table_step\<^sup>*\<^sup>* T T' \<Longrightarrow> tables_ok T \<Longrightarrow> book_step\<^sup>*\<^sup>* (book T) (book T')"
proof (induction rule: rtranclp_induct)
  case (step S S')
  then show ?case using table_step_refines [OF step.hyps(2)] table_steps_ok [OF step.hyps(1)] by auto
qed simp

lemma ledger_step_refines:
  "ledger_reachable e L \<Longrightarrow> ledger_step e L M \<Longrightarrow> book_step\<^sup>*\<^sup>* (book_of L) (book_of M)"
  using table_steps_refine [OF ledger_step_tables] reachable_inv by (simp add: book_of_def ledger_inv_def)

lemma ledger_steps_refine:
  assumes "(ledger_step e)\<^sup>*\<^sup>* L M" "ledger_reachable e L"
  shows "ledger_reachable e M \<and> book_step\<^sup>*\<^sup>* (book_of L) (book_of M)"
  using assms
proof (induction rule: rtranclp_induct)
  case (step N M)
  then show ?case using ledger_step_refines [of e N M] ledger_reachable.step [of e N M] by auto
qed simp

section \<open>A run\<close>

lemma example_ledger_reachable:
  "\<exists>M. ledger_reachable example_env M \<and> ledger_step example_env start_ledger M \<and> ledger_reachable example_env start_ledger \<and>
     core M = ([example_root], [example_opening], [], [example_hold])"
proof -
  obtain M b where b: "begin_transaction example_env start_ledger example_now example_request example_options = Inr (M, b)"
    and m: "core M = ([example_root], [example_opening], [], [example_hold])"
    using example_begins by blast
  have s: "ledger_step example_env start_ledger M"
    by (rule ledger_step.begins [where res = "Inr b" and now = example_now and q = example_request and
        opts = example_options]) (simp only: begin_attempt_in_store_def b sum.case prod.case)
  have z: "ledger_reachable example_env start_ledger"
    by (rule ledger_reachable.start) (simp add: empty_ledger_def core_def start_ledger_def)
  show ?thesis using ledger_reachable.step [OF z s] s z m by blast
qed

lemma example_account:
  "core M = ([example_root], [example_opening], [], [example_hold]) \<Longrightarrow> book_of M (example_uuid 0) = Some (Held 300 700)"
  by (simp add: book_of_def book_def example_root_def example_opening_def events_at_def account_of_def)

section \<open>What every reachable ledger satisfies\<close>

text \<open>
  C37: In every ledger the store can reach, an attempt is in one of three states: pending (one event) or lost (a
  second event, outcome_unknown, without usage), with exactly one hold of its tokens and cost; or settled, with
  a terminal event that names a usage row of the same organization, actor and team, and no hold left. A hold
  that names an attempt always names one that is open.
\<close>
theorem ledger_attempts_consistent:
  assumes "ledger_reachable e L"
  shows "(\<forall>r \<in> set (lg_attempts L). pending_attempt (lg_events L) (lg_holds L) r \<or>
       lost_attempt (lg_events L) (lg_holds L) r \<or> settled_attempt (lg_events L) (lg_usage L) (lg_holds L) r) \<and>
     (\<forall>h \<in> set (lg_holds L). \<forall>a. ho_attempt h = Some a \<longrightarrow> attempt_open L a)"
  using inv_attempt_ok [OF reachable_inv [OF assms]] linked_hold_open [OF reachable_inv [OF assms]]
  by (auto simp: attempt_ok_def)

theorem ledger_attempts_consistent_witness:
  "\<exists>L. lg_attempts L = [example_root] \<and> attempt_open L (example_uuid 0) \<and>
     \<not> settled_attempt (lg_events L) (lg_usage L) (lg_holds L) example_root"
proof -
  obtain M where m: "ledger_reachable example_env M" "core M = ([example_root], [example_opening], [], [example_hold])"
    using example_ledger_reachable by blast
  have t: "lg_attempts M = [example_root]" "lg_events M = [example_opening]" "lg_holds M = [example_hold]" "lg_usage M = []"
    using m(2) by (simp_all add: core_def)
  have "attempt_open M (example_uuid 0)"
    using ledger_attempts_consistent [OF m(1)] t by (auto simp: example_hold_def new_hold_def)
  moreover have "\<not> settled_attempt [example_opening] [] [example_hold] example_root"
    by (auto simp: settled_attempt_def closing_event_def)
  ultimately show ?thesis using t by metis
qed

text \<open>
  C38: Every transaction of the store, whatever its operation and arguments, is a sequence of steps of the
  accounts: it opens an account that did not exist, loses a held one, or settles a held one, and nothing else.
\<close>
theorem store_refines_accounts:
  assumes "ledger_reachable e L" "ledger_step e L M"
  shows "book_step\<^sup>*\<^sup>* (book_of L) (book_of M)"
  by (rule ledger_step_refines [OF assms])

theorem store_refines_accounts_witness:
  "\<exists>M. book_of M (example_uuid 0) = Some (Held 300 700) \<and> book_step\<^sup>*\<^sup>* (book_of start_ledger) (book_of M)"
proof -
  obtain M where m: "ledger_reachable example_env start_ledger" "ledger_step example_env start_ledger M"
    "core M = ([example_root], [example_opening], [], [example_hold])"
    using example_ledger_reachable by blast
  show ?thesis using store_refines_accounts [OF m(1,2)] example_account [OF m(3)] by blast
qed

text \<open>What can become of an account.\<close>

fun becomes :: "account \<Rightarrow> account \<Rightarrow> bool" where
  "becomes (Held t c) y = (y = Held t c \<or> y = Lost t c \<or> (\<exists>s t' c'. y = Spent s t' c' \<and> s \<in> set terminal_states))"
| "becomes x y = (y = x)"

lemma becomes_trans: "becomes x y \<Longrightarrow> becomes y z \<Longrightarrow> becomes x z"
  by (cases x; cases y) auto

lemma book_step_becomes: "book_step B B' \<Longrightarrow> B a = Some x \<Longrightarrow> \<exists>y. B' a = Some y \<and> becomes x y"
  by (erule book_stepE; cases x) auto

lemma book_steps_become: "book_step\<^sup>*\<^sup>* B B' \<Longrightarrow> B a = Some x \<Longrightarrow> \<exists>y. B' a = Some y \<and> becomes x y"
proof (induction rule: rtranclp_induct)
  case base
  then show ?case by (cases x) auto
next
  case (step C C')
  then show ?case using book_step_becomes [OF step.hyps(2)] becomes_trans by blast
qed

text \<open>
  C39: The account of an attempt never disappears and only moves forward: whatever the store does later, a
  held account keeps its reservation, is lost with the same reservation, or is settled; a lost account stays
  lost with its reservation, and a settled one keeps its status, tokens and cost for good.
\<close>
theorem accounts_move_forward:
  assumes "ledger_reachable e L" "(ledger_step e)\<^sup>*\<^sup>* L M" "book_of L a = Some x"
  shows "\<exists>y. book_of M a = Some y \<and> becomes x y"
  using ledger_steps_refine [OF assms(2,1)] book_steps_become [of "book_of L" "book_of M" a x] assms(3) by blast

theorem accounts_move_forward_witness:
  "\<exists>M. book_of (release_budget_reservation M (Some (example_uuid 0)) None) (example_uuid 0) \<noteq> None \<and>
     book_of M (example_uuid 0) = Some (Held 300 700)"
proof -
  obtain M where m: "ledger_reachable example_env M" "core M = ([example_root], [example_opening], [], [example_hold])"
    using example_ledger_reachable by blast
  have "(ledger_step example_env)\<^sup>*\<^sup>* M (release_budget_reservation M (Some (example_uuid 0)) None)"
    by (rule r_into_rtranclp) (rule ledger_step.releases)
  from accounts_move_forward [OF m(1) this example_account [OF m(2)]] example_account [OF m(2)] show ?thesis by auto
qed

end
