(* ===== verification/Attempt_Budget.thy ===== *)
theory Attempt_Budget
  imports Attempt_Example
begin

text \<open>
  The monthly limits of the reservation scopes. An admission compares the usage of the month and the holds of
  open attempts with the limit; the lemmas here show what that is worth afterwards: as long as every request
  of the scope is admitted under it and no settlement exceeds its reservation, usage and holds together stay
  within the limit, whatever else the store does.
\<close>

section \<open>Sums over holds\<close>

definition scope_hold :: "reservation_scope \<Rightarrow> string \<Rightarrow> hold_row \<Rightarrow> bool" where
  "scope_hold s organization h = (ho_attempt h \<noteq> None \<and> ho_org h = organization \<and> matches_scope s (ho_actor h) (ho_team h))"

definition held_sum :: "(hold_row \<Rightarrow> int) \<Rightarrow> hold_row list \<Rightarrow> reservation_scope \<Rightarrow> string \<Rightarrow> int" where
  "held_sum f H s organization = sum_list (map f (filter (scope_hold s organization) H))"

definition used_sum :: "(usage_row \<Rightarrow> int) \<Rightarrow> usage_row list \<Rightarrow> reservation_scope \<Rightarrow> string \<Rightarrow> string \<Rightarrow> int" where
  "used_sum f U s organization since = sum_list (map f (filter (counted_usage s organization since) U))"

text \<open>What a scope has committed: the usage since the start of the month and the holds of open attempts.\<close>

definition committed :: "(usage_row \<Rightarrow> int) \<Rightarrow> (hold_row \<Rightarrow> int) \<Rightarrow> ledger \<Rightarrow> reservation_scope \<Rightarrow> string \<Rightarrow> string
    \<Rightarrow> int" where
  "committed used amount L s organization since =
     used_sum used (lg_usage L) s organization since + held_sum amount (lg_holds L) s organization"

lemma usage_sum_used: "usage_sum f L s org since = used_sum f (lg_usage L) s org since"
  by (simp add: usage_sum_def used_sum_def)

lemma used_sum_snoc [simp]:
  "used_sum f (U @ [u]) s org since = used_sum f U s org since + (if counted_usage s org since u then f u else 0)"
  by (simp add: used_sum_def)

lemma held_sum_snoc [simp]:
  "held_sum f (H @ [h]) s org = held_sum f H s org + (if scope_hold s org h then f h else 0)"
  by (simp add: held_sum_def)

lemma sum_filter_split:
  "sum_list (map f (filter P xs)) = sum_list (map f (filter P (filter Q xs))) + sum_list (map f (filter P (filter (\<lambda>x. \<not> Q x) xs)))"
  for f :: "'a \<Rightarrow> int"
  by (induction xs) auto

lemma sum_filter_mono:
  "(\<And>x. x \<in> set xs \<Longrightarrow> P x \<Longrightarrow> Q x) \<Longrightarrow> (\<And>x. x \<in> set xs \<Longrightarrow> 0 \<le> f x) \<Longrightarrow>
     sum_list (map f (filter P xs)) \<le> sum_list (map f (filter Q xs))" for f :: "'a \<Rightarrow> int"
  by (induction xs) (auto simp: add_increasing)

text \<open>Holds that no attempt owns do not count, and a refresh changes nothing.\<close>

lemma held_sum_plain:
  assumes "\<And>h. \<not> Q h \<Longrightarrow> ho_attempt h = None"
  shows "held_sum f (filter Q H) s org = held_sum f H s org"
proof -
  have "filter (scope_hold s org) (filter Q H) = filter (scope_hold s org) H"
    unfolding filter_filter
  proof (rule filter_cong)
    fix h
    show "(Q h \<and> scope_hold s org h) = scope_hold s org h"
      using assms [of h] by (cases "Q h") (simp_all add: scope_hold_def)
  qed simp
  then show ?thesis by (simp add: held_sum_def)
qed

lemma held_sum_refresh:
  assumes "refreshes g" "\<And>h. f (g h) = f h"
  shows "held_sum f (map g H) s org = held_sum f H s org"
proof -
  have "scope_hold s org (g h) = scope_hold s org h" for h
    by (simp add: scope_hold_def refreshed_fields [OF assms(1)])
  then show ?thesis by (simp add: held_sum_def filter_map comp_def assms(2))
qed

text \<open>Deleting the hold of an attempt gives its amount back.\<close>

lemma held_sum_delete:
  assumes one: "filter (linked a) H = [h]" and gone: "\<And>k. gone k \<Longrightarrow> linked a k" "\<exists>k \<in> set H. gone k"
  shows "held_sum f (filter (\<lambda>k. \<not> gone k) H) s org + (if scope_hold s org h then f h else 0) = held_sum f H s org"
proof -
  have sub: "filter gone H = filter gone (filter (linked a) H)"
    using gone(1) by (auto intro: filter_cong)
  from gone obtain k where k: "k \<in> set H" "gone k" by blast
  then have "k \<in> set (filter gone H)" by simp
  then have "k \<in> set (filter gone [h])" by (simp only: sub one)
  then have "filter gone H = [h]" using sub one by (simp split: if_splits)
  then show ?thesis
    unfolding held_sum_def using sum_filter_split [of f "scope_hold s org" H gone] by simp
qed

section \<open>Governed runs\<close>

text \<open>
  One transaction of a run in which the scope \<open>s\<close> is observed: every admission of its identities in month \<open>m\<close>
  names it, and a settlement charges at most what was reserved.
\<close>

definition charge_within :: "(usage_row \<Rightarrow> int) \<Rightarrow> (int \<Rightarrow> int \<Rightarrow> int) \<Rightarrow> ledger \<Rightarrow> string \<Rightarrow> settlement \<Rightarrow> utc_time \<Rightarrow> bool" where
  "charge_within used pick L attempt x now =
     (\<forall>r \<in> set (lg_attempts L). at_id r = attempt \<longrightarrow>
        used (clamped (settled_usage r x now)) \<le> pick (at_tokens r) (at_cost r))"

inductive governed :: "environment \<Rightarrow> (usage_row \<Rightarrow> int) \<Rightarrow> (int \<Rightarrow> int \<Rightarrow> int) \<Rightarrow> reservation_scope \<Rightarrow> string \<Rightarrow> string
    \<Rightarrow> ledger \<Rightarrow> ledger \<Rightarrow> bool" for e used pick s org m where
  gov_begin: "begin_attempt_in_store e L now q opts = (M, res) \<Longrightarrow>
    (id_organization (ar_identity q) = org \<and> matches_scope s (id_actor (ar_identity q)) (id_team (ar_identity q)) \<longrightarrow>
       s \<in> set (ar_scopes q) \<and> isoformat (month_start now) = m) \<Longrightarrow> governed e used pick s org m L M"
| gov_finalize: "finalize_request_attempt e L now metrics_at attempt reservation organization x = Inr M \<Longrightarrow>
    charge_within used pick L attempt x now \<Longrightarrow> governed e used pick s org m L M"
| gov_unknown: "mark_request_attempt_outcome_unknown e L now metrics_at attempt organization reason mt ob = Inr (M, changed)
    \<Longrightarrow> governed e used pick s org m L M"
| gov_sweep: "sweep_stale_request_attempts e now organization_filter L = Inr M \<Longrightarrow> governed e used pick s org m L M"
| gov_record: "record_usage e L u = Inr (M, i) \<Longrightarrow> used (clamped u) = 0 \<or> us_org u \<noteq> org \<or>
    \<not> matches_scope s (us_actor u) (us_team u) \<Longrightarrow> governed e used pick s org m L M"
| gov_secret: "record_secret_event e L now i client protocol model pv action d rules = Inr (M, j) \<Longrightarrow>
    governed e used pick s org m L M"
| gov_reserve: "reserve_budget e L now i scopes tokens cost ttl = Inr (M, res) \<Longrightarrow> governed e used pick s org m L M"
| gov_release: "governed e used pick s org m L (release_budget_reservation L reservation organization)"
| gov_refresh: "refresh_budget_reservation L now reservation ttl organization = Inr M \<Longrightarrow> governed e used pick s org m L M"
| gov_administer: "governed e used pick s org m L
    (L\<lparr>lg_accounts := accounts, lg_budgets := budgets, lg_chains := audit, lg_uuids := n\<rparr>)"

lemma governed_step: "governed e used pick s org m L M \<Longrightarrow> ledger_step e L M"
  by (erule governed.cases) (auto intro: ledger_step.intros)

section \<open>What the steps do to a scope\<close>

lemma admission_scope:
  assumes "check_scopes K org since now tokens cost ss = Inr ()" "s \<in> set ss"
  shows "rs_token_limit s = Some l \<Longrightarrow>
       usage_sum usage_tokens K s org since + hold_sum ho_tokens K s org now + max 0 tokens \<le> l"
    and "rs_cost_limit_microusd s = Some l \<Longrightarrow>
       usage_sum us_cost K s org since + hold_sum ho_cost K s org now + max 0 cost \<le> l"
  using assms by (induction ss) (auto simp: Let_def over_def split: if_splits)

text \<open>
  What the two kinds of limit share: what a usage row uses, what a hold amounts to, which of the two estimates
  of a request it is, and the limit it is compared with.
\<close>

locale metered =
  fixes used :: "usage_row \<Rightarrow> int" and amount :: "hold_row \<Rightarrow> int" and pick :: "int \<Rightarrow> int \<Rightarrow> int"
    and limit :: "reservation_scope \<Rightarrow> int option"
  assumes used_nonneg: "nonnegative_usage u \<Longrightarrow> 0 \<le> used u"
    and amount_nonneg: "nonnegative_hold h \<Longrightarrow> 0 \<le> amount h"
    and amount_root: "hold_of_root r h \<Longrightarrow> amount h = pick (at_tokens r) (at_cost r)"
    and amount_refresh: "refreshes g \<Longrightarrow> amount (g h) = amount h"
    and amount_new: "amount (new_hold i tokens cost reservation attempt created expires) = max 0 (pick tokens cost)"
    and used_id: "used (u\<lparr>us_id := j\<rparr>) = used u"
    and limit_constrained: "limit s = Some l \<Longrightarrow> constrained s"
    and admission: "check_scopes K org since now tokens cost ss = Inr () \<Longrightarrow> s \<in> set ss \<Longrightarrow> limit s = Some l \<Longrightarrow>
       usage_sum used K s org since + hold_sum amount K s org now + max 0 (pick tokens cost) \<le> l"
begin

abbreviation "taken \<equiv> committed used amount"

lemma taken_core: "core M = core L \<Longrightarrow> taken M s org m = taken L s org m"
  by (simp add: committed_def core_def)

lemma taken_lose: "lose_step\<^sup>*\<^sup>* (core L) (core M) \<Longrightarrow> taken M s org m = taken L s org m"
  using lose_steps_same [of "core L" "core M"] by (auto simp: committed_def core_def)

lemma used_sum_antimono:
  "m \<le> m' \<Longrightarrow> \<forall>u \<in> set U. nonnegative_usage u \<Longrightarrow> used_sum used U s org m' \<le> used_sum used U s org m"
  unfolding used_sum_def by (rule sum_filter_mono) (auto simp: counted_usage_def used_nonneg)

text \<open>The holds of attempts are active, so the admission has counted them.\<close>

lemma hold_sum_covers:
  assumes active: "\<And>h a. h \<in> set (lg_holds K) \<Longrightarrow> ho_attempt h = Some a \<Longrightarrow> attempt_open K a"
    and nn: "\<forall>h \<in> set (lg_holds K). nonnegative_hold h"
  shows "held_sum amount (lg_holds K) s org \<le> hold_sum amount K s org now"
  unfolding held_sum_def hold_sum_def
  by (rule sum_filter_mono) (use active nn amount_nonneg in \<open>auto simp: scope_hold_def counted_hold_def hold_active_def\<close>)

text \<open>An admission under the scope leaves it within its limit, whatever it had committed before.\<close>

lemma admission_within:
  assumes inv: "ledger_inv L" and a: "admitted L now q r K M"
    and s: "s \<in> set (ar_scopes q)" "limit s = Some l" "matches_scope s (id_actor (ar_identity q)) (id_team (ar_identity q))"
  shows "taken M s (id_organization (ar_identity q)) (isoformat (month_start now)) \<le> l"
proof -
  let ?n = "isoformat now" let ?m = "isoformat (month_start now)" let ?org = "id_organization (ar_identity q)"
  let ?H = "lg_holds (drop_expired ?n L)"
  obtain E p x where st: "lose_step\<^sup>*\<^sup>* (core L) (lg_attempts L, E, lg_usage L, lg_holds L)" and q: "root_of_request q r"
    and new: "at_id r \<notin> at_id ` set (lg_attempts L)" and p: "ev_attempt p = at_id r"
    and k: "core K = (lg_attempts L @ [r], E @ [p], lg_usage L, ?H)"
    and c: "check_scopes K (at_org r) ?m ?n (at_tokens r) (at_cost r) (filter constrained (ar_scopes q)) = Inr ()"
    and m: "core M = (lg_attempts L @ [r], E @ [p], lg_usage L, ?H @
       [new_hold (ar_identity q) (at_tokens r) (at_cost r) (at_id r) (Some (at_id r)) ?n x])"
    using a unfolding admitted_def by blast
  have ok: "tables_ok (lg_attempts L, E, lg_usage L, lg_holds L)"
    using lose_steps_ok [OF st] inv by (simp add: ledger_inv_def)
  have sub: "set ?H \<subseteq> set (lg_holds L)" by (auto simp: drop_expired_def)
  have org: "at_org r = ?org" using q by (simp add: root_of_request_def)
  have active: "attempt_open K b" if h: "h \<in> set (lg_holds K)" "ho_attempt h = Some b" for h b
  proof -
    have hl: "h \<in> set (lg_holds L)" using h(1) k sub by (auto simp: core_def)
    then obtain w where w: "w \<in> set (lg_attempts L)" "at_id w = b"
      using ok h(2) by (force simp: tables_ok_def)
    define N where "N = L\<lparr>lg_events := E\<rparr>"
    have "h \<in> set (filter (linked (at_id w)) (lg_holds L))" using hl h(2) w(2) by (simp add: linked_def)
    then have "filter (linked (at_id w)) (lg_holds L) \<noteq> []" by (metis empty_iff empty_set)
    then have "attempt_open N b"
      using open_attempt_open [of N "lg_usage L" "lg_holds L" w] tables_ok_attempts [OF ok w(1)] w(2) by (simp add: N_def)
    moreover have "latest_event K b = latest_event N b"
      using new w p k by (auto simp: latest_event_def events_of_at N_def core_def)
    ultimately show ?thesis by (simp add: attempt_open_def)
  qed
  have nn: "\<forall>h \<in> set (lg_holds K). nonnegative_hold h"
    using ok sub k by (auto simp: tables_ok_def core_def)
  have "s \<in> set (filter constrained (ar_scopes q))" using s(1) limit_constrained [OF s(2)] by simp
  moreover have "held_sum amount (lg_holds K) s ?org \<le> hold_sum amount K s ?org ?n"
    by (rule hold_sum_covers [OF _ nn]) (rule active)
  moreover note admission [OF c _ s(2)]
  ultimately have "used_sum used (lg_usage L) s ?org ?m + held_sum amount ?H s ?org + max 0 (pick (at_tokens r) (at_cost r)) \<le> l"
    using k org by (simp add: usage_sum_used core_def)
  then show ?thesis
    using m s(3) by (simp add: committed_def core_def amount_new scope_hold_def) (simp add: new_hold_def)
qed

lemma settle_within:
  assumes inv: "ledger_inv L" and st: "settles L r u M" and le: "used u \<le> pick (at_tokens r) (at_cost r)"
  shows "taken M s org m \<le> taken L s org m"
proof -
  obtain v gone where r: "r \<in> set (lg_attempts L)" "pending_attempt (lg_events L) (lg_holds L) r"
    and u: "nonnegative_usage u" "us_org u = at_org r" "us_actor u = at_actor r" "us_team u = at_team r"
    and gone: "\<And>h. gone h \<Longrightarrow> linked (at_id r) h" "\<exists>h \<in> set (lg_holds L). gone h"
    and c: "core M = (lg_attempts L, lg_events L @ [v], lg_usage L @ [u], filter (\<lambda>h. \<not> gone h) (lg_holds L))"
    using st unfolding settles_def linked_def by blast
  obtain h where h: "filter (linked (at_id r)) (lg_holds L) = [h]" "hold_of_root r h"
    using r(2) by (auto simp: pending_attempt_def held_def)
  then have "h \<in> set (filter (linked (at_id r)) (lg_holds L))" by simp
  then have "linked (at_id r) h" by simp
  then have sc: "scope_hold s org h = (at_org r = org \<and> matches_scope s (at_actor r) (at_team r))"
    using h(2) by (simp add: scope_hold_def hold_of_root_def linked_def)
  have "counted_usage s org m u \<Longrightarrow> scope_hold s org h" using u sc by (simp add: counted_usage_def)
  moreover have "0 \<le> used u" "used u \<le> amount h" using used_nonneg [OF u(1)] le amount_root [OF h(2)] by simp_all
  ultimately show ?thesis
    using held_sum_delete [OF h(1), of gone amount s org] gone c
    by (auto simp: committed_def core_def split: if_splits)
qed

lemma admission_elsewhere:
  assumes a: "admitted L now q r K M"
    and out: "\<not> (id_organization (ar_identity q) = org \<and> matches_scope s (id_actor (ar_identity q)) (id_team (ar_identity q)))"
  shows "taken M s org m = taken L s org m"
proof -
  obtain E p x where m: "core M = (lg_attempts L @ [r], E @ [p], lg_usage L, lg_holds (drop_expired (isoformat now) L) @
       [new_hold (ar_identity q) (at_tokens r) (at_cost r) (at_id r) (Some (at_id r)) (isoformat now) x])"
    using a unfolding admitted_def by blast
  have "held_sum amount (lg_holds (drop_expired (isoformat now) L)) s org = held_sum amount (lg_holds L) s org"
    unfolding drop_expired_def by simp (rule held_sum_plain, simp)
  then show ?thesis using m out by (simp add: committed_def core_def scope_hold_def) (auto simp: new_hold_def)
qed

lemma begin_within:
  assumes inv: "ledger_inv L" and b: "begin_attempt_in_store e L now q opts = (M, res)" and le: "taken L s org m \<le> l"
    and lim: "limit s = Some l"
    and gov: "id_organization (ar_identity q) = org \<and> matches_scope s (id_actor (ar_identity q)) (id_team (ar_identity q)) \<longrightarrow>
       s \<in> set (ar_scopes q) \<and> isoformat (month_start now) = m"
  shows "taken M s org m \<le> l"
proof (cases "begin_transaction e L now q opts")
  case (Inl err)
  have "core M = core L"
    using b Inl by (cases err) (auto simp: begin_attempt_in_store_def split: sum.splits)
  from taken_core [OF this] le show ?thesis by simp
next
  case (Inr z)
  obtain N c where z: "z = (N, c)" by fastforce
  with b Inr have n: "N = M" by (simp add: begin_attempt_in_store_def)
  obtain r K where a: "admitted L now q r K M"
    using begin_transaction_admits [OF inv Inr [unfolded z n]] by blast
  show ?thesis
  proof (cases "id_organization (ar_identity q) = org \<and> matches_scope s (id_actor (ar_identity q)) (id_team (ar_identity q))")
    case True
    then show ?thesis using admission_within [OF inv a _ lim] gov by auto
  next
    case False
    then show ?thesis using admission_elsewhere [OF a False] le by simp
  qed
qed

lemma record_within:
  assumes r: "record_usage e L u = Inr (M, i)" and free: "used (clamped u) = 0 \<or> us_org u \<noteq> org \<or>
     \<not> matches_scope s (us_actor u) (us_team u)"
  shows "taken M s org m = taken L s org m"
proof -
  have i: "clamped (u\<lparr>us_id := i\<rparr>) = (clamped u)\<lparr>us_id := i\<rparr>" by (simp add: clamped_def)
  have "counted_usage s org m (clamped (u\<lparr>us_id := i\<rparr>)) \<Longrightarrow> us_org u = org \<and> matches_scope s (us_actor u) (us_team u)"
    by (simp add: counted_usage_def)
  then show ?thesis using record_usage_effect(1) [OF r] free
    by (auto simp: committed_def core_def i used_id)
qed

lemma reserve_taken:
  assumes inv: "ledger_inv L" and r: "reserve_budget e L now i scopes tokens cost ttl = Inr (M, res)"
  shows "taken M s org m = taken L s org m"
proof (cases "filter constrained scopes = []")
  case True
  with r show ?thesis by (simp add: reserve_budget_def)
next
  case False
  obtain k N where f: "fresh e L = (k, N)" by fastforce
  have c1: "core N = core L" by (rule fresh_core [OF f])
  obtain L2 where l2: "sweep_stale_request_attempts e now (Some (id_organization i)) N = Inr L2"
    and l3: "reserve_budget_in L2 i (filter constrained scopes) tokens cost ttl k None now = Inr M"
    using r False unfolding reserve_budget_def f by (auto simp: Let_def)
  have l: "taken L2 s org m = taken L s org m"
    using taken_lose [OF sweep_steps [OF l2 inv [folded ledger_inv_core [OF c1]]]] taken_core [OF c1] by simp
  obtain x where m: "M = (drop_expired (isoformat now) L2)\<lparr>lg_holds := lg_holds (drop_expired (isoformat now) L2) @
       [new_hold i tokens cost k None (isoformat now) x]\<rparr>"
    using reserve_budget_in_effect(1) [OF l3] by blast
  have "held_sum amount (lg_holds (drop_expired (isoformat now) L2)) s org = held_sum amount (lg_holds L2) s org"
    unfolding drop_expired_def by simp (rule held_sum_plain, simp)
  moreover have "\<not> scope_hold s org (new_hold i tokens cost k None (isoformat now) x)"
    by (simp add: scope_hold_def new_hold_def)
  ultimately show ?thesis unfolding l [symmetric] m by (simp add: committed_def)
qed

lemma release_taken: "taken (release_budget_reservation L reservation organization) s org m = taken L s org m"
proof (cases reservation)
  case (Some i)
  have "held_sum amount (lg_holds (release_budget_reservation L reservation organization)) s org =
      held_sum amount (lg_holds L) s org"
    unfolding release_budget_reservation_def Some by simp (rule held_sum_plain, auto)
  moreover have "lg_usage (release_budget_reservation L reservation organization) = lg_usage L"
    by (simp add: release_budget_reservation_def Some)
  ultimately show ?thesis by (simp add: committed_def)
qed (simp add: release_budget_reservation_def)

lemma refresh_taken:
  assumes "refresh_budget_reservation L now reservation ttl organization = Inr M"
  shows "taken M s org m = taken L s org m"
proof (cases reservation)
  case None
  with assms show ?thesis by (simp add: refresh_budget_reservation_def)
next
  case (Some i)
  then obtain x where m: "M = L\<lparr>lg_holds := map (\<lambda>h. if ho_id h = i \<and> in_organization organization (ho_org h)
              then h\<lparr>ho_expires := x\<rparr> else h) (lg_holds L)\<rparr>"
    using assms by (auto simp: refresh_budget_reservation_def)
  have g: "refreshes (\<lambda>h. if ho_id h = i \<and> in_organization organization (ho_org h) then h\<lparr>ho_expires := x\<rparr> else h)"
    by (auto simp: refreshes_def hold_self)
  have "held_sum amount (map (\<lambda>h. if ho_id h = i \<and> in_organization organization (ho_org h) then h\<lparr>ho_expires := x\<rparr>
      else h) (lg_holds L)) s org = held_sum amount (lg_holds L) s org"
    by (rule held_sum_refresh [OF g]) (rule amount_refresh [OF g])
  then show ?thesis unfolding m committed_def by simp
qed

lemma governed_within:
  assumes g: "governed e used pick s org m L M" and inv: "ledger_inv L" and le: "taken L s org m \<le> l" and lim: "limit s = Some l"
  shows "taken M s org m \<le> l"
  using g
proof cases
  case (gov_begin now q opts res)
  show ?thesis by (rule begin_within [OF inv gov_begin(1) le lim gov_begin(2)])
next
  case (gov_finalize now metrics_at attempt reservation organization x)
  obtain r i where r: "at_id r = attempt" and st: "settles L r (clamped ((settled_usage r x now)\<lparr>us_id := i\<rparr>)) M"
    using finalize_settles [OF inv gov_finalize(1)] by blast
  have i: "clamped ((settled_usage r x now)\<lparr>us_id := i\<rparr>) = (clamped (settled_usage r x now))\<lparr>us_id := i\<rparr>"
    by (simp add: clamped_def)
  have "r \<in> set (lg_attempts L)" using st by (simp add: settles_def)
  then have "used (clamped ((settled_usage r x now)\<lparr>us_id := i\<rparr>)) \<le> pick (at_tokens r) (at_cost r)"
    using gov_finalize(2) r by (simp add: charge_within_def i used_id)
  from settle_within [OF inv st this] le show ?thesis by (rule order_trans)
next
  case gov_unknown
  from taken_lose [OF mark_unknown_steps [OF inv this]] le show ?thesis by simp
next
  case gov_sweep
  from taken_lose [OF sweep_steps [OF this inv]] le show ?thesis by simp
next
  case (gov_record u i)
  from record_within [OF gov_record] le show ?thesis by simp
next
  case gov_secret
  from taken_core [OF record_secret_event_core [OF this]] le show ?thesis by simp
next
  case gov_reserve
  from reserve_taken [OF inv this] le show ?thesis by simp
next
  case gov_release
  from release_taken le this show ?thesis by simp
next
  case gov_refresh
  from refresh_taken [OF this] le show ?thesis by simp
next
  case gov_administer
  then have "core M = core L" by simp
  from taken_core [OF this] le show ?thesis by simp
qed

lemma governed_run_within:
  assumes "(governed e used pick s org m)\<^sup>*\<^sup>* L M" and "ledger_reachable e L" and "taken L s org m \<le> l"
    and lim: "limit s = Some l"
  shows "taken M s org m \<le> l"
proof -
  have "ledger_reachable e M \<and> taken M s org m \<le> l"
    using assms(1-3)
  proof (induction rule: rtranclp_induct)
    case (step N M)
    then show ?case
      using governed_within [OF step.hyps(2) reachable_inv _ lim] ledger_reachable.step [OF _ governed_step [OF step.hyps(2)]]
      by blast
  qed simp
  then show ?thesis by simp
qed

text \<open>From an admission under the scope on, a governed run stays within the limit.\<close>

lemma admission_then_within:
  assumes r: "ledger_reachable e L0" and b: "begin_attempt_in_store e L0 now q opts = (L, Inr a)"
    and s: "s \<in> set (ar_scopes q)" "limit s = Some l" "matches_scope s (id_actor (ar_identity q)) (id_team (ar_identity q))"
    and run: "(governed e used pick s (id_organization (ar_identity q)) (isoformat (month_start now)))\<^sup>*\<^sup>* L M"
  shows "taken M s (id_organization (ar_identity q)) (isoformat (month_start now)) \<le> l"
proof -
  have inv: "ledger_inv L0" by (rule reachable_inv [OF r])
  have t: "begin_transaction e L0 now q opts = Inr (L, a)"
    using b by (auto simp: begin_attempt_in_store_def split: sum.splits prod.splits store_error.splits)
  obtain w K where "admitted L0 now q w K L" using begin_transaction_admits [OF inv t] by blast
  from admission_within [OF inv this s]
  have "taken L s (id_organization (ar_identity q)) (isoformat (month_start now)) \<le> l" .
  moreover have "ledger_reachable e L" by (rule ledger_reachable.step [OF r ledger_step.begins [OF b]])
  ultimately show ?thesis using governed_run_within [OF run _ _ s(2)] by blast
qed

end

section \<open>Tokens and cost\<close>

interpretation token_budget: metered usage_tokens ho_tokens "\<lambda>tokens cost. tokens" rs_token_limit
proof unfold_locales
  fix K org since now tokens cost ss s l
  assume a: "check_scopes K org since now tokens cost ss = Inr ()" "s \<in> set ss" and l: "rs_token_limit s = Some l"
  show "usage_sum usage_tokens K s org since + hold_sum ho_tokens K s org now + max 0 tokens \<le> l"
    using admission_scope(1) [OF a l] .
qed (auto simp: usage_tokens_def nonnegative_usage_def nonnegative_hold_def hold_of_root_def refreshed_fields new_hold_def
    constrained_def)

interpretation cost_budget: metered us_cost ho_cost "\<lambda>tokens cost. cost" rs_cost_limit_microusd
proof unfold_locales
  fix K org since now tokens cost ss s l
  assume a: "check_scopes K org since now tokens cost ss = Inr ()" "s \<in> set ss" and l: "rs_cost_limit_microusd s = Some l"
  show "usage_sum us_cost K s org since + hold_sum ho_cost K s org now + max 0 cost \<le> l"
    using admission_scope(2) [OF a l] .
qed (auto simp: nonnegative_usage_def nonnegative_hold_def hold_of_root_def refreshed_fields new_hold_def constrained_def)

text \<open>The example: a governed run of one refused plain release after the admission.\<close>

definition example_scope :: reservation_scope where
  "example_scope = hd example_scopes"

lemma example_admission:
  "\<exists>L a. ledger_reachable example_env start_ledger \<and>
     begin_attempt_in_store example_env start_ledger example_now example_request example_options = (L, Inr a) \<and>
     core L = ([example_root], [example_opening], [], [example_hold])"
proof -
  obtain M b where b: "begin_transaction example_env start_ledger example_now example_request example_options = Inr (M, b)"
    and m: "core M = ([example_root], [example_opening], [], [example_hold])"
    using example_begins by blast
  have "begin_attempt_in_store example_env start_ledger example_now example_request example_options = (M, Inr b)"
    by (simp only: begin_attempt_in_store_def b sum.case prod.case)
  moreover have "ledger_reachable example_env start_ledger"
    by (rule ledger_reachable.start) (simp add: empty_ledger_def core_def start_ledger_def)
  ultimately show ?thesis using m by blast
qed

lemma example_scope_fields:
  "example_scope \<in> set (ar_scopes example_request)" "rs_cost_limit_microusd example_scope = Some 5000"
  "rs_token_limit example_scope = Some 1000" "id_organization (ar_identity example_request) = ''org''"
  "matches_scope example_scope (id_actor (ar_identity example_request)) (id_team (ar_identity example_request))"
  by (simp_all add: example_scope_def example_scopes_def example_request_def ledger_identity_def matches_scope_def)

lemma example_month: "isoformat (month_start example_now) = ''2026-03-01T00:00:00+00:00''"
  by code_simp

lemma governed_release_run:
  "(governed e used pick s org m)\<^sup>*\<^sup>* L (release_budget_reservation L (Some (example_uuid 0)) None)"
  by (rule r_into_rtranclp) (rule gov_release)

lemma example_release:
  "core L = ([example_root], [example_opening], [], [example_hold]) \<Longrightarrow>
     lg_holds (release_budget_reservation L (Some (example_uuid 0)) None) = [example_hold]"
  by (simp add: release_budget_reservation_def core_def example_hold_def new_hold_def)

text \<open>
  C40: Once a request is admitted under a scope with a monthly cost limit, the cost recorded in that month and the
  cost held by open attempts, stale and lost ones included, stay within the limit together, through any
  sequence of admissions, refusals, settlements, sweeps, records and plain reservations in which the requests
  of the scope are admitted under it in that month, no settlement charges more than its reservation, and usage
  recorded outside an attempt is free.
\<close>
theorem cost_limit_holds:
  assumes "ledger_reachable e L0" "begin_attempt_in_store e L0 now q opts = (L, Inr a)" "s \<in> set (ar_scopes q)"
    "rs_cost_limit_microusd s = Some l" "matches_scope s (id_actor (ar_identity q)) (id_team (ar_identity q))"
    "(governed e us_cost (\<lambda>tokens cost. cost) s (id_organization (ar_identity q)) (isoformat (month_start now)))\<^sup>*\<^sup>* L M"
  shows "committed us_cost ho_cost M s (id_organization (ar_identity q)) (isoformat (month_start now)) \<le> l"
  by (rule cost_budget.admission_then_within [OF assms])

theorem cost_limit_holds_witness:
  "\<exists>M. lg_holds M = [example_hold] \<and> committed us_cost ho_cost M example_scope ''org'' ''2026-03-01T00:00:00+00:00'' \<le> 5000"
proof -
  obtain L a where r: "ledger_reachable example_env start_ledger"
    "begin_attempt_in_store example_env start_ledger example_now example_request example_options = (L, Inr a)"
    and c: "core L = ([example_root], [example_opening], [], [example_hold])"
    using example_admission by blast
  note f = example_scope_fields
  show ?thesis
    using cost_limit_holds [OF r f(1,2,5) governed_release_run] example_release [OF c] f(4) example_month by auto
qed

text \<open>
  The same for a monthly token limit: the input and output tokens of the month and the tokens held by open
  attempts stay within it from the admission on.
\<close>
theorem token_limit_holds:
  assumes "ledger_reachable e L0" "begin_attempt_in_store e L0 now q opts = (L, Inr a)" "s \<in> set (ar_scopes q)"
    "rs_token_limit s = Some l" "matches_scope s (id_actor (ar_identity q)) (id_team (ar_identity q))"
    "(governed e usage_tokens (\<lambda>tokens cost. tokens) s (id_organization (ar_identity q)) (isoformat (month_start now)))\<^sup>*\<^sup>* L M"
  shows "committed usage_tokens ho_tokens M s (id_organization (ar_identity q)) (isoformat (month_start now)) \<le> l"
  by (rule token_budget.admission_then_within [OF assms])

theorem token_limit_holds_witness:
  "\<exists>M. lg_holds M = [example_hold] \<and>
     committed usage_tokens ho_tokens M example_scope ''org'' ''2026-03-01T00:00:00+00:00'' \<le> 1000"
proof -
  obtain L a where r: "ledger_reachable example_env start_ledger"
    "begin_attempt_in_store example_env start_ledger example_now example_request example_options = (L, Inr a)"
    and c: "core L = ([example_root], [example_opening], [], [example_hold])"
    using example_admission by blast
  note f = example_scope_fields
  show ?thesis
    using token_limit_holds [OF r f(1,3,5) governed_release_run] example_release [OF c] f(4) example_month by auto
qed

end
