(* ===== verification/Budget_Ceiling.thy ===== *)
theory Budget_Ceiling
  imports Work_Budget
begin

text \<open>
  What the enforcement of work budgets is worth: after it has bound an attempt to its plans, the exposure of
  every plan (the reservations of open attempts and the committed costs of settled ones, as exact numbers)
  is within the amount of the plan.
\<close>

section \<open>Exposure\<close>

definition binding_value :: "attempt_outcome \<Rightarrow> jdict \<Rightarrow> rat" where
  "binding_value outcome b = (case binding_outcome outcome b of
      None \<Rightarrow> 0
    | Some oc \<Rightarrow> (case binding_amount b oc of None \<Rightarrow> 0 | Some d \<Rightarrow> dec_value d))"

definition exposure :: "attempt_outcome \<Rightarrow> budget_tables \<Rightarrow> jdict \<Rightarrow> rat" where
  "exposure outcome bt plan = sum_list (map (binding_value outcome) (filter (bound_to plan) (bt_bindings bt)))"

lemma sum_amounts_value:
  "sum_amounts outcome acc bs = Some d \<Longrightarrow> dec_value d = dec_value acc + sum_list (map (binding_value outcome) bs)"
proof (induction bs arbitrary: acc)
  case (Cons b bs)
  show ?case
  proof (cases "binding_outcome outcome b")
    case None
    then show ?thesis using Cons by (simp add: binding_value_def)
  next
    case (Some oc)
    then obtain a acc' where a: "binding_amount b oc = Some a" "exact_add acc a = Some acc'"
      "sum_amounts outcome acc' bs = Some d"
      using Cons.prems by (auto split: option.splits)
    then show ?thesis using Cons.IH [OF a(3)] exact_add_value [OF a(2)] Some by (simp add: binding_value_def)
  qed
qed simp

lemma sum_list_insort: "sum_list (map f (insort_key k x xs)) = f x + sum_list (map f xs)" for f :: "'a \<Rightarrow> rat"
  by (induction xs) auto

lemma sum_list_sort_key: "sum_list (map f (sort_key k xs)) = sum_list (map f xs)" for f :: "'a \<Rightarrow> rat"
  by (induction xs) (simp_all add: sum_list_insort)

lemma sum_list_filter_zero:
  "(\<And>x. P x \<Longrightarrow> \<not> Q x \<Longrightarrow> f x = 0) \<Longrightarrow> sum_list (map f (filter (\<lambda>x. P x \<and> Q x) xs)) = sum_list (map f (filter P xs))"
  for f :: "'a \<Rightarrow> rat"
  by (induction xs) auto

text \<open>What the enforcement calls consumed is the exposure, exactly.\<close>

lemma consumed_exposure:
  assumes "consumed outcome bt plan = Some d"
  shows "dec_value d = exposure outcome bt plan"
proof -
  let ?F = "filter (\<lambda>b. bound_to plan b \<and> binding_outcome outcome b \<noteq> None) (bt_bindings bt)"
  let ?S = "sort_key (\<lambda>b. text_at b ''request_attempt_id'') ?F"
  have short: "\<not> 10000 \<le> length (plan_bindings outcome bt plan)"
    and s: "sum_amounts outcome (Dec False 0 0) (plan_bindings outcome bt plan) = Some d"
    using assms by (auto simp: consumed_def Let_def split: if_splits)
  then have "plan_bindings outcome bt plan = ?S" by (simp add: plan_bindings_def)
  then have "dec_value d = sum_list (map (binding_value outcome) ?S)"
    using sum_amounts_value [OF s] by simp
  also have "\<dots> = sum_list (map (binding_value outcome) ?F)" by (rule sum_list_sort_key)
  also have "\<dots> = exposure outcome bt plan"
    unfolding exposure_def
  proof (rule sum_list_filter_zero)
    show "binding_value outcome b = 0" if "\<not> binding_outcome outcome b \<noteq> None" for b
      using that by (cases "binding_outcome outcome b") (auto simp: binding_value_def)
  qed
  finally show ?thesis .
qed

section \<open>The ceiling\<close>

lemma reserved_value:
  assumes "reservation_amount cost = Inr reserved"
  shows "decimal_text (Text reserved) = Inr reserved" "0 \<le> dec_value (decimal_of_text reserved)"
proof -
  have c: "0 \<le> cost" and t: "text_of_decimal (micro_decimal cost) = Inr reserved"
    using assms by (auto simp: reservation_amount_def split: if_splits)
  show "decimal_text (Text reserved) = Inr reserved" by (rule text_idempotent [OF t])
  show "0 \<le> dec_value (decimal_of_text reserved)"
    unfolding text_denotes(2) [OF t] using c less_imp_le [OF pow10_pos [of "- 6"]] by (simp add: micro_decimal_def)
qed

lemma enforce_plan_step:
  assumes "enforce_plan sha outcome pb org attempt provider model version reserved now c bt plan = Inr bt'"
  shows "\<exists>event used. bt' = bt\<lparr>bt_bindings := bt_bindings bt @
       [budget_binding_row sha pb event org attempt provider model version reserved now c plan]\<rparr> \<and>
     consumed outcome bt plan = Some used \<and> dec_value used + dec_value (decimal_of_text reserved) \<le> amount_at plan ''amount''"
  using assms exact_add_value
  by (fastforce simp: enforce_plan_def Let_def split: if_splits option.splits bool.splits)

definition accounting_key :: "jdict \<Rightarrow> json list" where
  "accounting_key p = map (dget p) accounting_fields"

lemma bound_to_key: "bound_to plan b = (accounting_key b = accounting_key plan)"
  by (simp add: bound_to_def accounting_key_def)

lemma new_binding_key:
  "dget plan ''organization_id'' = JStr org \<Longrightarrow>
     accounting_key (budget_binding_row sha pb event org attempt provider model version reserved now c plan) = accounting_key plan"
  by (simp add: accounting_key_def accounting_fields_def budget_binding_row_def)

lemma new_binding_value:
  assumes "outcome org attempt = Some (''pending'', x)" and r: "reservation_amount cost = Inr reserved"
  shows "binding_value outcome (budget_binding_row sha pb event org attempt provider model version reserved now c plan) =
     dec_value (decimal_of_text reserved)"
  using assms(1) reserved_value [OF r]
  by (simp add: binding_value_def binding_outcome_def budget_binding_row_def text_at_def binding_amount_def)

lemma enforce_plan_exposure:
  assumes e: "enforce_plan sha outcome pb org attempt provider model version reserved now c bt plan = Inr bt'"
    and org: "dget plan ''organization_id'' = JStr org"
    and o: "outcome org attempt = Some (''pending'', x)" and r: "reservation_amount cost = Inr reserved"
  shows "exposure outcome bt' plan \<le> amount_at plan ''amount''"
    and "accounting_key q \<noteq> accounting_key plan \<Longrightarrow> exposure outcome bt' q = exposure outcome bt q"
proof -
  obtain event used where b: "bt' = bt\<lparr>bt_bindings := bt_bindings bt @
       [budget_binding_row sha pb event org attempt provider model version reserved now c plan]\<rparr>"
    and used: "consumed outcome bt plan = Some used"
      "dec_value used + dec_value (decimal_of_text reserved) \<le> amount_at plan ''amount''"
    using enforce_plan_step [OF e] by blast
  note k = new_binding_key [OF org, of sha pb event attempt provider model version reserved now c]
  show "exposure outcome bt' plan \<le> amount_at plan ''amount''"
    using used(2) consumed_exposure [OF used(1)] new_binding_value [of outcome org attempt, OF o r]
    unfolding b exposure_def bound_to_key by (simp add: k)
  show "exposure outcome bt' q = exposure outcome bt q" if "accounting_key q \<noteq> accounting_key plan"
    using that unfolding b exposure_def bound_to_key by (auto simp: k)
qed

lemma enforce_plans_exposure:
  assumes "enforce_plans (enforce_plan sha outcome pb org attempt provider model version reserved now c) bt plans = Inr bt'"
    and "distinct (map accounting_key plans)" and "\<forall>p \<in> set plans. dget p ''organization_id'' = JStr org"
    and o: "outcome org attempt = Some (''pending'', x)" and r: "reservation_amount cost = Inr reserved"
  shows "(\<forall>p \<in> set plans. exposure outcome bt' p \<le> amount_at p ''amount'') \<and>
     (\<forall>q. accounting_key q \<notin> accounting_key ` set plans \<longrightarrow> exposure outcome bt' q = exposure outcome bt q)"
  using assms(1-3)
proof (induction plans arbitrary: bt)
  case (Cons p ps)
  then obtain bt1 where b1: "enforce_plan sha outcome pb org attempt provider model version reserved now c bt p = Inr bt1"
    and b2: "enforce_plans (enforce_plan sha outcome pb org attempt provider model version reserved now c) bt1 ps = Inr bt'"
    by auto
  have ih: "(\<forall>p \<in> set ps. exposure outcome bt' p \<le> amount_at p ''amount'') \<and>
     (\<forall>q. accounting_key q \<notin> accounting_key ` set ps \<longrightarrow> exposure outcome bt' q = exposure outcome bt1 q)"
    by (rule Cons.IH [OF b2]) (use Cons.prems in simp_all)
  have org: "dget p ''organization_id'' = JStr org" using Cons.prems(3) by simp
  note s = enforce_plan_exposure [OF b1 org o r]
  have new: "accounting_key p \<notin> accounting_key ` set ps" using Cons.prems(2) by simp
  then have "exposure outcome bt' p \<le> amount_at p ''amount''" using ih s(1) by simp
  moreover have "exposure outcome bt' q = exposure outcome bt q"
    if "accounting_key q \<notin> accounting_key ` set (p # ps)" for q
    using ih s(2) [of q] that by simp
  ultimately show ?case using ih by simp
qed simp

section \<open>The plans in force\<close>

lemma effective_rows_shape:
  "effective_rows sha bt now ps = Inr rows \<Longrightarrow> rows = map (effective_row bt) (filter (in_window bt now) ps) \<and>
     (\<forall>p \<in> set ps. pointer_sound sha bt now p)"
  by (induction ps arbitrary: rows) (auto split: if_splits)

lemma effective_row_columns:
  assumes "f \<notin> {''activation_generation'', ''policy_version'', ''policy_digest''}"
  shows "dget (effective_row bt p) f = dget (plan_of bt p) f"
  using assms by (simp add: effective_row_def dget_def map_of_append map_add_def split: option.splits)

lemma effective_row_key:
  assumes "pointer_sound sha bt now p"
  shows "dget (effective_row bt p) ''organization_id'' = dget p ''organization_id''"
    and "dget (effective_row bt p) ''budget_plan_id'' = dget p ''budget_plan_id''"
proof -
  have "map (dget (plan_of bt p)) [''organization_id'', ''budget_plan_id'', ''version''] =
      map (dget p) [''organization_id'', ''budget_plan_id'', ''active_version'']"
    using assms unfolding pointer_sound_def validate_active_budget_rows_def by (elim conjE)
  then show "dget (effective_row bt p) ''organization_id'' = dget p ''organization_id''"
    "dget (effective_row bt p) ''budget_plan_id'' = dget p ''budget_plan_id''"
    by (simp_all add: effective_row_columns)
qed

text \<open>The primary key of the pointers: one per organization and plan.\<close>

definition pointers_keyed :: "budget_tables \<Rightarrow> bool" where
  "pointers_keyed bt = distinct (map (\<lambda>p. (dget p ''organization_id'', dget p ''budget_plan_id'')) (bt_pointers bt))"

lemma distinct_map_filter_key: "distinct (map k xs) \<Longrightarrow> distinct (map k (filter P xs))"
  by (induction xs) auto

lemma distinct_map_sort_key: "distinct (map k xs) \<Longrightarrow> distinct (map k (sort_key f xs))"
  by (simp add: distinct_map)

lemma distinct_map_take: "distinct (map k xs) \<Longrightarrow> distinct (map k (take n xs))"
  by (simp add: take_map [symmetric])

lemma distinct_map_finer:
  assumes d: "distinct (map k xs)" and f: "\<And>x y. x \<in> set xs \<Longrightarrow> y \<in> set xs \<Longrightarrow> k' x = k' y \<Longrightarrow> k x = k y"
  shows "distinct (map k' xs)"
proof -
  have "inj_on k' (set xs)"
  proof (rule inj_onI)
    fix x y
    assume xy: "x \<in> set xs" "y \<in> set xs" "k' x = k' y"
    have "inj_on k (set xs)" using d by (simp add: distinct_map)
    from inj_onD [OF this f [OF xy] xy(1,2)] show "x = y" .
  qed
  then show ?thesis using d by (simp add: distinct_map)
qed

lemma effective_plans_keyed:
  assumes e: "effective_plan_rows sha bt org now = Inr plans" and k: "pointers_keyed bt"
  shows "distinct (map accounting_key plans)" and "p \<in> set plans \<Longrightarrow> dget p ''organization_id'' = JStr org"
proof -
  let ?ps = "organization_pointers bt org" let ?qs = "filter (in_window bt now) ?ps"
  have s: "plans = map (effective_row bt) ?qs" and sound: "\<forall>p \<in> set ?ps. pointer_sound sha bt now p"
    using e effective_rows_shape [of sha bt now ?ps plans] by (auto simp: effective_plan_rows_def Let_def split: if_splits)
  have orgs: "dget p ''organization_id'' = JStr org" if "p \<in> set ?ps" for p
    using set_take_subset that by (force simp: organization_pointers_def)
  have "distinct (map (\<lambda>p. (dget p ''organization_id'', dget p ''budget_plan_id'')) ?qs)"
    using k unfolding organization_pointers_def pointers_keyed_def
    by (intro distinct_map_filter_key distinct_map_take distinct_map_sort_key)
  then have "distinct (map (\<lambda>p. accounting_key (effective_row bt p)) ?qs)"
  proof (rule distinct_map_finer)
    fix x y
    assume x: "x \<in> set ?qs" and y: "y \<in> set ?qs"
      and key: "accounting_key (effective_row bt x) = accounting_key (effective_row bt y)"
    have sx: "pointer_sound sha bt now x" and sy: "pointer_sound sha bt now y" using x y sound by simp_all
    show "(dget x ''organization_id'', dget x ''budget_plan_id'') = (dget y ''organization_id'', dget y ''budget_plan_id'')"
      using key effective_row_key [OF sx] effective_row_key [OF sy] by (simp add: accounting_key_def accounting_fields_def)
  qed
  then show "distinct (map accounting_key plans)" unfolding s by (simp add: comp_def)
  show "dget p ''organization_id'' = JStr org" if p: "p \<in> set plans" for p
  proof -
    obtain q where q: "p = effective_row bt q" "q \<in> set ?ps" using p unfolding s by auto
    have "pointer_sound sha bt now q" using sound q(2) by blast
    from effective_row_key(1) [OF this] orgs [OF q(2)] q(1) show ?thesis by simp
  qed
qed

lemma plans_for_chain_keyed:
  "distinct (map k plans) \<Longrightarrow> distinct (map k (plans_for_chain plans chain))"
  "p \<in> set (plans_for_chain plans chain) \<Longrightarrow> p \<in> set plans"
  by (simp_all add: plans_for_chain_def Let_def distinct_map_sort_key distinct_map_filter_key)


definition example_plan_columns :: jdict where
  "example_plan_columns =
     [(''organization_id'', JStr ''org''), (''budget_plan_id'', JStr ''plan''), (''work_scope_id'', JStr ''case''),
      (''actor_id'', JStr ''ann''), (''version'', JInt 1), (''work_scope_version'', JInt 1),
      (''window_start_at'', JStr ''2026-03-01T00:00:00.000000Z''), (''window_end_at'', JStr ''2026-04-01T00:00:00.000000Z''),
      (''created_at'', JStr ''2026-03-01T00:00:00.000000Z''), (''currency'', JStr ''USD''), (''amount'', JStr ''10''),
      (''allowed_models_json'', JNull), (''output_token_cap'', JNull), (''per_request_cost_cap'', JNull),
      (''supersedes_version'', JNull), (''reason_code'', JStr ''created''), (''sequence'', JInt 1),
      (''content_digest'', JStr example_digest)]"

definition example_activation :: jdict where
  "example_activation =
     [(''organization_id'', JStr ''org''), (''budget_plan_id'', JStr ''plan''), (''actor_id'', JStr ''ann''),
      (''policy_version'', JStr ''v1''), (''activation_event_id'', JStr (replicate 32 (CHR ''a''))),
      (''policy_digest'', JStr example_digest), (''activation_generation'', JInt 1), (''current_version'', JInt 1),
      (''previous_version'', JNull), (''reason_code'', JStr ''accepted''),
      (''committed_at'', JStr ''2026-03-02T00:00:00.000000Z'')]"

definition example_pointer :: jdict where
  "example_pointer =
     [(''organization_id'', JStr ''org''), (''budget_plan_id'', JStr ''plan''), (''active_version'', JInt 1),
      (''activation_generation'', JInt 1), (''current_activation_event_id'', JStr (replicate 32 (CHR ''a''))),
      (''changed_at'', JStr ''2026-03-02T00:00:00.000000Z'')]"

definition example_earlier_binding :: jdict where
  "example_earlier_binding =
     [(''organization_id'', JStr ''org''), (''request_attempt_id'', JStr ''earlier''), (''budget_plan_id'', JStr ''plan''),
      (''window_start_at'', JStr ''2026-03-01T00:00:00.000000Z''), (''window_end_at'', JStr ''2026-04-01T00:00:00.000000Z''),
      (''currency'', JStr ''USD''), (''reserved_amount'', JStr ''9.999'')]"

definition example_budgets :: budget_tables where
  "example_budgets = \<lparr>bt_plans = [example_plan_columns], bt_activations = [example_activation],
     bt_pointers = [example_pointer], bt_scopes = [], bt_attribution_audit = [], bt_attributions = [],
     bt_bindings = [example_earlier_binding], bt_audit = []\<rparr>"

definition example_use_case :: prepared_budget where
  "example_use_case = \<lparr>pb_attribution = Some ''event'', pb_chain =
     [[(''work_scope_id'', JStr ''case''), (''version'', JInt 1), (''kind'', JStr ''use_case'')]]\<rparr>"

definition example_work :: work_budget_context where
  "example_work = \<lparr>wc_scope = Some ''case'', wc_scope_version = Some 1, wc_confidence = ''explicit_authorized'',
     wc_reason = ''bound'', wc_output_tokens = 100, wc_output_bounded = True, wc_input_bounded = True,
     wc_policy_version = ''v1'', wc_policy_digest = example_digest, wc_card_id = ''card'', wc_card_version = 1,
     wc_card_digest = example_digest, wc_card_currency = ''USD''\<rparr>"

definition example_outcomes :: attempt_outcome where
  "example_outcomes organization attempt = Some (''pending'', None)"

definition example_plan :: jdict where
  "example_plan = effective_row example_budgets example_pointer"

lemma example_enforced: "is_ok (enforce_and_bind_work_budget example_sha example_outcomes example_budgets (Some example_use_case)
    ''org'' ''new'' ''openai'' ''up'' None 700 ''2026-03-04T00:00:00.000000Z'' (Some example_work))"
  by code_simp

lemma example_in_force:
  "effective_plan_rows example_sha example_budgets ''org'' ''2026-03-04T00:00:00.000000Z'' = Inr [example_plan]"
  by code_simp

lemma example_plan_applies: "plans_for_chain [example_plan] (pb_chain example_use_case) = [example_plan]"
  by code_simp

lemma example_plan_amount: "amount_at example_plan ''amount'' = 10"
  by code_simp


end
