(* ===== verification/Redaction.thy ===== *)
theory Redaction
  imports Json_Text "HOL-Library.Sublist"
begin

text \<open>
  The secret redactor (\<^verbatim>\<open>src/hormuz/redaction.py\<close>): protected values and the built-in patterns are
  replaced in every string of a request, under a budget that follows the exact size of the request as ASCII
  JSON. The patterns are written out with a small matcher of their own: the alternatives of an expression are
  tried in the order of \<^verbatim>\<open>re\<close>, and a repetition is one of a character class, greedy or lazy. Text is
  Latin-1, and the values are those of \<^verbatim>\<open>json.loads\<close>.
\<close>

section \<open>Patterns\<close>

text \<open>A position in the text: the character before it, if any, and what follows.\<close>

type_synonym spot = "char option \<times> string"

datatype pattern =
    One "char \<Rightarrow> bool"
  | Times "char \<Rightarrow> bool" nat "nat option" bool
  | Then pattern pattern
  | Either pattern pattern
  | Empty
  | Not_Behind "char \<Rightarrow> bool"
  | Not_Ahead "char \<Rightarrow> bool"
  | Word_Edge

text \<open>The positions after 0, 1, 2, ... characters of a class.\<close>

fun runs :: "(char \<Rightarrow> bool) \<Rightarrow> char option \<Rightarrow> string \<Rightarrow> spot list" where
  "runs P p [] = [(p, [])]"
| "runs P p (c # cs) = (p, c # cs) # (if P c then runs P (Some c) cs else [])"

definition up_to :: "nat option \<Rightarrow> 'a list \<Rightarrow> 'a list" where
  "up_to hi xs = (case hi of None \<Rightarrow> xs | Some n \<Rightarrow> take (Suc n) xs)"

definition edge :: "spot \<Rightarrow> bool" where
  "edge s = ((case fst s of None \<Rightarrow> False | Some c \<Rightarrow> is_word_char c) \<noteq> (case snd s of [] \<Rightarrow> False | c # _ \<Rightarrow> is_word_char c))"

text \<open>The ends of the matches at a position, in the order in which they are tried.\<close>

fun ends :: "pattern \<Rightarrow> spot \<Rightarrow> spot list" where
  "ends (One P) s = (case snd s of [] \<Rightarrow> [] | c # cs \<Rightarrow> if P c then [(Some c, cs)] else [])"
| "ends (Times P lo hi greedy) s =
     (let found = drop lo (up_to hi (runs P (fst s) (snd s))) in if greedy then rev found else found)"
| "ends (Then a b) s = concat (map (ends b) (ends a s))"
| "ends (Either a b) s = ends a s @ ends b s"
| "ends Empty s = [s]"
| "ends (Not_Behind P) s = (case fst s of Some c \<Rightarrow> if P c then [] else [s] | None \<Rightarrow> [s])"
| "ends (Not_Ahead P) s = (case snd s of c # _ \<Rightarrow> if P c then [] else [s] | [] \<Rightarrow> [s])"
| "ends Word_Edge s = (if edge s then [s] else [])"

fun sequence :: "pattern list \<Rightarrow> pattern" where
  "sequence [] = Empty"
| "sequence (p # ps) = Then p (sequence ps)"

definition literal :: "string \<Rightarrow> pattern" where
  "literal s = sequence (map (\<lambda>c. One (\<lambda>d. d = c)) s)"

definition between :: "nat \<Rightarrow> nat \<Rightarrow> char \<Rightarrow> bool" where
  "between lo hi c = (lo \<le> ord_of c \<and> ord_of c \<le> hi)"

definition upper_digit :: "char \<Rightarrow> bool" where
  "upper_digit c = (between 65 90 c \<or> between 48 57 c)"

definition alnum :: "char \<Rightarrow> bool" where
  "alnum c = (upper_digit c \<or> between 97 122 c)"

definition token_char :: "char \<Rightarrow> bool" where
  "token_char c = (alnum c \<or> c = CHR ''_'' \<or> c = CHR ''-'')"

definition optional_part :: "pattern \<Rightarrow> pattern" where
  "optional_part p = Either p Empty"

definition exactly :: "(char \<Rightarrow> bool) \<Rightarrow> nat \<Rightarrow> pattern" where
  "exactly P n = Times P n (Some n) True"

definition at_least :: "(char \<Rightarrow> bool) \<Rightarrow> nat \<Rightarrow> pattern" where
  "at_least P n = Times P n None True"

definition any_of :: "string \<Rightarrow> pattern" where
  "any_of s = One (\<lambda>c. c \<in> set s)"

definition guarded :: "pattern list \<Rightarrow> pattern" where
  "guarded ps = sequence ([Not_Behind token_char] @ ps @ [exactly token_char 43, Not_Ahead token_char])"

definition edged :: "pattern list \<Rightarrow> pattern" where
  "edged ps = sequence ([Word_Edge] @ ps @ [Word_Edge])"

definition key_label :: pattern where
  "key_label = optional_part (sequence [at_least upper_digit 1, literal '' ''])"

definition builtin_patterns :: "(string \<times> pattern) list" where
  "builtin_patterns =
     [(''hormuz_console_credential'', guarded [literal ''hox_c'',
         optional_part (Either (literal ''s'') (literal ''f'')), literal ''_'']),
      (''hormuz_invitation_credential'', guarded [literal ''hox_i_'']),
      (''hormuz_session_credential'', guarded [literal ''hox_'', any_of ''ar'', literal ''_'']),
      (''private_key'', sequence [literal ''-----BEGIN '', key_label, literal ''PRIVATE KEY-----'',
         Times (\<lambda>_. True) 0 None False, literal ''-----END '', key_label, literal ''PRIVATE KEY-----'']),
      (''anthropic_api_key'', edged [literal ''sk-ant-'', at_least token_char 20]),
      (''openai_api_key'', edged [literal ''sk-'', Either (literal ''proj-'') (literal ''svcacct-''), at_least token_char 20]),
      (''github_token'', edged [Either
         (sequence [literal ''gh'', any_of ''pousr'', literal ''_'', at_least alnum 20])
         (sequence [literal ''github_pat_'', at_least (\<lambda>c. alnum c \<or> c = CHR ''_'') 20])]),
      (''aws_access_key_id'', edged [Either (literal ''AKIA'') (literal ''ASIA''), exactly upper_digit 16]),
      (''google_api_key'', edged [literal ''AIza'', exactly token_char 35]),
      (''slack_token'', edged [literal ''xox'', any_of ''baprs'', literal ''-'',
         at_least (\<lambda>c. alnum c \<or> c = CHR ''-'') 20])]"

section \<open>Cutting a text\<close>

text \<open>A text is cut into the characters that stay and the matches that go, from left to right.\<close>

datatype piece = Keep char | Cut string

fun pieces_from :: "nat \<Rightarrow> (spot \<Rightarrow> nat) \<Rightarrow> char option \<Rightarrow> string \<Rightarrow> piece list" where
  "pieces_from 0 f p s = map Keep s"
| "pieces_from (Suc n) f p [] = []"
| "pieces_from (Suc n) f p (c # cs) =
     (let k = f (p, c # cs) in
      if k = 0 then Keep c # pieces_from n f (Some c) cs
      else Cut (take k (c # cs)) # pieces_from n f (Some (last (take k (c # cs)))) (drop k (c # cs)))"

lemma pieces_from_code [code]:
  "pieces_from n f p s = (if n = 0 then map Keep s else case s of [] \<Rightarrow> []
     | c # cs \<Rightarrow>
        (let k = f (p, c # cs) in
         if k = 0 then Keep c # pieces_from (n - 1) f (Some c) cs
         else Cut (take k (c # cs)) # pieces_from (n - 1) f (Some (last (take k (c # cs)))) (drop k (c # cs))))"
  by (cases n; cases s) (simp_all add: Let_def)

text \<open>The length of the match at a position: of a protected value, of a pattern; 0 is none.\<close>

definition value_length :: "string \<Rightarrow> spot \<Rightarrow> nat" where
  "value_length secret s = (if prefix secret (snd s) then length secret else 0)"

definition pattern_length :: "pattern \<Rightarrow> spot \<Rightarrow> nat" where
  "pattern_length r s = (case ends r s of [] \<Rightarrow> 0 | e # _ \<Rightarrow> length (snd s) - length (snd e))"

definition pieces :: "(spot \<Rightarrow> nat) \<Rightarrow> string \<Rightarrow> piece list" where
  "pieces f s = pieces_from (length s) f None s"

text \<open>\<^verbatim>\<open>replace\<close> of the empty string puts the replacement between all characters.\<close>

definition value_pieces :: "string \<Rightarrow> string \<Rightarrow> piece list" where
  "value_pieces secret s =
     (if secret = [] then Cut [] # concat (map (\<lambda>c. [Keep c, Cut []]) s) else pieces (value_length secret) s)"

definition replacement :: string where
  "replacement = ''[REDACTED:HORMUZ_SECRET]''"

fun redacted_piece :: "piece \<Rightarrow> string" where
  "redacted_piece (Keep c) = [c]"
| "redacted_piece (Cut m) = replacement"

definition redacted :: "piece list \<Rightarrow> string" where
  "redacted ps = concat (map redacted_piece ps)"

fun cut_of :: "piece \<Rightarrow> string option" where
  "cut_of (Keep c) = None"
| "cut_of (Cut m) = Some m"

definition cuts :: "piece list \<Rightarrow> string list" where
  "cuts ps = List.map_filter cut_of ps"

definition string_size :: "string \<Rightarrow> int" where
  "string_size s = int (length (quote True s)) - 2"

definition growth :: "piece list \<Rightarrow> int" where
  "growth ps = sum_list (map (\<lambda>m. int (length replacement) - string_size m) (cuts ps))"

section \<open>The redactor\<close>

record redactor =
  rd_mode :: string
  rd_builtins :: bool
  rd_values :: "(string \<times> string) list"
  rd_limit :: "int option"
  rd_reject_keys :: bool

text \<open>The budget: the size so far and the ceiling; \<open>None\<close> when there is no limit.\<close>

type_synonym size_budget = "(int \<times> int) option"

definition limit_error :: string where
  "limit_error = ''RedactionLimitError''"

definition resize :: "int \<Rightarrow> size_budget \<Rightarrow> size_budget res" where
  "resize delta b = (case b of
      None \<Rightarrow> Inr None
    | Some (used, most) \<Rightarrow> if most < used + delta then Inl limit_error else Inr (Some (used + delta, most)))"

record 'a transformed =
  tf_value :: 'a
  tf_count :: nat
  tf_rules :: "string list"
  tf_budget :: size_budget

text \<open>One rule over a string: its cuts are replaced after the budget has been charged for them.\<close>

definition apply_rule :: "string \<Rightarrow> (string \<Rightarrow> piece list) \<Rightarrow> string transformed \<Rightarrow> string transformed res" where
  "apply_rule name cutter t =
     (let ps = cutter (tf_value t); n = length (cuts ps) in
      if n = 0 then Inr t
      else rbind (resize (growth ps) (tf_budget t)) (\<lambda>b.
        Inr \<lparr>tf_value = redacted ps, tf_count = tf_count t + n, tf_rules = tf_rules t @ [name], tf_budget = b\<rparr>))"

fun apply_rules :: "(string \<times> (string \<Rightarrow> piece list)) list \<Rightarrow> string transformed \<Rightarrow> string transformed res" where
  "apply_rules [] t = Inr t"
| "apply_rules ((name, cutter) # rs) t = rbind (apply_rule name cutter t) (apply_rules rs)"

definition rules_of :: "redactor \<Rightarrow> (string \<times> (string \<Rightarrow> piece list)) list" where
  "rules_of r = map (\<lambda>(name, secret). (name, value_pieces secret)) (rd_values r) @
     (if rd_builtins r then map (\<lambda>(name, p). (name, pieces (pattern_length p))) builtin_patterns else [])"

definition transform_string :: "redactor \<Rightarrow> string \<Rightarrow> size_budget \<Rightarrow> string transformed res" where
  "transform_string r s b = apply_rules (rules_of r) \<lparr>tf_value = s, tf_count = 0, tf_rules = [], tf_budget = b\<rparr>"

definition protected_key :: "redactor \<Rightarrow> string \<Rightarrow> bool" where
  "protected_key r key = (rd_reject_keys r \<and>
     ((\<exists>v \<in> set (rd_values r). sublist (snd v) key) \<or>
      (rd_builtins r \<and> (\<exists>p \<in> set builtin_patterns. cuts (pieces (pattern_length (snd p)) key) \<noteq> []))))"

definition max_json_depth :: nat where
  "max_json_depth = 100"

definition depth_error :: string where
  "depth_error = ''RedactionError''"

definition at_depth :: "nat \<Rightarrow> 'a res \<Rightarrow> 'a res" where
  "at_depth depth x = (if max_json_depth < depth then Inl depth_error else x)"

definition with_value :: "('a \<Rightarrow> 'b) \<Rightarrow> 'a transformed \<Rightarrow> 'b transformed" where
  "with_value f t = \<lparr>tf_value = f (tf_value t), tf_count = tf_count t, tf_rules = tf_rules t, tf_budget = tf_budget t\<rparr>"

definition untouched :: "'a \<Rightarrow> size_budget \<Rightarrow> 'a transformed" where
  "untouched v b = \<lparr>tf_value = v, tf_count = 0, tf_rules = [], tf_budget = b\<rparr>"

definition joined_with :: "('a \<Rightarrow> 'b \<Rightarrow> 'c) \<Rightarrow> 'a transformed \<Rightarrow> 'b transformed \<Rightarrow> 'c transformed" where
  "joined_with f t u = \<lparr>tf_value = f (tf_value t) (tf_value u), tf_count = tf_count t + tf_count u,
     tf_rules = tf_rules t @ tf_rules u, tf_budget = tf_budget u\<rparr>"

fun transform :: "redactor \<Rightarrow> nat \<Rightarrow> json \<Rightarrow> size_budget \<Rightarrow> json transformed res"
and transform_items :: "redactor \<Rightarrow> nat \<Rightarrow> json list \<Rightarrow> size_budget \<Rightarrow> json list transformed res"
and transform_members :: "redactor \<Rightarrow> nat \<Rightarrow> jdict \<Rightarrow> size_budget \<Rightarrow> jdict transformed res" where
  "transform r depth (JStr s) b = at_depth depth (rbind (transform_string r s b) (\<lambda>t. Inr (with_value JStr t)))"
| "transform r depth (JList xs) b = at_depth depth (rbind (transform_items r depth xs b) (\<lambda>t. Inr (with_value JList t)))"
| "transform r depth (JDict d) b = at_depth depth (rbind (transform_members r depth d b) (\<lambda>t. Inr (with_value JDict t)))"
| "transform r depth JNull b = at_depth depth (Inr (untouched JNull b))"
| "transform r depth (JBool x) b = at_depth depth (Inr (untouched (JBool x) b))"
| "transform r depth (JInt i) b = at_depth depth (Inr (untouched (JInt i) b))"
| "transform r depth (JFloat q) b = at_depth depth (Inr (untouched (JFloat q) b))"
| "transform_items r depth [] b = Inr (untouched [] b)"
| "transform_items r depth (x # xs) b =
     rbind (transform r (Suc depth) x b) (\<lambda>t. rbind (transform_items r depth xs (tf_budget t)) (\<lambda>u.
       Inr (joined_with (#) t u)))"
| "transform_members r depth [] b = Inr (untouched [] b)"
| "transform_members r depth ((k, x) # d) b =
     (if protected_key r k then Inl ''RedactionKeyError''
      else rbind (transform r (Suc depth) x b) (\<lambda>t. rbind (transform_members r depth d (tf_budget t)) (\<lambda>u.
       Inr (joined_with (\<lambda>v vs. (k, v) # vs) t u))))"

record redaction_result =
  rr_value :: jdict
  rr_count :: nat
  rr_rules :: "string list"

definition json_size :: "json \<Rightarrow> int" where
  "json_size v = int (length (dump True v))"

text \<open>The size of a value with a non-finite number cannot be taken: \<^verbatim>\<open>json.dumps\<close> raises.\<close>

definition start_budget :: "jdict \<Rightarrow> int option \<Rightarrow> size_budget res" where
  "start_budget value limit = (case limit of
      None \<Rightarrow> Inr None
    | Some n \<Rightarrow> if \<not> finite_tree (JDict value) then Inl ''ValueError''
        else Inr (Some (json_size (JDict value), max n (json_size (JDict value)))))"

definition finish_budget :: "int option \<Rightarrow> size_budget \<Rightarrow> unit res" where
  "finish_budget limit b = (case (limit, b) of
      (Some n, Some (used, _)) \<Rightarrow> if n < used then Inl limit_error else Inr ()
    | _ \<Rightarrow> Inr ())"

definition chosen_mode :: "redactor \<Rightarrow> string option \<Rightarrow> string" where
  "chosen_mode r mode = (case mode of None \<Rightarrow> rd_mode r | Some m \<Rightarrow> m)"

definition byte_limit :: "redactor \<Rightarrow> int option \<Rightarrow> int option" where
  "byte_limit r max_bytes = (case max_bytes of None \<Rightarrow> rd_limit r | Some n \<Rightarrow> Some n)"

definition inspect :: "redactor \<Rightarrow> jdict \<Rightarrow> string option \<Rightarrow> int option \<Rightarrow> redaction_result res" where
  "inspect r value mode max_bytes =
     (let chosen = chosen_mode r mode; limit = byte_limit r max_bytes
      in if chosen \<notin> {''off'', ''redact'', ''deny''} then Inl ''RedactionError''
         else rbind (start_budget value limit) (\<lambda>b.
           if chosen = ''off''
           then rbind (finish_budget limit b) (\<lambda>_. Inr \<lparr>rr_value = value, rr_count = 0, rr_rules = []\<rparr>)
           else rbind (transform r 0 (JDict value) b) (\<lambda>t.
             rbind (finish_budget limit (tf_budget t)) (\<lambda>_.
               (case tf_value t of
                  JDict d \<Rightarrow> Inr \<lparr>rr_value = d, rr_count = tf_count t, rr_rules = sort (remdups (tf_rules t))\<rparr>
                | _ \<Rightarrow> Inl ''AssertionError'')))))"

section \<open>Sizes\<close>

fun original_piece :: "piece \<Rightarrow> string" where
  "original_piece (Keep c) = [c]"
| "original_piece (Cut m) = m"

definition original :: "piece list \<Rightarrow> string" where
  "original ps = concat (map original_piece ps)"

lemma original_keep [simp]: "original (map Keep s) = s"
  by (induction s) (simp_all add: original_def)

lemma pieces_from_original: "original (pieces_from n f p s) = s"
proof (induction n f p s rule: pieces_from.induct)
  case (3 n f p c cs)
  then show ?case by (simp add: Let_def original_def del: take.simps drop.simps)
qed (simp_all add: original_def [symmetric], simp add: original_def)

lemma value_pieces_original: "original (value_pieces secret s) = s"
proof (cases "secret = []")
  case True
  have "concat (map original_piece (concat (map (\<lambda>c. [Keep c, Cut []]) s))) = s" by (induction s) simp_all
  then show ?thesis by (simp add: value_pieces_def True original_def)
next
  case False
  then show ?thesis by (simp add: value_pieces_def pieces_def pieces_from_original)
qed

lemma rules_original: "(name, cutter) \<in> set (rules_of r) \<Longrightarrow> original (cutter s) = s"
  by (auto simp: rules_of_def value_pieces_original pieces_def pieces_from_original split: if_splits)

lemma string_size_Nil [simp]: "string_size [] = 0"
  by (simp add: string_size_def quote_def)

lemma string_size_append [simp]: "string_size (s @ t) = string_size s + string_size t"
  by (simp add: string_size_def quote_def)

lemma string_size_Cons: "string_size (c # s) = string_size [c] + string_size s"
  using string_size_append [of "[c]" s] by simp

lemma replacement_size: "string_size replacement = int (length replacement)"
  by code_simp

lemma redacted_size: "string_size (redacted ps) = string_size (original ps) + growth ps"
proof (induction ps)
  case Nil
  then show ?case by (simp add: redacted_def original_def growth_def cuts_def List.map_filter_def)
next
  case (Cons x ps)
  then show ?case
    by (cases x) (simp_all add: redacted_def original_def growth_def cuts_def List.map_filter_def replacement_size
        string_size_Cons [of _ "concat _"])
qed

lemma dump_items_length: "int (length (dump_items True xs)) = 1 + sum_list (map (\<lambda>x. json_size x + 1) xs)"
  by (induction xs) (simp_all add: json_size_def)

lemma dump_members_length:
  "int (length (dump_members True d)) = 1 + sum_list (map (\<lambda>(k, v). int (length (quote True k)) + json_size v + 2) d)"
  by (induction d) (auto simp: json_size_def)

lemma json_size_list:
  "json_size (JList xs) = (if xs = [] then 2 else 1 + sum_list (map (\<lambda>x. json_size x + 1) xs))"
  by (cases xs) (simp_all add: json_size_def dump_items_length [unfolded json_size_def])

lemma json_size_dict:
  "json_size (JDict d) = (if d = [] then 2
     else 1 + sum_list (map (\<lambda>(k, v). int (length (quote True k)) + json_size v + 2) d))"
  by (cases d) (auto simp: json_size_def dump_members_length [unfolded json_size_def])

lemma json_size_string: "json_size (JStr s) = string_size s + 2"
  by (simp add: json_size_def string_size_def)

text \<open>What the budget has grown by is what the value has grown by.\<close>

definition charged :: "int \<Rightarrow> 'a transformed \<Rightarrow> size_budget \<Rightarrow> bool" where
  "charged delta t b = (case b of
      None \<Rightarrow> tf_budget t = None
    | Some (used, most) \<Rightarrow> tf_budget t = Some (used + delta, most))"

lemma resize_charged: "resize delta b = Inr b' \<Longrightarrow>
    b' = (case b of None \<Rightarrow> None | Some (used, most) \<Rightarrow> Some (used + delta, most))"
  by (auto simp: resize_def split: option.splits if_splits)

lemma apply_rules_charged:
  assumes "apply_rules rs t = Inr u" "\<And>name cutter s. (name, cutter) \<in> set rs \<Longrightarrow> original (cutter s) = s"
  shows "charged (string_size (tf_value u) - string_size (tf_value t)) u (tf_budget t)"
  using assms
proof (induction rs arbitrary: t)
  case Nil
  then show ?case by (auto simp: charged_def split: option.splits)
next
  case (Cons r rs)
  obtain name cutter where r: "r = (name, cutter)" by fastforce
  obtain w where w: "apply_rule name cutter t = Inr w" and u: "apply_rules rs w = Inr u" using Cons.prems(1) r by auto
  have ih: "charged (string_size (tf_value u) - string_size (tf_value w)) u (tf_budget w)"
    using Cons.IH [OF u] Cons.prems(2) by auto
  show ?case
  proof (cases "cuts (cutter (tf_value t)) = []")
    case True
    then have "w = t" using w by (simp add: apply_rule_def Let_def)
    with ih show ?thesis by simp
  next
    case False
    have orig: "original (cutter (tf_value t)) = tf_value t"
      by (rule Cons.prems(2) [of name]) (simp add: r)
    obtain b where b: "resize (growth (cutter (tf_value t))) (tf_budget t) = Inr b"
      and w': "tf_value w = redacted (cutter (tf_value t))" "tf_budget w = b"
      using w False by (auto simp: apply_rule_def Let_def)
    show ?thesis using ih resize_charged [OF b] redacted_size [of "cutter (tf_value t)"] orig w'
      by (auto simp: charged_def split: option.splits)
  qed
qed

lemma transform_string_charged:
  "transform_string r s b = Inr u \<Longrightarrow> charged (string_size (tf_value u) - string_size s) u b"
  using apply_rules_charged [of "rules_of r" "\<lparr>tf_value = s, tf_count = 0, tf_rules = [], tf_budget = b\<rparr>" u] rules_original
  by (simp add: transform_string_def)

lemma transformed_fields [simp]:
  "tf_value (with_value f t) = f (tf_value t)" "tf_count (with_value f t) = tf_count t"
  "tf_rules (with_value f t) = tf_rules t" "tf_budget (with_value f t) = tf_budget t"
  "tf_value (untouched v b) = v" "tf_count (untouched v b) = 0" "tf_rules (untouched v b) = []" "tf_budget (untouched v b) = b"
  "tf_value (joined_with g t u) = g (tf_value t) (tf_value u)" "tf_count (joined_with g t u) = tf_count t + tf_count u"
  "tf_rules (joined_with g t u) = tf_rules t @ tf_rules u" "tf_budget (joined_with g t u) = tf_budget u"
  by (simp_all add: with_value_def untouched_def joined_with_def)

lemma at_depth_Inr [simp]: "at_depth n x = Inr t \<longleftrightarrow> n \<le> max_json_depth \<and> x = Inr t"
  by (auto simp: at_depth_def)

definition items_size :: "json list \<Rightarrow> int" where
  "items_size xs = sum_list (map json_size xs)"

definition members_size :: "jdict \<Rightarrow> int" where
  "members_size d = sum_list (map (json_size \<circ> snd) d)"

lemma items_size_simps [simp]: "items_size [] = 0" "items_size (x # xs) = json_size x + items_size xs"
  by (simp_all add: items_size_def)

lemma members_size_simps [simp]: "members_size [] = 0" "members_size ((k, v) # d) = json_size v + members_size d"
  by (simp_all add: members_size_def)

lemma list_growth:
  assumes "length xs = length ys"
  shows "json_size (JList xs) - json_size (JList ys) = items_size xs - items_size ys"
proof -
  have "sum_list (map (\<lambda>x. json_size x + 1) xs) = items_size xs + int (length xs)" for xs
    by (induction xs) simp_all
  moreover have "xs = [] \<longleftrightarrow> ys = []" using assms by auto
  ultimately show ?thesis using assms by (cases "xs = []") (simp_all add: json_size_list)
qed

lemma dict_growth:
  assumes "keys d = keys e"
  shows "json_size (JDict d) - json_size (JDict e) = members_size d - members_size e"
proof -
  have "sum_list (map (\<lambda>(k, v). int (length (quote True k)) + json_size v + 2) d) =
      members_size d + sum_list (map (\<lambda>k. int (length (quote True k)) + 2) (keys d))" for d
    by (induction d) auto
  moreover have "d = [] \<longleftrightarrow> e = []" using assms by (cases d; cases e) (auto simp: keys_def)
  ultimately show ?thesis using assms by (cases "d = []") (simp_all add: json_size_dict)
qed

lemma charged_join:
  "charged x t b \<Longrightarrow> charged y u (tf_budget t) \<Longrightarrow> charged (x + y) (joined_with g t u) b"
  by (auto simp: charged_def split: option.splits)

lemma charged_untouched [simp]: "charged 0 (untouched v b) b"
  by (auto simp: charged_def split: option.splits)

lemma charged_with [simp]: "charged x (with_value f t) b = charged x t b"
  by (simp add: charged_def split: option.split)

text \<open>The budget of a transformed value has grown by exactly what the value has grown by.\<close>

lemma transform_charged:
  "transform r n v b = Inr t \<Longrightarrow> charged (json_size (tf_value t) - json_size v) t b"
  "transform_items r n xs b = Inr u \<Longrightarrow> length (tf_value u) = length xs \<and>
     charged (items_size (tf_value u) - items_size xs) u b"
  "transform_members r n d b = Inr w \<Longrightarrow> keys (tf_value w) = keys d \<and>
     charged (members_size (tf_value w) - members_size d) w b"
proof (induction r n v b and r n xs b and r n d b arbitrary: t and u and w rule: transform_transform_items_transform_members.induct)
  case (1 r n s b)
  then obtain z where "transform_string r s b = Inr z" "t = with_value JStr z" by auto
  then show ?case using transform_string_charged by (simp add: json_size_string)
next
  case (2 r n xs b)
  then obtain z where z: "transform_items r n xs b = Inr z" "t = with_value JList z" by auto
  from "2.IH" [OF z(1)] show ?case using list_growth [of "tf_value z" xs] z(2) by simp
next
  case (3 r n d b)
  then obtain z where z: "transform_members r n d b = Inr z" "t = with_value JDict z" by auto
  from "3.IH" [OF z(1)] show ?case using dict_growth [of "tf_value z" d] z(2) by simp
next
  case (9 r n x xs b)
  then obtain z y where z: "transform r (Suc n) x b = Inr z" and y: "transform_items r n xs (tf_budget z) = Inr y"
    and u: "u = joined_with (#) z y" by auto
  from "9.IH"(1) [OF z] "9.IH"(2) [OF z y] show ?case
    using charged_join [of "json_size (tf_value z) - json_size x" z b "items_size (tf_value y) - items_size xs" y "(#)"] u
    by (simp add: algebra_simps)
next
  case (11 r n k x d b)
  then obtain z y where nk: "\<not> protected_key r k" and z: "transform r (Suc n) x b = Inr z"
    and y: "transform_members r n d (tf_budget z) = Inr y" and w: "w = joined_with (\<lambda>v vs. (k, v) # vs) z y"
    by (auto split: if_splits)
  from "11.IH"(1) [OF nk z] "11.IH"(2) [OF nk z y] show ?case
    using charged_join [of "json_size (tf_value z) - json_size x" z b "members_size (tf_value y) - members_size d" y
      "\<lambda>v vs. (k, v) # vs"] w
    by (simp add: algebra_simps keys_def)
qed auto

lemma inspect_off:
  assumes "inspect r value mode max_bytes = Inr res" "chosen_mode r mode = ''off''"
  shows "\<exists>b. start_budget value (byte_limit r max_bytes) = Inr b \<and> finish_budget (byte_limit r max_bytes) b = Inr () \<and>
     res = \<lparr>rr_value = value, rr_count = 0, rr_rules = []\<rparr>"
  using assms by (auto simp: inspect_def Let_def)

lemma inspect_transforms:
  assumes run: "inspect r value mode max_bytes = Inr res" and on: "chosen_mode r mode \<noteq> ''off''"
  shows "\<exists>b t. start_budget value (byte_limit r max_bytes) = Inr b \<and> transform r 0 (JDict value) b = Inr t \<and>
     finish_budget (byte_limit r max_bytes) (tf_budget t) = Inr () \<and> tf_value t = JDict (rr_value res) \<and>
     rr_count res = tf_count t"
proof -
  obtain b t u where b: "start_budget value (byte_limit r max_bytes) = Inr b"
    and t: "transform r 0 (JDict value) b = Inr t" and u: "finish_budget (byte_limit r max_bytes) (tf_budget t) = Inr u"
    and res: "(case tf_value t of
        JDict d \<Rightarrow> Inr \<lparr>rr_value = d, rr_count = tf_count t, rr_rules = sort (remdups (tf_rules t))\<rparr>
      | _ \<Rightarrow> Inl ''AssertionError'') = (Inr res :: redaction_result res)"
    using run on unfolding inspect_def Let_def
    by (auto split: if_splits simp del: transform.simps)
  have "tf_value t = JDict (rr_value res) \<and> rr_count res = tf_count t"
    using res by (cases "tf_value t") auto
  then show ?thesis using b t u by auto
qed

text \<open>
  C18: What the redactor lets through respects its limit, exactly: when a byte limit is set, in whatever mode,
  the ASCII JSON of the value that inspect returns is at most that long.
\<close>
theorem redacted_request_within_limit:
  assumes run: "inspect r value mode max_bytes = Inr res" and limit: "byte_limit r max_bytes = Some n"
  shows "json_size (JDict (rr_value res)) \<le> n"
proof (cases "chosen_mode r mode = ''off''")
  case True
  from inspect_off [OF run True] limit show ?thesis
    by (auto simp: start_budget_def finish_budget_def split: if_splits)
next
  case False
  obtain b t where b: "start_budget value (Some n) = Inr b" and t: "transform r 0 (JDict value) b = Inr t"
    and f: "finish_budget (Some n) (tf_budget t) = Inr ()" and res: "tf_value t = JDict (rr_value res)"
    using inspect_transforms [OF run False] limit by auto
  have "b = Some (json_size (JDict value), max n (json_size (JDict value)))"
    using b by (auto simp: start_budget_def split: if_splits)
  with transform_charged(1) [OF t]
  have "tf_budget t = Some (json_size (tf_value t), max n (json_size (JDict value)))"
    by (simp add: charged_def)
  then show ?thesis using f res by (auto simp: finish_budget_def split: if_splits)
qed

section \<open>What a count of zero means\<close>

text \<open>The strings of a value, its member names apart.\<close>

fun texts :: "json \<Rightarrow> string set" where
  "texts (JStr s) = {s}"
| "texts (JList xs) = (\<Union>x \<in> set xs. texts x)"
| "texts (JDict d) = (\<Union>m \<in> set d. texts (snd m))"
| "texts v = {}"

text \<open>A rule matches somewhere in a text.\<close>

definition before :: "string \<Rightarrow> char option" where
  "before s = (if s = [] then None else Some (last s))"

definition matches_in :: "(spot \<Rightarrow> nat) \<Rightarrow> string \<Rightarrow> bool" where
  "matches_in f s = (\<exists>a b. s = a @ b \<and> b \<noteq> [] \<and> 0 < f (before a, b))"

definition holds_secret :: "redactor \<Rightarrow> string \<Rightarrow> bool" where
  "holds_secret r s =
     ((\<exists>v \<in> set (rd_values r). sublist (snd v) s) \<or>
      (rd_builtins r \<and> (\<exists>p \<in> set builtin_patterns. matches_in (pattern_length (snd p)) s)))"

lemma cuts_simps [simp]:
  "cuts [] = []" "cuts (Keep c # ps) = cuts ps" "cuts (Cut m # ps) = m # cuts ps"
  by (simp_all add: cuts_def List.map_filter_def)

lemma pieces_from_uncut:
  "length s \<le> n \<Longrightarrow> cuts (pieces_from n f p s) = [] \<Longrightarrow> s = a @ b \<Longrightarrow> b \<noteq> [] \<Longrightarrow>
     f (if a = [] then p else before a, b) = 0"
proof (induction n f p s arbitrary: a b rule: pieces_from.induct)
  case (3 n f p c cs)
  have here: "f (p, c # cs) = 0" and later: "cuts (pieces_from n f (Some c) cs) = []"
    using "3.prems"(2) by (auto simp: Let_def split: if_splits)
  show ?case
  proof (cases a)
    case Nil
    then show ?thesis using here "3.prems"(3) by simp
  next
    case (Cons x xs)
    then have cs: "cs = xs @ b" and x: "x = c" using "3.prems"(3) by auto
    have "f (if xs = [] then Some c else before xs, b) = 0"
      by (rule "3.IH"(1) [OF refl here _ later cs "3.prems"(4)]) (use "3.prems"(1) in simp)
    then show ?thesis using Cons x by (simp add: before_def split: if_splits)
  qed
qed auto

lemma pieces_uncut: "cuts (pieces f s) = [] \<Longrightarrow> \<not> matches_in f s"
  unfolding matches_in_def
proof (clarify)
  fix a b assume c: "cuts (pieces f (a @ b)) = []" and b: "b \<noteq> []" "0 < f (before a, b)"
  have "f (if a = [] then None else before a, b) = 0"
    by (rule pieces_from_uncut [OF _ c [unfolded pieces_def] refl b(1)]) simp
  then show False using b(2) by (auto simp: before_def split: if_splits)
qed

lemma value_pieces_uncut:
  assumes "cuts (value_pieces secret s) = []"
  shows "\<not> sublist secret s"
proof
  assume "sublist secret s"
  then obtain a b where s: "s = a @ secret @ b" by (auto simp: sublist_def)
  have ne: "secret \<noteq> []" using assms by (auto simp: value_pieces_def)
  then have "matches_in (value_length secret) s"
    unfolding matches_in_def s by (intro exI [of _ a] exI [of _ "secret @ b"]) (simp add: value_length_def)
  then show False using pieces_uncut assms ne by (auto simp: value_pieces_def)
qed

lemma apply_rules_zero:
  "apply_rules rs t = Inr u \<Longrightarrow> tf_count t \<le> tf_count u \<and> (tf_count u = tf_count t \<longrightarrow>
     u = t \<and> (\<forall>(name, cutter) \<in> set rs. cuts (cutter (tf_value t)) = []))"
proof (induction rs arbitrary: t)
  case (Cons r rs)
  obtain name cutter where r: "r = (name, cutter)" by fastforce
  obtain w where w: "apply_rule name cutter t = Inr w" and u: "apply_rules rs w = Inr u" using Cons.prems r by auto
  show ?case
  proof (cases "cuts (cutter (tf_value t)) = []")
    case True
    then have "w = t" using w by (simp add: apply_rule_def Let_def)
    then show ?thesis using Cons.IH [OF u] True r by auto
  next
    case False
    then have "tf_count t < tf_count w" using w by (auto simp: apply_rule_def Let_def)
    then show ?thesis using Cons.IH [OF u] by auto
  qed
qed simp

lemma transform_string_zero:
  assumes "transform_string r s b = Inr u" "tf_count u = 0"
  shows "tf_value u = s \<and> \<not> holds_secret r s"
proof -
  have u: "u = \<lparr>tf_value = s, tf_count = 0, tf_rules = [], tf_budget = b\<rparr>"
    and all: "\<forall>(name, cutter) \<in> set (rules_of r). cuts (cutter s) = []"
    using apply_rules_zero [OF assms(1) [unfolded transform_string_def]] assms(2) by auto
  have "\<not> sublist (snd v) s" if "v \<in> set (rd_values r)" for v
  proof (rule value_pieces_uncut)
    have "(fst v, value_pieces (snd v)) \<in> set (rules_of r)"
      using imageI [OF that, of "\<lambda>(name, secret). (name, value_pieces secret)"] by (simp add: rules_of_def case_prod_unfold)
    then show "cuts (value_pieces (snd v) s) = []" using all by blast
  qed
  moreover have "\<not> matches_in (pattern_length (snd p)) s" if "rd_builtins r" "p \<in> set builtin_patterns" for p
  proof (rule pieces_uncut)
    have "(fst p, pieces (pattern_length (snd p))) \<in> set (rules_of r)"
      using imageI [OF that(2), of "\<lambda>(name, q). (name, pieces (pattern_length q))"] that(1)
      by (simp add: rules_of_def case_prod_unfold)
    then show "cuts (pieces (pattern_length (snd p)) s) = []" using all by blast
  qed
  ultimately show ?thesis using u by (auto simp: holds_secret_def)
qed

text \<open>A transformation that counts nothing changes nothing and has found every string clean.\<close>

lemma transform_zero:
  "transform r n v b = Inr t \<Longrightarrow> tf_count t = 0 \<Longrightarrow> tf_value t = v \<and> (\<forall>s \<in> texts v. \<not> holds_secret r s)"
  "transform_items r n xs b = Inr u \<Longrightarrow> tf_count u = 0 \<Longrightarrow>
     tf_value u = xs \<and> (\<forall>x \<in> set xs. \<forall>s \<in> texts x. \<not> holds_secret r s)"
  "transform_members r n d b = Inr w \<Longrightarrow> tf_count w = 0 \<Longrightarrow>
     tf_value w = d \<and> (\<forall>m \<in> set d. \<forall>s \<in> texts (snd m). \<not> holds_secret r s)"
proof (induction r n v b and r n xs b and r n d b arbitrary: t and u and w rule: transform_transform_items_transform_members.induct)
  case (1 r n s b)
  then obtain z where "transform_string r s b = Inr z" "t = with_value JStr z" by auto
  then show ?case using transform_string_zero "1.prems"(2) by auto
next
  case (2 r n xs b)
  then obtain z where z: "transform_items r n xs b = Inr z" "t = with_value JList z" by auto
  from "2.IH" [OF z(1)] show ?case using z(2) "2.prems"(2) by simp
next
  case (3 r n d b)
  then obtain z where z: "transform_members r n d b = Inr z" "t = with_value JDict z" by auto
  from "3.IH" [OF z(1)] show ?case using z(2) "3.prems"(2) by simp
next
  case (9 r n x xs b)
  from "9.prems"(1) obtain z y where z: "transform r (Suc n) x b = Inr z" and y: "transform_items r n xs (tf_budget z) = Inr y"
    and u: "u = joined_with (#) z y" by auto
  from "9.IH"(1) [OF z] "9.IH"(2) [OF z y] show ?case using u "9.prems"(2) by simp
next
  case (11 r n k x d b)
  from "11.prems"(1) obtain z y where nk: "\<not> protected_key r k" and z: "transform r (Suc n) x b = Inr z"
    and y: "transform_members r n d (tf_budget z) = Inr y" and w: "w = joined_with (\<lambda>v vs. (k, v) # vs) z y"
    by (auto split: if_splits)
  from "11.IH"(1) [OF nk z] "11.IH"(2) [OF nk z y] show ?case using w "11.prems"(2) by simp
qed auto

lemma inspect_zero:
  assumes "inspect r value mode max_bytes = Inr res" "chosen_mode r mode \<noteq> ''off''" "rr_count res = 0"
  shows "rr_value res = value \<and> (\<forall>s \<in> texts (JDict value). \<not> holds_secret r s)"
proof -
  obtain b t where t: "transform r 0 (JDict value) b = Inr t" "tf_value t = JDict (rr_value res)" "rr_count res = tf_count t"
    using inspect_transforms [OF assms(1,2)] by blast
  have "tf_count t = 0" using t(3) assms(3) by simp
  from transform_zero(1) [OF t(1) this] t(2) show ?thesis by (simp del: texts.simps transform.simps)
qed

definition example_redactor :: redactor where
  "example_redactor = \<lparr>rd_mode = ''redact'', rd_builtins = False, rd_values = [(''token'', ''hunter2'')], rd_limit = Some 60,
     rd_reject_keys = True\<rparr>"

definition example_body :: jdict where
  "example_body = [(''input'', JStr ''use hunter2'')]"

theorem redacted_request_within_limit_witness:
  "json_size (JDict (rr_value (projr (inspect example_redactor example_body None None)))) \<le> 60"
proof -
  have "inspect example_redactor example_body None None = Inr \<lparr>rr_value =
      [(''input'', JStr ''use [REDACTED:HORMUZ_SECRET]'')], rr_count = 1, rr_rules = [''token'']\<rparr>"
    by code_simp
  moreover have "byte_limit example_redactor None = Some 60" by code_simp
  ultimately show ?thesis using redacted_request_within_limit by fastforce
qed

end
