(* ===== verification/Compaction.thy ===== *)
theory Compaction
  imports Redaction
begin

text \<open>
  Compact representations of tool results (\<^verbatim>\<open>src/hormuz/compaction_formats.py\<close>) and the check the gateway makes
  of them (\<^verbatim>\<open>src/hormuz/compaction_enforcement.py\<close>): recognized envelopes are expanded in a copy of the request,
  the secret redactor sees the expanded text, and only then is the compact request forwarded.
  \<^verbatim>\<open>CompactionFormatError\<close> is \<open>Inl\<close> of its code; a \<^verbatim>\<open>TypeError\<close>, which the gateway does not catch, is
  \<open>Inl ''TypeError''\<close>.
\<close>

section \<open>The formats\<close>

definition max_block_bytes :: nat where
  "max_block_bytes = 64 * 1024"

definition max_request_bytes :: int where
  "max_request_bytes = 1024 * 1024"

definition max_rows :: nat where
  "max_rows = 4096"

definition max_columns :: nat where
  "max_columns = 64"

definition json_table :: string where
  "json_table = ''hormuz-json-table-v1''"

definition line_runs :: string where
  "line_runs = ''hormuz-line-runs-v1''"

definition search_lines :: string where
  "search_lines = ''hormuz-search-lines-v1''"

definition path_list :: string where
  "path_list = ''hormuz-path-list-v1''"

definition known_formats :: "string list" where
  "known_formats = [json_table, line_runs, search_lines, path_list]"

text \<open>
  \<^verbatim>\<open>_DECLARED_MARKER\<close>: an opening brace after white space at the start of the text and, anywhere after it, a
  member \<^verbatim>\<open>"format"\<close> with one of the names.
\<close>

definition after_prefix :: "string \<Rightarrow> string \<Rightarrow> string option" where
  "after_prefix p s = (if starts_with p s then Some (drop (length p) s) else None)"

definition marker_here :: "string \<Rightarrow> bool" where
  "marker_here s =
     (case after_prefix ([CHR 0x22] @ ''format'' @ [CHR 0x22]) s of None \<Rightarrow> False | Some s1 \<Rightarrow>
       (case after_prefix '':'' (lstrip s1) of None \<Rightarrow> False | Some s2 \<Rightarrow>
         list_ex (\<lambda>name. starts_with ([CHR 0x22] @ name @ [CHR 0x22]) (lstrip s2)) known_formats))"

definition declared_marker :: "string \<Rightarrow> bool" where
  "declared_marker s =
     (case lstrip s of [] \<Rightarrow> False | c # cs \<Rightarrow> c = CHR ''{'' \<and> list_ex marker_here (suffixes cs))"

record decoded_text =
  dt_recognized :: bool
  dt_text :: string
  dt_format :: "string option"

definition same_keys :: "jdict \<Rightarrow> string list \<Rightarrow> bool" where
  "same_keys d names = (set (keys d) = set names)"

definition strings_of :: "json list \<Rightarrow> string list option" where
  "strings_of xs = those (map (\<lambda>x. case x of JStr s \<Rightarrow> Some s | _ \<Rightarrow> None) xs)"

definition restore_row :: "string list \<Rightarrow> json \<Rightarrow> json res" where
  "restore_row columns row = (case row of
      JList cells \<Rightarrow> if length cells \<noteq> length columns then Inl ''invalid_json_table''
        else Inr (JDict (zip columns cells))
    | _ \<Rightarrow> Inl ''invalid_json_table'')"

definition decode_json_table :: "jdict \<Rightarrow> string res" where
  "decode_json_table value =
     (if \<not> same_keys value [''format'', ''columns'', ''rows''] then Inl ''unknown_compaction_field''
      else case (dget value ''columns'', dget value ''rows'') of
          (JList cs, JList rows) \<Rightarrow>
            (case strings_of cs of
               None \<Rightarrow> Inl ''invalid_json_table''
             | Some columns \<Rightarrow>
                if \<not> len_between 1 max_columns columns \<or> [] \<in> set columns \<or> \<not> distinct columns \<or>
                   \<not> len_between 2 max_rows rows
                then Inl ''invalid_json_table''
                else rbind (rmap_list (restore_row columns) rows) (\<lambda>restored. Inr (canonical_json (JList restored))))
        | _ \<Rightarrow> Inl ''invalid_json_table'')"

text \<open>The runs are expanded one after the other; rows and bytes are bounded before a run is.\<close>

fun expand_runs :: "nat \<Rightarrow> nat \<Rightarrow> string list \<Rightarrow> json list \<Rightarrow> string list res" where
  "expand_runs limit bound done [] = Inr done"
| "expand_runs limit bound done (run # rest) = (case run of
      JList [JStr line, JInt count] \<Rightarrow>
        if count \<le> 0 then Inl ''invalid_line_runs''
        else if max_rows < length done + nat count then Inl ''expanded_rows_exceeded''
        else let bound' = bound + utf8_len line * nat count + nat count
             in if limit + 1 < bound' then Inl ''expanded_block_too_large''
                else expand_runs limit bound' (done @ replicate (nat count) line) rest
    | _ \<Rightarrow> Inl ''invalid_line_runs'')"

definition decode_line_runs :: "nat \<Rightarrow> jdict \<Rightarrow> string res" where
  "decode_line_runs limit value =
     (if \<not> same_keys value [''format'', ''runs''] then Inl ''unknown_compaction_field''
      else case dget value ''runs'' of
          JList rs \<Rightarrow> if \<not> len_between 1 max_rows rs then Inl ''invalid_line_runs''
            else rbind (expand_runs limit 0 [] rs) (\<lambda>lines. Inr (join [CHR 0x0A] lines))
        | _ \<Rightarrow> Inl ''invalid_line_runs'')"

text \<open>The frame of a list of lines: texts before and after it, or only a final newline in the legacy form.\<close>

definition frame_of :: "string \<Rightarrow> jdict \<Rightarrow> string list \<Rightarrow> (string \<times> string) res" where
  "frame_of err value names =
     (if same_keys value (names @ [''trailing_newline''])
      then (case dget value ''trailing_newline'' of
              JBool b \<Rightarrow> Inr ([], if b then [CHR 0x0A] else [])
            | _ \<Rightarrow> Inl err)
      else if same_keys value (names @ [''before'', ''after''])
      then (case (dget value ''before'', dget value ''after'') of
              (JStr pre, JStr post) \<Rightarrow> if pre = [] \<and> post = [] then Inl err else Inr (pre, post)
            | _ \<Rightarrow> Inl err)
      else Inl ''unknown_compaction_field'')"

text \<open>\<^verbatim>\<open>str.isdigit\<close>, which the superscript digits satisfy too.\<close>

definition digit_text :: "string \<Rightarrow> bool" where
  "digit_text s = (s \<noteq> [] \<and> list_all (\<lambda>c. is_digit c \<or> ord_of c \<in> {178, 179, 185}) s)"

definition no_breaks :: "string \<Rightarrow> bool" where
  "no_breaks s = list_all (\<lambda>c. c \<noteq> CHR 0x0A \<and> c \<noteq> CHR 0x0D) s"

definition search_line :: "string \<Rightarrow> json \<Rightarrow> string res" where
  "search_line path m = (case m of
      JList [JStr number, JStr line] \<Rightarrow>
        if digit_text number \<and> no_breaks line then Inr (path @ '':'' @ number @ '':'' @ line)
        else Inl ''invalid_search_lines''
    | _ \<Rightarrow> Inl ''invalid_search_lines'')"

definition decode_search_lines :: "jdict \<Rightarrow> string res" where
  "decode_search_lines value =
     rbind (frame_of ''invalid_search_lines'' value [''format'', ''path'', ''matches'']) (\<lambda>(pre, post).
       case (dget value ''path'', dget value ''matches'') of
         (JStr path, JList ms) \<Rightarrow>
           if path = [] \<or> CHR '':'' \<in> set path \<or> \<not> no_breaks path \<or> \<not> len_between 2 max_rows ms
           then Inl ''invalid_search_lines''
           else rbind (rmap_list (search_line path) ms) (\<lambda>lines. Inr (pre @ join [CHR 0x0A] lines @ post))
       | _ \<Rightarrow> Inl ''invalid_search_lines'')"

definition path_suffix_ok :: "string \<Rightarrow> bool" where
  "path_suffix_ok s = (s \<noteq> [] \<and> CHR ''/'' \<notin> set s \<and> no_breaks s)"

definition decode_path_list :: "jdict \<Rightarrow> string res" where
  "decode_path_list value =
     rbind (frame_of ''invalid_path_list'' value [''format'', ''prefix'', ''suffixes'']) (\<lambda>(pre, post).
       case (dget value ''prefix'', dget value ''suffixes'') of
         (JStr dir, JList xs) \<Rightarrow>
           (case strings_of xs of
              None \<Rightarrow> Inl ''invalid_path_list''
            | Some names \<Rightarrow>
               if dir = [] \<or> List.last dir \<noteq> CHR ''/'' \<or> \<not> no_breaks dir \<or>
                  \<not> len_between 2 max_rows names \<or> \<not> list_all path_suffix_ok names
               then Inl ''invalid_path_list''
               else Inr (pre @ join [CHR 0x0A] (map ((@) dir) names) @ post))
       | _ \<Rightarrow> Inl ''invalid_path_list'')"

definition ordinary :: "string \<Rightarrow> decoded_text" where
  "ordinary s = \<lparr>dt_recognized = False, dt_text = s, dt_format = None\<rparr>"

definition expand :: "nat \<Rightarrow> string \<Rightarrow> jdict \<Rightarrow> string res" where
  "expand limit marker d =
     (if marker = json_table then decode_json_table d
      else if marker = line_runs then decode_line_runs limit d
      else if marker = search_lines then decode_search_lines d
      else decode_path_list d)"

text \<open>
  \<^verbatim>\<open>decode_text\<close>. The membership test hashes the value of \<^verbatim>\<open>format\<close>, so a list or an object there raises a
  \<^verbatim>\<open>TypeError\<close>.
\<close>

definition decode_text :: "nat \<Rightarrow> string \<Rightarrow> decoded_text res" where
  "decode_text limit value = (case strict_json_loads value of
      Inl _ \<Rightarrow> if declared_marker value then Inl ''malformed_compaction_envelope'' else Inr (ordinary value)
    | Inr (JDict d) \<Rightarrow>
        (case dget d ''format'' of
           JList _ \<Rightarrow> Inl ''TypeError''
         | JDict _ \<Rightarrow> Inl ''TypeError''
         | JStr marker \<Rightarrow>
            if marker \<notin> set known_formats then Inr (ordinary value)
            else if canonical_json (JDict d) \<noteq> value then Inl ''noncanonical_compaction_envelope''
            else rbind (expand limit marker d) (\<lambda>text.
              if limit < utf8_len text then Inl ''expanded_block_too_large''
              else Inr \<lparr>dt_recognized = True, dt_text = text, dt_format = Some marker\<rparr>)
         | _ \<Rightarrow> Inr (ordinary value))
    | Inr _ \<Rightarrow> Inr (ordinary value))"

definition restore_text :: "string \<Rightarrow> string res" where
  "restore_text value = rbind (decode_text max_block_bytes value) (\<lambda>t. Inr (dt_text t))"

section \<open>The eligible fields of a request\<close>

text \<open>One field of an item: the item with the field expanded, and how many were recognized.\<close>

definition expand_field :: "string \<Rightarrow> jdict \<Rightarrow> (json \<times> nat) res" where
  "expand_field field item = (case dget item field of
      JStr s \<Rightarrow>
        (case decode_text max_block_bytes s of
           Inl e \<Rightarrow> if e = ''TypeError'' then Inl e else Inr (JDict item, 0)
         | Inr t \<Rightarrow> if dt_recognized t then Inr (JDict (dict_set field (JStr (dt_text t)) item), 1)
                   else Inr (JDict item, 0))
    | _ \<Rightarrow> Inr (JDict item, 0))"

definition expand_typed :: "string \<Rightarrow> string \<Rightarrow> json \<Rightarrow> (json \<times> nat) res" where
  "expand_typed kind field item = (case item of
      JDict d \<Rightarrow> if dget d ''type'' = JStr kind then expand_field field d else Inr (item, 0)
    | _ \<Rightarrow> Inr (item, 0))"

definition expand_all :: "(json \<Rightarrow> (json \<times> nat) res) \<Rightarrow> json list \<Rightarrow> (json list \<times> nat) res" where
  "expand_all f xs = rbind (rmap_list f xs) (\<lambda>ys. Inr (map fst ys, sum_list (map snd ys)))"

definition expand_message :: "json \<Rightarrow> (json \<times> nat) res" where
  "expand_message message = (case message of
      JDict d \<Rightarrow>
        if dget d ''role'' \<noteq> JStr ''user'' then Inr (message, 0)
        else (case dget d ''content'' of
            JList blocks \<Rightarrow> rbind (expand_all (expand_typed ''tool_result'' ''content'') blocks) (\<lambda>(bs, n).
              Inr (JDict (dict_set ''content'' (JList bs) d), n))
          | _ \<Rightarrow> Inr (message, 0))
    | _ \<Rightarrow> Inr (message, 0))"

definition expand_list_field :: "string \<Rightarrow> (json \<Rightarrow> (json \<times> nat) res) \<Rightarrow> jdict \<Rightarrow> (jdict \<times> nat) res" where
  "expand_list_field field f payload = (case dget payload field of
      JList xs \<Rightarrow> rbind (expand_all f xs) (\<lambda>(ys, n). Inr (dict_set field (JList ys) payload, n))
    | _ \<Rightarrow> Inr (payload, 0))"

definition decode_eligible_fields :: "string \<Rightarrow> jdict \<Rightarrow> (jdict \<times> nat) res" where
  "decode_eligible_fields protocol payload =
     (if protocol = ''openai'' then expand_list_field ''input'' (expand_typed ''function_call_output'' ''output'') payload
      else expand_list_field ''messages'' expand_message payload)"

section \<open>Inspection of a request\<close>

record compaction_inspection =
  ci_redaction :: redaction_result
  ci_recognized :: nat
  ci_expanded :: bool

definition inspect_request ::
    "jdict \<Rightarrow> string \<Rightarrow> redactor \<Rightarrow> string \<Rightarrow> string option \<Rightarrow> int option \<Rightarrow> compaction_inspection res" where
  "inspect_request payload protocol r mode declared inspection_max =
     (if declared \<notin> {None, Some ''structural-v1''} then Inl ''unsupported_compaction_version''
      else rbind (decode_eligible_fields protocol payload) (\<lambda>(reconstructed, recognized).
        if declared \<noteq> None \<and> recognized = 0 then Inl ''declared_compaction_missing''
        else if recognized = 0
        then rbind (inspect r payload (Some mode) None) (\<lambda>res.
          Inr \<lparr>ci_redaction = res, ci_recognized = 0, ci_expanded = False\<rparr>)
        else if \<not> finite_tree (JDict reconstructed) then Inl ''invalid_compaction_request''
        else if max_request_bytes < json_size (JDict reconstructed) then Inl ''expanded_request_too_large''
        else rbind (inspect r reconstructed (Some mode) inspection_max) (\<lambda>expanded.
          if rr_count expanded \<noteq> 0
          then Inr \<lparr>ci_redaction = expanded, ci_recognized = recognized, ci_expanded = True\<rparr>
          else rbind (inspect r payload (Some mode) None) (\<lambda>raw.
            if rr_count raw \<noteq> 0
            then Inr \<lparr>ci_redaction = raw\<lparr>rr_value := rr_value expanded\<rparr>, ci_recognized = recognized, ci_expanded = True\<rparr>
            else Inr \<lparr>ci_redaction = \<lparr>rr_value = payload, rr_count = 0, rr_rules = []\<rparr>,
                   ci_recognized = recognized, ci_expanded = False\<rparr>))))"

section \<open>Nothing goes out unseen\<close>

text \<open>An expansion that recognizes nothing leaves the request as it is.\<close>

lemma dict_set_same: "dget d k = v \<Longrightarrow> v \<noteq> JNull \<Longrightarrow> dict_set k v d = d"
  by (induction d rule: dict_set.induct) (auto simp: dget_def split: if_splits)

definition keeps :: "('a \<Rightarrow> ('a \<times> nat) res) \<Rightarrow> bool" where
  "keeps f = (\<forall>x y. f x = Inr (y, 0) \<longrightarrow> y = x)"

lemma keepsD: "keeps f \<Longrightarrow> f x = Inr (y, 0) \<Longrightarrow> y = x"
  by (simp add: keeps_def)

lemma expand_field_keeps: "expand_field field d = Inr (y, 0) \<Longrightarrow> y = JDict d"
  by (auto simp: expand_field_def split: json.splits sum.splits if_splits)

lemma expand_typed_keeps: "keeps (expand_typed kind field)"
  by (auto simp: keeps_def expand_typed_def dest: expand_field_keeps split: json.splits if_splits)

lemma expand_all_keeps:
  assumes "keeps f" "expand_all f xs = Inr (ys, 0)"
  shows "ys = xs"
proof -
  obtain zs where zs: "rmap_list f xs = Inr zs" "ys = map fst zs" "\<forall>z \<in> set zs. snd z = 0"
    using assms(2) by (auto simp: expand_all_def)
  have "rmap_list f xs = Inr zs \<Longrightarrow> \<forall>z \<in> set zs. snd z = 0 \<Longrightarrow> map fst zs = xs" for xs zs
  proof (induction xs arbitrary: zs)
    case (Cons x xs)
    then obtain w ws where "f x = Inr w" "rmap_list f xs = Inr ws" "zs = w # ws" by auto
    with Cons show ?case using keepsD [OF assms(1), of x "fst w"] by (cases w) auto
  qed simp
  with zs show ?thesis by blast
qed

lemma expand_message_keeps: "keeps expand_message"
  unfolding keeps_def
proof (intro allI impI)
  fix m y assume run: "expand_message m = Inr (y, 0)"
  show "y = m"
  proof (cases m)
    case (JDict d)
    then show ?thesis using run
      by (cases "dget d ''content''")
        (auto simp: expand_message_def dict_set_same dest!: expand_all_keeps [OF expand_typed_keeps] split: if_splits)
  qed (use run in \<open>simp_all add: expand_message_def\<close>)
qed

lemma expand_list_field_keeps: "keeps f \<Longrightarrow> expand_list_field field f d = Inr (e, 0) \<Longrightarrow> e = d"
  by (cases "dget d field") (auto simp: expand_list_field_def dict_set_same dest!: expand_all_keeps)

lemma eligible_keeps: "decode_eligible_fields protocol payload = Inr (e, 0) \<Longrightarrow> e = payload"
  by (auto simp: decode_eligible_fields_def expand_typed_keeps expand_message_keeps
      dest: expand_list_field_keeps [rotated] split: if_splits)


section \<open>Line runs\<close>

definition runs_envelope :: "(string \<times> nat) list \<Rightarrow> jdict" where
  "runs_envelope rs = [(''format'', JStr line_runs), (''runs'', JList (map (\<lambda>(l, n). JList [JStr l, JInt (int n)]) rs))]"

definition expanded_lines :: "(string \<times> nat) list \<Rightarrow> string list" where
  "expanded_lines rs = concat (map (\<lambda>(l, n). replicate n l) rs)"

definition run_cost :: "(string \<times> nat) list \<Rightarrow> nat" where
  "run_cost rs = sum_list (map (\<lambda>(l, n). utf8_len l * n + n) rs)"

lemma expanded_lines_simps [simp]:
  "expanded_lines [] = []" "expanded_lines ((l, n) # rs) = replicate n l @ expanded_lines rs"
  by (simp_all add: expanded_lines_def)

lemma run_cost_simps [simp]: "run_cost [] = 0" "run_cost ((l, n) # rs) = utf8_len l * n + n + run_cost rs"
  by (simp_all add: run_cost_def)

lemma expand_runs_iff:
  "list_all (\<lambda>(l, n). 0 < n) rs \<Longrightarrow> length before_lines \<le> max_rows \<Longrightarrow> bound \<le> limit + 1 \<Longrightarrow>
   expand_runs limit bound before_lines (map (\<lambda>(l, n). JList [JStr l, JInt (int n)]) rs) = Inr out \<longleftrightarrow>
     out = before_lines @ expanded_lines rs \<and> length out \<le> max_rows \<and> bound + run_cost rs \<le> limit + 1"
proof (induction rs arbitrary: before_lines bound)
  case (Cons r rs)
  obtain l n where r: "r = (l, n)" by fastforce
  define lines where "lines = before_lines @ replicate n l"
  define b where "b = bound + utf8_len l * n + n"
  have n: "0 < n" and rest: "list_all (\<lambda>(l, n). 0 < n) rs" using Cons.prems r by auto
  have "expand_runs limit bound before_lines (map (\<lambda>(l, n). JList [JStr l, JInt (int n)]) (r # rs)) =
      (if max_rows < length lines then Inl ''expanded_rows_exceeded''
       else if limit + 1 < b then Inl ''expanded_block_too_large''
       else expand_runs limit b lines (map (\<lambda>(l, n). JList [JStr l, JInt (int n)]) rs))"
    using n by (simp add: r lines_def b_def)
  then show ?case using Cons.IH [OF rest, of lines b] by (auto simp: r lines_def b_def)
qed auto

lemma utf8_len_append [simp]: "utf8_len (s @ t) = utf8_len s + utf8_len t"
  by (simp add: utf8_len_def)

lemma utf8_len_join: "ls \<noteq> [] \<Longrightarrow> Suc (utf8_len (join [CHR 0x0A] ls)) = sum_list (map (\<lambda>l. Suc (utf8_len l)) ls)"
proof (induction "[CHR 0x0A]" ls rule: join.induct)
  case (3 x y ys)
  have "utf8_len [CHR 0x0A] = 1" by code_simp
  with 3 show ?case using utf8_len_append [of "[CHR 0x0A]" "join [CHR 0x0A] (y # ys)"] by simp
qed simp_all

lemma run_cost_lines: "run_cost rs = sum_list (map (\<lambda>l. Suc (utf8_len l)) (expanded_lines rs))"
  by (induction rs) (auto simp: sum_list_replicate algebra_simps)

lemma runs_envelope_lookup [simp]:
  "same_keys (runs_envelope rs) [''format'', ''runs'']"
  "dget (runs_envelope rs) ''runs'' = JList (map (\<lambda>(l, n). JList [JStr l, JInt (int n)]) rs)"
  by (simp_all add: runs_envelope_def same_keys_def keys_def dget_def insert_commute)

text \<open>
  The bounds on a line-run envelope refuse exactly what is too large: one with between 1 and 4096 runs of
  positive counts is expanded, run after run, if and only if the whole text has at most 4096 lines and at most
  the permitted number of bytes; the check made before each run therefore rejects nothing that fits.
\<close>
theorem line_runs_bounds_exact:
  assumes "list_all (\<lambda>(l, n). 0 < n) rs" "len_between 1 max_rows rs"
  shows "decode_line_runs limit (runs_envelope rs) = Inr text \<longleftrightarrow>
    text = join [CHR 0x0A] (expanded_lines rs) \<and> length (expanded_lines rs) \<le> max_rows \<and> utf8_len text \<le> limit"
proof -
  have ne: "expanded_lines rs \<noteq> []" using assms by (cases rs) (auto simp: len_between_def)
  have "decode_line_runs limit (runs_envelope rs) =
      rbind (expand_runs limit 0 [] (map (\<lambda>(l, n). JList [JStr l, JInt (int n)]) rs)) (\<lambda>lines. Inr (join [CHR 0x0A] lines))"
    using assms(2) by (simp add: decode_line_runs_def len_between_def)
  also have "\<dots> = Inr text \<longleftrightarrow>
      (length (expanded_lines rs) \<le> max_rows \<and> run_cost rs \<le> Suc limit) \<and> text = join [CHR 0x0A] (expanded_lines rs)"
    using expand_runs_iff [OF assms(1), of "[]" 0 limit] by auto
  finally show ?thesis using utf8_len_join [OF ne] run_cost_lines [of rs] by auto
qed

definition example_runs :: "(string \<times> nat) list" where
  "example_runs = [(''ok'', 3), (''done'', 1)]"

theorem line_runs_bounds_exact_witness:
  "decode_line_runs 100 (runs_envelope example_runs) = Inr (join [CHR 0x0A] [''ok'', ''ok'', ''ok'', ''done''])"
proof -
  have "list_all (\<lambda>(l, n). 0 < n) example_runs" "len_between 1 max_rows example_runs"
    "expanded_lines example_runs = [''ok'', ''ok'', ''ok'', ''done'']" "length (expanded_lines example_runs) \<le> max_rows"
    "utf8_len (join [CHR 0x0A] (expanded_lines example_runs)) \<le> 100"
    by code_simp+
  then show ?thesis using line_runs_bounds_exact [of example_runs 100] by simp
qed

section \<open>The one exception that escapes\<close>

definition format_codes :: "string list" where
  "format_codes = [''unknown_compaction_field'', ''invalid_json_table'', ''invalid_line_runs'', ''expanded_rows_exceeded'',
     ''expanded_block_too_large'', ''invalid_search_lines'', ''invalid_path_list'']"

lemma rmap_list_codes: "(\<And>x e. f x = Inl e \<Longrightarrow> e \<in> S) \<Longrightarrow> rmap_list f xs = Inl e \<Longrightarrow> e \<in> S"
  by (induction xs) (auto simp: rbind_def split: sum.splits)

lemma rbind_codes: "rbind x k = Inl e \<Longrightarrow> x = Inl e \<or> (\<exists>y. x = Inr y \<and> k y = Inl e)"
  by (cases x) auto

lemma expand_runs_codes: "expand_runs limit b ls rs = Inl e \<Longrightarrow> e \<in> set format_codes"
  by (induction limit b ls rs rule: expand_runs.induct)
    (auto simp: format_codes_def Let_def split: json.splits list.splits if_splits)

lemma frame_codes: "err \<in> set format_codes \<Longrightarrow> frame_of err d names = Inl e \<Longrightarrow> e \<in> set format_codes"
  by (auto simp: frame_of_def format_codes_def split: json.splits if_splits)

lemma row_codes: "rmap_list (restore_row cs) xs = Inl e \<Longrightarrow> e \<in> set format_codes"
  by (rule rmap_list_codes) (auto simp: restore_row_def format_codes_def split: json.splits if_splits)

lemma search_codes: "rmap_list (search_line p) xs = Inl e \<Longrightarrow> e \<in> set format_codes"
  by (rule rmap_list_codes) (auto simp: search_line_def format_codes_def split: json.splits list.splits if_splits)

lemma code_members: "''unknown_compaction_field'' \<in> set format_codes" "''invalid_json_table'' \<in> set format_codes"
  "''invalid_line_runs'' \<in> set format_codes" "''invalid_search_lines'' \<in> set format_codes"
  "''invalid_path_list'' \<in> set format_codes"
  by (simp_all add: format_codes_def)

lemma expand_codes: "expand limit marker d = Inl e \<Longrightarrow> e \<in> set format_codes"
proof -
  have "decode_json_table d = Inl e \<Longrightarrow> e \<in> set format_codes"
    by (auto simp: decode_json_table_def code_members split: json.splits option.splits if_splits dest!: rbind_codes row_codes)
  moreover have "decode_line_runs limit d = Inl e \<Longrightarrow> e \<in> set format_codes"
    by (auto simp: decode_line_runs_def code_members split: json.splits if_splits dest!: rbind_codes expand_runs_codes)
  moreover have "decode_search_lines d = Inl e \<Longrightarrow> e \<in> set format_codes"
    by (auto simp: decode_search_lines_def code_members split: json.splits if_splits
        dest!: rbind_codes search_codes frame_codes [OF code_members(4)])
  moreover have "decode_path_list d = Inl e \<Longrightarrow> e \<in> set format_codes"
    by (auto simp: decode_path_list_def code_members split: json.splits option.splits if_splits
        dest!: rbind_codes frame_codes [OF code_members(5)])
  ultimately show "expand limit marker d = Inl e \<Longrightarrow> e \<in> set format_codes"
    by (auto simp: expand_def split: if_splits)
qed


definition example_envelope :: string where
  "example_envelope = canonical_json (JDict (runs_envelope example_runs))"

definition example_compact :: jdict where
  "example_compact = [(''input'', JList [JDict [(''type'', JStr ''function_call_output''), (''output'', JStr example_envelope)]])]"

definition open_redactor :: redactor where
  "open_redactor = \<lparr>rd_mode = ''off'', rd_builtins = False, rd_values = [(''token'', ''hunter2'')], rd_limit = None,
     rd_reject_keys = False\<rparr>"

lemma example_inspected:
  "inspect_request example_compact ''openai'' open_redactor ''deny'' (Some ''structural-v1'') (Some 4096) =
     Inr \<lparr>ci_redaction = \<lparr>rr_value = example_compact, rr_count = 0, rr_rules = []\<rparr>, ci_recognized = 1, ci_expanded = False\<rparr>"
  by code_simp


end
