(* ===== verification/Native_Stream.thy ===== *)
theory Native_Stream
  imports Finance_Attempts Native_Content
begin

text \<open>
  The observer of a native event stream (\<^verbatim>\<open>NativeCodexStream\<close> of \<^verbatim>\<open>src/hormuz/native_codex_stream.py\<close>): it is
  fed the bytes of the answer in chunks, cuts them into lines and events, and grants a terminal state and usage
  evidence only to complete, matching terminal data. A byte is a character; a run of the class that raises
  leaves the state it had reached, so an operation returns the state with \<open>None\<close> when it has raised.
\<close>

section \<open>State\<close>

record nstream =
  ns_model :: string
  ns_usage :: "(int \<times> int) option"
  ns_complete :: bool
  ns_terminal :: "string option"
  ns_output :: "json list"
  ns_response_id :: "string option"
  ns_invalid :: bool
  ns_buffer :: string
  ns_data :: "string list"
  ns_event :: "string option"
  ns_event_bytes :: nat
  ns_at_start :: bool
  ns_skip_lf :: bool

text \<open>\<^verbatim>\<open>Usage\<close> is its two counters once they are known, and the flag \<^verbatim>\<open>evidence_complete\<close>.\<close>

definition new_stream :: "string \<Rightarrow> nstream" where
  "new_stream model = \<lparr>ns_model = model, ns_usage = None, ns_complete = False, ns_terminal = None, ns_output = [],
     ns_response_id = None, ns_invalid = False, ns_buffer = [], ns_data = [], ns_event = None,
     ns_event_bytes = 0, ns_at_start = True, ns_skip_lf = False\<rparr>"

type_synonym run = "nstream \<times> bool"

definition go :: "nstream \<Rightarrow> run" where
  "go s = (s, True)"

definition raise :: "nstream \<Rightarrow> run" where
  "raise s = (s, False)"

definition next_step :: "run \<Rightarrow> (nstream \<Rightarrow> run) \<Rightarrow> run" where
  "next_step x k = (if snd x then k (fst x) else x)"

definition check :: "bool \<Rightarrow> nstream \<Rightarrow> run" where
  "check ok s = (s, ok)"

definition max_event_bytes :: nat where
  "max_event_bytes = 1024 * 1024"

section \<open>One event\<close>

definition bind_response_id :: "json \<Rightarrow> nstream \<Rightarrow> run" where
  "bind_response_id v s = (case v of
      JStr rid \<Rightarrow>
        if \<not> len_between 1 256 rid \<or> \<not> chars_between 33 126 rid \<or>
           (ns_response_id s \<noteq> None \<and> ns_response_id s \<noteq> Some rid)
        then raise s else go (s\<lparr>ns_response_id := Some rid\<rparr>)
    | _ \<Rightarrow> raise s)"

definition output_part_ok :: "json \<Rightarrow> bool" where
  "output_part_ok part = (case part of
      JDict p \<Rightarrow>
        (case dget p ''type'' of
           JStr kind \<Rightarrow>
             if kind = ''output_text'' then is_str (dget p ''text'') \<and> is_ok (validate_annotations (dget p ''annotations''))
             else kind = ''refusal'' \<and> is_str (dget p ''refusal'')
         | _ \<Rightarrow> False)
    | _ \<Rightarrow> False)"

definition stream_output_kinds :: "string list" where
  "stream_output_kinds = [''message'', ''reasoning'', ''function_call'', ''custom_tool_call'', ''compaction'']"

definition output_item_ok :: "json \<Rightarrow> bool" where
  "output_item_ok item = (case item of
      JDict d \<Rightarrow>
        (case dget d ''type'' of
           JStr kind \<Rightarrow>
             kind \<in> set stream_output_kinds \<and>
             (kind \<in> {''message'', ''reasoning'', ''compaction''} \<longrightarrow> is_str (dget d ''id'')) \<and>
             (dget d ''status'' = JNull \<or> str_in (dget d ''status'') [''in_progress'', ''completed'', ''incomplete'']) \<and>
             (kind = ''message'' \<longrightarrow>
                dget d ''role'' = JStr ''assistant'' \<and> dget d ''status'' \<noteq> JNull \<and>
                (case dget d ''content'' of JList parts \<Rightarrow> list_all output_part_ok parts | _ \<Rightarrow> False)) \<and>
             (kind = ''compaction'' \<longrightarrow> is_str (dget d ''encrypted_content''))
         | _ \<Rightarrow> False)
    | _ \<Rightarrow> False)"

definition validate_output :: "json list \<Rightarrow> bool" where
  "validate_output items = (list_all output_item_ok items \<and> is_ok (continuation_tags (JList items)))"

definition terminal_kinds :: "string list" where
  "terminal_kinds = [''response.completed'', ''response.failed'', ''response.incomplete'']"

definition valid_response_id :: "json \<Rightarrow> bool" where
  "valid_response_id v = (case v of JStr rid \<Rightarrow> len_between 1 256 rid \<and> chars_between 33 126 rid | _ \<Rightarrow> False)"

definition usage_of :: "jdict \<Rightarrow> (int \<times> int) option" where
  "usage_of response = (case dget response ''usage'' of
      JDict u \<Rightarrow> (case (dget u ''input_tokens'', dget u ''output_tokens'') of
          (JInt i, JInt j) \<Rightarrow> Some (i, j)
        | _ \<Rightarrow> None)
    | _ \<Rightarrow> None)"

text \<open>The outcome is recorded before the usage is read, so it stands even when reading the usage raises.\<close>

definition stream_terminal :: "(string \<Rightarrow> string) \<Rightarrow> string \<Rightarrow> jdict \<Rightarrow> nstream \<Rightarrow> run" where
  "stream_terminal sha state response s =
     (if dget response ''model'' \<noteq> JStr (ns_model s) \<or> dget response ''status'' \<noteq> JStr state \<or>
         \<not> valid_response_id (dget response ''id'') \<or>
         \<not> is_list (dget_or response ''output'' (JList [])) \<or>
         (state = ''completed'' \<and> \<not> has_key response ''output'')
      then raise s
      else case dget_or response ''output'' (JList []) of
          JList items \<Rightarrow>
            if \<not> validate_output items then raise s
            else let s1 = s\<lparr>ns_terminal := Some state, ns_output := items\<rparr>
                 in (case acc_finish sha (observe_openai_response (JDict response) (new_accumulator OpenAI)) of
                       Inl _ \<Rightarrow> raise s1
                     | Inr ob \<Rightarrow> if no_state ob = JStr ''complete''
                         then go (s1\<lparr>ns_usage := usage_of response, ns_complete := True\<rparr>) else go s1)
        | _ \<Rightarrow> raise s)"

definition observe_kind :: "(string \<Rightarrow> string) \<Rightarrow> string \<Rightarrow> jdict \<Rightarrow> nstream \<Rightarrow> run" where
  "observe_kind sha kind value s =
     (if kind = ''error'' then go (s\<lparr>ns_terminal := Some ''failed''\<rparr>)
      else if kind \<in> set terminal_kinds
      then (case dget value ''response'' of
              JDict response \<Rightarrow> stream_terminal sha (removeprefix ''response.'' kind) response s
            | _ \<Rightarrow> raise s)
      else go s)"

definition observe_response :: "jdict \<Rightarrow> nstream \<Rightarrow> run" where
  "observe_response value s =
     (if has_key value ''response''
      then (case dget value ''response'' of
              JDict response \<Rightarrow> if dget response ''model'' \<noteq> JStr (ns_model s) then raise s
                else bind_response_id (dget response ''id'') s
            | _ \<Rightarrow> raise s)
      else go s)"

definition observe_response_id :: "jdict \<Rightarrow> nstream \<Rightarrow> run" where
  "observe_response_id value s =
     (if has_key value ''response_id'' then bind_response_id (dget value ''response_id'') s else go s)"

definition observe_value :: "(string \<Rightarrow> string) \<Rightarrow> json \<Rightarrow> nstream \<Rightarrow> run" where
  "observe_value sha v s = (case v of
      JDict value \<Rightarrow>
        (case dget value ''type'' of
           JStr kind \<Rightarrow>
             if ns_terminal s \<noteq> None \<or> ns_event s \<notin> {None, Some ''message'', Some kind} then raise s
             else next_step (observe_response value s) (\<lambda>s1.
               next_step (observe_response_id value s1) (observe_kind sha kind value))
         | _ \<Rightarrow> raise s)
    | _ \<Rightarrow> raise s)"

text \<open>\<^verbatim>\<open>bytes.strip\<close>.\<close>

definition byte_space :: "char \<Rightarrow> bool" where
  "byte_space c = (ord_of c = 32 \<or> 9 \<le> ord_of c \<and> ord_of c \<le> 13)"

definition strip_bytes :: "string \<Rightarrow> string" where
  "strip_bytes s = rev (dropWhile byte_space (rev (dropWhile byte_space s)))"

definition dispatch :: "(string \<Rightarrow> string) \<Rightarrow> nstream \<Rightarrow> run" where
  "dispatch sha s =
     (if ns_data s = [] then go s
      else let data = join [CHR 0x0A] (ns_data s)
           in if strip_bytes data = ''[DONE]'' then go s
              else (case utf8_decode data of
                  None \<Rightarrow> raise s
                | Some text \<Rightarrow> (case strict_json_loads text of Inl _ \<Rightarrow> raise s | Inr v \<Rightarrow> observe_value sha v s)))"

section \<open>Lines\<close>

text \<open>The first line end: \<^verbatim>\<open>\r\n\<close>, \<^verbatim>\<open>\r\<close> or \<^verbatim>\<open>\n\<close>; the line, whether its end is a lone \<^verbatim>\<open>\r\<close>, the rest.\<close>

fun cut_end :: "string \<Rightarrow> (string \<times> bool \<times> string) option" where
  "cut_end [] = None"
| "cut_end (c # cs) =
     (if c = CHR 0x0A then Some ([], False, cs)
      else if c = CHR 0x0D then
        (case cs of [] \<Rightarrow> Some ([], True, []) | d # ds \<Rightarrow> if d = CHR 0x0A then Some ([], False, ds) else Some ([], True, cs))
      else map_option (\<lambda>(l, cr, r). (c # l, cr, r)) (cut_end cs))"

definition partition_colon :: "string \<Rightarrow> string \<times> string" where
  "partition_colon line = (takeWhile (\<lambda>c. c \<noteq> CHR '':'') line, drop 1 (dropWhile (\<lambda>c. c \<noteq> CHR '':'') line))"

definition field_line :: "string \<Rightarrow> nstream \<Rightarrow> run" where
  "field_line line s =
     (let (field, raw) = partition_colon line; value = removeprefix '' '' raw
      in if field = ''data'' then
           (let s1 = s\<lparr>ns_event_bytes := ns_event_bytes s + length line\<rparr>
            in if max_event_bytes < ns_event_bytes s1 then raise s1 else go (s1\<lparr>ns_data := ns_data s1 @ [value]\<rparr>))
         else if field = ''event'' then
           (case utf8_decode value of
              None \<Rightarrow> raise s
            | Some name \<Rightarrow> go (s\<lparr>ns_event := (if name = [] then None else Some name)\<rparr>))
         else go s)"

definition take_line :: "(string \<Rightarrow> string) \<Rightarrow> string \<Rightarrow> nstream \<Rightarrow> run" where
  "take_line sha line s =
     (if max_event_bytes < length line then raise s
      else if line = [] then next_step (dispatch sha s) (\<lambda>s1. go (s1\<lparr>ns_data := [], ns_event := None, ns_event_bytes := 0\<rparr>))
      else if starts_with '':'' line then go s
      else field_line line s)"

section \<open>Feeding\<close>

lemma cut_end_shorter: "cut_end b = Some (l, cr, r) \<Longrightarrow> length r < length b"
  by (induction b arbitrary: l) (auto split: if_splits list.splits)

text \<open>The loop over the complete lines of the buffer; \<open>len\<close> is the length of the chunk.\<close>

function take_lines :: "(string \<Rightarrow> string) \<Rightarrow> int \<Rightarrow> string \<Rightarrow> nstream \<Rightarrow> nstream \<times> int option" where
  "take_lines sha len buffer s = (case cut_end buffer of
      None \<Rightarrow> if max_event_bytes < length buffer then (s\<lparr>ns_buffer := buffer, ns_invalid := True\<rparr>, None)
              else (s\<lparr>ns_buffer := buffer\<rparr>, Some len)
    | Some (line, cr, rest) \<Rightarrow>
        (let (s1, ok) = take_line sha line (s\<lparr>ns_buffer := rest, ns_skip_lf := cr \<and> rest = []\<rparr>)
         in if \<not> ok then (s1\<lparr>ns_invalid := True\<rparr>, None)
            else if line = [] \<and> ns_terminal s1 \<noteq> None then (s1\<lparr>ns_buffer := []\<rparr>, Some (len - int (length rest)))
            else take_lines sha len rest s1))"
  by pat_completeness auto
termination
  by (relation "measure (\<lambda>(_, _, buffer, _). length buffer)") (auto dest: cut_end_shorter)

declare take_lines.simps [simp del]

definition bom :: string where
  "bom = [CHR 0xEF, CHR 0xBB, CHR 0xBF]"

definition drop_lf :: "nstream \<Rightarrow> nstream" where
  "drop_lf s = (if ns_skip_lf s \<and> ns_buffer s \<noteq> []
     then s\<lparr>ns_buffer := removeprefix [CHR 0x0A] (ns_buffer s), ns_skip_lf := False\<rparr> else s)"

definition feed_bytes :: "(string \<Rightarrow> string) \<Rightarrow> string \<Rightarrow> nstream \<Rightarrow> nstream \<times> int option" where
  "feed_bytes sha chunk s0 =
     (if ns_terminal s0 \<noteq> None then (s0, Some 0)
      else let s = s0\<lparr>ns_buffer := ns_buffer s0 @ chunk\<rparr>
           in if ns_at_start s \<and> length (ns_buffer s) < length bom \<and> starts_with (ns_buffer s) bom
              then (s, Some (int (length chunk)))
              else let s1 = (if ns_at_start s
                             then s\<lparr>ns_at_start := False, ns_buffer := removeprefix bom (ns_buffer s)\<rparr> else s);
                       s2 = drop_lf s1
                   in take_lines sha (int (length chunk)) (ns_buffer s2) s2)"

definition finish_stream :: "nstream \<Rightarrow> nstream" where
  "finish_stream s =
     (let s1 = (if ns_buffer s \<noteq> [] \<or> ns_data s \<noteq> [] then s\<lparr>ns_invalid := True\<rparr> else s)
      in if ns_invalid s1 then s1\<lparr>ns_complete := False\<rparr> else s1)"

section \<open>What the steps leave alone\<close>

text \<open>
  No step of a line reads or writes the buffer, the flag of a pending line feed, or the flag of the start: each
  commutes with setting them.
\<close>

definition put :: "string \<Rightarrow> bool \<Rightarrow> bool \<Rightarrow> nstream \<Rightarrow> nstream" where
  "put x y z s = s\<lparr>ns_buffer := x, ns_skip_lf := y, ns_at_start := z\<rparr>"

definition framed :: "(nstream \<Rightarrow> run) \<Rightarrow> bool" where
  "framed f = (\<forall>x y z s. f (put x y z s) = apfst (put x y z) (f s))"

lemma framedD: "framed f \<Longrightarrow> f (put x y z s) = apfst (put x y z) (f s)"
  by (simp add: framed_def)

lemma put_fields [simp]:
  "ns_model (put x y z s) = ns_model s" "ns_usage (put x y z s) = ns_usage s" "ns_complete (put x y z s) = ns_complete s"
  "ns_terminal (put x y z s) = ns_terminal s" "ns_output (put x y z s) = ns_output s"
  "ns_response_id (put x y z s) = ns_response_id s" "ns_invalid (put x y z s) = ns_invalid s"
  "ns_data (put x y z s) = ns_data s" "ns_event (put x y z s) = ns_event s"
  "ns_event_bytes (put x y z s) = ns_event_bytes s"
  "ns_buffer (put x y z s) = x" "ns_skip_lf (put x y z s) = y" "ns_at_start (put x y z s) = z"
  by (simp_all add: put_def)

lemma put_updates [simp]:
  "(put x y z s)\<lparr>ns_usage := a\<rparr> = put x y z (s\<lparr>ns_usage := a\<rparr>)"
  "(put x y z s)\<lparr>ns_complete := b\<rparr> = put x y z (s\<lparr>ns_complete := b\<rparr>)"
  "(put x y z s)\<lparr>ns_terminal := c\<rparr> = put x y z (s\<lparr>ns_terminal := c\<rparr>)"
  "(put x y z s)\<lparr>ns_output := d\<rparr> = put x y z (s\<lparr>ns_output := d\<rparr>)"
  "(put x y z s)\<lparr>ns_response_id := e\<rparr> = put x y z (s\<lparr>ns_response_id := e\<rparr>)"
  "(put x y z s)\<lparr>ns_invalid := b\<rparr> = put x y z (s\<lparr>ns_invalid := b\<rparr>)"
  "(put x y z s)\<lparr>ns_data := g\<rparr> = put x y z (s\<lparr>ns_data := g\<rparr>)"
  "(put x y z s)\<lparr>ns_event := e\<rparr> = put x y z (s\<lparr>ns_event := e\<rparr>)"
  "(put x y z s)\<lparr>ns_event_bytes := n\<rparr> = put x y z (s\<lparr>ns_event_bytes := n\<rparr>)"
  "(put x y z s)\<lparr>ns_buffer := x'\<rparr> = put x' y z s" "(put x y z s)\<lparr>ns_skip_lf := y'\<rparr> = put x y' z s"
  "(put x y z s)\<lparr>ns_at_start := z'\<rparr> = put x y z' s"
  "put x y z (put x' y' z' s) = put x y z s"
  by (simp_all add: put_def)

lemma put_own: "put (ns_buffer s) (ns_skip_lf s) (ns_at_start s) s = s"
  by (simp add: put_def)

lemma framed_go [simp]: "framed go" "framed raise"
  by (simp_all add: framed_def go_def raise_def)

lemma framed_next: "framed f \<Longrightarrow> framed g \<Longrightarrow> framed (\<lambda>s. next_step (f s) g)"
  by (simp add: framed_def next_step_def)

lemma framed_bind: "framed (bind_response_id v)"
  by (auto simp: framed_def bind_response_id_def go_def raise_def split: json.split)

lemma framed_response: "framed (observe_response d)"
  by (auto simp: framed_def observe_response_def go_def raise_def framedD [OF framed_bind] split: json.split)

lemma framed_response_id: "framed (observe_response_id d)"
  by (auto simp: framed_def observe_response_id_def go_def raise_def framedD [OF framed_bind])

lemma framed_terminal: "framed (stream_terminal sha state response)"
  by (auto simp: framed_def stream_terminal_def Let_def go_def raise_def split: json.split sum.split)

lemma framed_kind: "framed (observe_kind sha kind d)"
  by (auto simp: framed_def observe_kind_def go_def raise_def framedD [OF framed_terminal] split: json.split)

lemma framed_value: "framed (observe_value sha v)"
proof -
  have "framed (\<lambda>s. next_step (observe_response d s) (\<lambda>s1. next_step (observe_response_id d s1) (observe_kind sha kind d)))"
    for d kind
    by (intro framed_next framed_response framed_response_id framed_kind)
  then show ?thesis
    by (auto simp: framed_def observe_value_def raise_def split: json.split)
qed

lemma framed_dispatch: "framed (dispatch sha)"
  by (auto simp: framed_def dispatch_def Let_def go_def raise_def framedD [OF framed_value] split: option.split sum.split)

lemma framed_field: "framed (field_line line)"
  by (auto simp: framed_def field_line_def Let_def go_def raise_def case_prod_unfold split: option.split)

lemma framed_line: "framed (take_line sha line)"
  by (auto simp: framed_def take_line_def next_step_def go_def raise_def framedD [OF framed_dispatch] framedD [OF framed_field])

text \<open>Only an empty line can end the stream.\<close>

lemma line_terminal: "line \<noteq> [] \<Longrightarrow> ns_terminal (fst (take_line sha line s)) = ns_terminal s"
  by (auto simp: take_line_def field_line_def Let_def go_def raise_def case_prod_unfold split: option.split)

section \<open>Line ends across chunks\<close>

lemma cut_end_append:
  "cut_end a = Some (l, cr, r) \<Longrightarrow> \<not> (cr \<and> r = []) \<Longrightarrow> cut_end (a @ b) = Some (l, cr, r @ b)"
  by (induction a arbitrary: l) (auto split: if_splits list.splits)

lemma cut_end_last:
  "cut_end a = Some (l, True, []) \<Longrightarrow> cut_end (a @ b) =
     (case b of [] \<Rightarrow> Some (l, True, []) | d # ds \<Rightarrow> if d = CHR 0x0A then Some (l, False, ds) else Some (l, True, b))"
  by (induction a arbitrary: l) (auto split: if_splits list.splits)

lemma cut_end_longer: "cut_end a = None \<Longrightarrow> cut_end (a @ b) = Some (l, cr, r) \<Longrightarrow> length a \<le> length l"
  by (induction a arbitrary: l) (auto split: if_splits list.splits)

text \<open>The loop reads its own buffer, and its count only adds up.\<close>

lemma take_lines_unfold:
  "take_lines sha n buffer s = (case cut_end buffer of
      None \<Rightarrow> if max_event_bytes < length buffer then (put buffer (ns_skip_lf s) (ns_at_start s) s\<lparr>ns_invalid := True\<rparr>, None)
              else (put buffer (ns_skip_lf s) (ns_at_start s) s, Some n)
    | Some (line, cr, rest) \<Rightarrow>
        (let (s1, ok) = apfst (put rest (cr \<and> rest = []) (ns_at_start s)) (take_line sha line s)
         in if \<not> ok then (s1\<lparr>ns_invalid := True\<rparr>, None)
            else if line = [] \<and> ns_terminal s1 \<noteq> None then (s1\<lparr>ns_buffer := []\<rparr>, Some (n - int (length rest)))
            else take_lines sha n rest s1))"
proof -
  have set: "s\<lparr>ns_buffer := x, ns_skip_lf := y\<rparr> = put x y (ns_at_start s) s" "s\<lparr>ns_buffer := x\<rparr> = put x (ns_skip_lf s) (ns_at_start s) s" for x y
    by (simp_all add: put_def)
  have "s\<lparr>ns_buffer := buffer, ns_invalid := True\<rparr> = put buffer (ns_skip_lf s) (ns_at_start s) s\<lparr>ns_invalid := True\<rparr>"
    by (simp add: put_def)
  then show ?thesis
    by (subst take_lines.simps) (simp add: set framedD [OF framed_line] split: option.split)
qed

lemma take_lines_buffer: "take_lines sha n b (put x (ns_skip_lf s) (ns_at_start s) s) = take_lines sha n b s"
  by (subst (1 2) take_lines_unfold) (simp add: framedD [OF framed_line] apfst_compose comp_def split: option.split)

lemma take_lines_shift: "take_lines sha (n + k) b s = apsnd (map_option ((+) n)) (take_lines sha k b s)"
proof (induction "length b" arbitrary: b s rule: less_induct)
  case less
  show ?case
  proof (cases "cut_end b")
    case None
    then show ?thesis by (simp add: take_lines_unfold)
  next
    case (Some c)
    obtain l cr r where c: "c = (l, cr, r)" by (metis prod_cases3)
    have "take_lines sha (n + k) r t = apsnd (map_option ((+) n)) (take_lines sha k r t)" for t
      by (rule less) (use Some c cut_end_shorter in auto)
    then show ?thesis using Some c
      by (subst (1 2) take_lines_unfold) (auto simp: case_prod_unfold Let_def)
  qed
qed

text \<open>One turn of the loop.\<close>

lemma take_lines_step:
  "cut_end b = Some (l, cr, r) \<Longrightarrow> take_line sha l s = (u, ok) \<Longrightarrow> take_lines sha n b s =
     (if \<not> ok then (put r (cr \<and> r = []) (ns_at_start s) u\<lparr>ns_invalid := True\<rparr>, None)
      else if l = [] \<and> ns_terminal u \<noteq> None then (put [] (cr \<and> r = []) (ns_at_start s) u, Some (n - int (length r)))
      else take_lines sha n r (put r (cr \<and> r = []) (ns_at_start s) u))"
  by (subst take_lines_unfold) auto

lemma take_lines_end:
  "cut_end b = None \<Longrightarrow> take_lines sha n b s =
     (if max_event_bytes < length b then (put b (ns_skip_lf s) (ns_at_start s) s\<lparr>ns_invalid := True\<rparr>, None)
      else (put b (ns_skip_lf s) (ns_at_start s) s, Some n))"
  by (subst take_lines_unfold) simp

lemma line_put:
  "take_line sha l s = (u, ok) \<Longrightarrow> ns_terminal s = None \<Longrightarrow> l \<noteq> [] \<or> ns_terminal u = None \<Longrightarrow> ns_terminal u = None"
  using line_terminal [of l sha s] by (cases "l = []") auto

text \<open>The result of a first chunk says what the result of both is.\<close>

definition extends :: "(string \<Rightarrow> string) \<Rightarrow> string \<Rightarrow> nstream \<times> int option \<Rightarrow> nstream \<times> int option \<Rightarrow> bool" where
  "extends sha b first both = (case snd first of
      None \<Rightarrow> snd both = None \<and> (\<exists>x y. fst both = put x y (ns_at_start (fst first)) (fst first))
    | Some n \<Rightarrow>
        if ns_terminal (fst first) \<noteq> None
        then snd both \<noteq> None \<and> (\<exists>y. fst both = put [] y (ns_at_start (fst first)) (fst first))
        else let t = drop_lf (fst first\<lparr>ns_buffer := ns_buffer (fst first) @ b\<rparr>)
             in both = apsnd (map_option ((+) n)) (take_lines sha (int (length b)) (ns_buffer t) t))"

lemma take_lines_extends:
  "ns_terminal s = None \<Longrightarrow> \<not> ns_skip_lf s \<Longrightarrow>
     extends sha b (take_lines sha n a s) (take_lines sha (n + int (length b)) (a @ b) s)"
proof (induction "length a" arbitrary: a s rule: less_induct)
  case less
  show ?case
  proof (cases "cut_end a")
    case None
    show ?thesis
    proof (cases "max_event_bytes < length a")
      case False
      then show ?thesis using None less.prems take_lines_buffer [of sha "int (length b)" "a @ b" "a @ b" s]
        by (simp add: take_lines_end extends_def drop_lf_def take_lines_shift)
    next
      case True
      show ?thesis
      proof (cases "cut_end (a @ b)")
        case None' : None
        then show ?thesis using True None less.prems by (auto simp: take_lines_end extends_def)
      next
        case (Some c)
        obtain l cr r where c: "c = (l, cr, r)" by (metis prod_cases3)
        then have "max_event_bytes < length l" using True cut_end_longer [OF None, of b l cr r] Some by simp
        then have "take_line sha l s = (s, False)" by (simp add: take_line_def raise_def)
        then show ?thesis using True None Some c less.prems
          by (auto simp: take_lines_end take_lines_step extends_def)
      qed
    qed
  next
    case (Some c)
    obtain l cr r where c: "c = (l, cr, r)" by (metis prod_cases3)
    obtain u ok where u: "take_line sha l s = (u, ok)" by fastforce
    note first = take_lines_step [OF Some [unfolded c] u]
    show ?thesis
    proof (cases "cr \<and> r = []")
      case False
      note both = take_lines_step [OF cut_end_append [OF Some [unfolded c] False] u]
      have ih: "extends sha b (take_lines sha n r (put r False (ns_at_start s) u))
          (take_lines sha (n + int (length b)) (r @ b) (put r False (ns_at_start s) u))"
        if "ns_terminal u = None"
        by (rule less.hyps) (use that Some c cut_end_shorter in auto)
      have same: "take_lines sha m (r @ b) (put (r @ b) False (ns_at_start s) u) =
          take_lines sha m (r @ b) (put r False (ns_at_start s) u)" for m
        using take_lines_buffer [of sha m "r @ b" "r @ b" "put r False (ns_at_start s) u"]
          take_lines_buffer [of sha m "r @ b" "r @ b" "put (r @ b) False (ns_at_start s) u"] by simp
      show ?thesis
      proof (cases "ok \<and> \<not> (l = [] \<and> ns_terminal u \<noteq> None)")
        case True
        then have "ns_terminal u = None" using line_put [OF u less.prems(1)] by auto
        with ih same True False show ?thesis using first both by (auto simp: conj_commute)
      next
        case F: False
        then show ?thesis using False by (auto simp: first both extends_def)
      qed
    next
      case True
      then have at_end: "cut_end a = Some (l, True, [])" using Some c by simp
      let ?w = "put [] True (ns_at_start s) u"
      have both: "take_lines sha (n + int (length b)) (a @ b) s =
          take_lines sha (n + int (length b)) (ns_buffer t) t"
        if "t = drop_lf (put b True (ns_at_start s) u)" "ok" "\<not> (l = [] \<and> ns_terminal u \<noteq> None)" for t
      proof -
        consider (none) "b = []" | (lf) ds where "b = CHR 0x0A # ds" | (other) d ds where "b = d # ds" "d \<noteq> CHR 0x0A"
          by (cases b) auto
        then show ?thesis
        proof cases
          case none
          then show ?thesis using that take_lines_step [OF at_end u] by (auto simp: drop_lf_def)
        next
          case (lf ds)
          then have "cut_end (a @ b) = Some (l, False, ds)" using cut_end_last [OF at_end, of b] by simp
          from take_lines_step [OF this u] lf show ?thesis
            using that by (auto simp: drop_lf_def removeprefix_def starts_with_def)
        next
          case (other d ds)
          then have "cut_end (a @ b) = Some (l, True, b)" using cut_end_last [OF at_end, of b] by simp
          from take_lines_step [OF this u] other show ?thesis
            using that by (auto simp: drop_lf_def removeprefix_def starts_with_def)
        qed
      qed
      show ?thesis
      proof (cases "ok \<and> \<not> (l = [] \<and> ns_terminal u \<noteq> None)")
        case run: True
        then have "ns_terminal u = None" using line_put [OF u less.prems(1)] by auto
        moreover have "take_lines sha n a s = (?w, Some n)"
          using run by (simp add: take_lines_step [OF at_end u] take_lines_end)
        ultimately show ?thesis using run both [OF refl] by (auto simp: extends_def Let_def take_lines_shift)
      next
        case F: False
        have "\<exists>cr' r'. cut_end (a @ b) = Some (l, cr', r')"
          using cut_end_last [OF at_end, of b] by (cases b) auto
        then obtain cr' r' where "cut_end (a @ b) = Some (l, cr', r')" by blast
        from take_lines_step [OF this u] show ?thesis using F by (auto simp: take_lines_step [OF at_end u] extends_def)
      qed
    qed
  qed
qed

section \<open>Chunks\<close>

fun feed_chunks :: "(string \<Rightarrow> string) \<Rightarrow> string list \<Rightarrow> nstream \<Rightarrow> nstream \<times> bool" where
  "feed_chunks sha [] s = (s, True)"
| "feed_chunks sha (c # cs) s = (case feed_bytes sha c s of
      (t, None) \<Rightarrow> (t, False)
    | (t, Some n) \<Rightarrow> feed_chunks sha cs t)"

text \<open>What the caller reads once the stream has ended.\<close>

definition reported :: "nstream \<times> bool \<Rightarrow>
    (int \<times> int) option \<times> bool \<times> string option \<times> json list \<times> string option \<times> bool \<times> bool" where
  "reported x = (let s = finish_stream (fst x) in
     (ns_usage s, ns_complete s, ns_terminal s, ns_output s, ns_response_id s, ns_invalid s, snd x))"

definition fed :: "nstream \<times> int option \<Rightarrow> nstream \<times> bool" where
  "fed x = (fst x, snd x \<noteq> None)"

text \<open>Two outcomes are the same to the caller: equal, or ended alike, by an error or by a terminal event.\<close>

definition same_outcome :: "nstream \<times> bool \<Rightarrow> nstream \<times> bool \<Rightarrow> bool" where
  "same_outcome x y = (x = y \<or>
     snd x = snd y \<and> (\<exists>b k. fst y = put b k (ns_at_start (fst x)) (fst x) \<and>
       (\<not> snd x \<and> ns_invalid (fst x) \<or> ns_terminal (fst x) \<noteq> None \<and> ns_buffer (fst x) = [] \<and> b = [])))"

lemma same_reported: "same_outcome x y \<Longrightarrow> reported x = reported y"
proof -
  have fin: "reported (put b k z s, r) = reported (s, r)" if "ns_invalid s \<or> ns_buffer s = [] \<and> b = []" for b k z s r
    using that by (auto simp: reported_def finish_stream_def Let_def)
  show "same_outcome x y \<Longrightarrow> reported x = reported y"
    using fin by (cases x; cases y) (auto simp: same_outcome_def)
qed

lemma take_lines_error: "take_lines sha n b s = (t, None) \<Longrightarrow> ns_invalid t"
proof (induction "length b" arbitrary: b s rule: less_induct)
  case less
  show ?case
  proof (cases "cut_end b")
    case None
    then show ?thesis using less.prems by (auto simp: take_lines_end split: if_splits)
  next
    case (Some c)
    obtain l cr r where c: "c = (l, cr, r)" by (metis prod_cases3)
    obtain u ok where u: "take_line sha l s = (u, ok)" by fastforce
    show ?thesis using less.prems take_lines_step [OF Some [unfolded c] u, of n] less.hyps [of r] cut_end_shorter [OF Some [unfolded c]]
      by (auto split: if_splits)
  qed
qed

lemma take_lines_terminal:
  "take_lines sha n b s = (t, Some m) \<Longrightarrow> ns_terminal s = None \<Longrightarrow> ns_terminal t \<noteq> None \<Longrightarrow> ns_buffer t = []"
proof (induction "length b" arbitrary: b s rule: less_induct)
  case less
  show ?case
  proof (cases "cut_end b")
    case None
    then show ?thesis using less.prems by (auto simp: take_lines_end split: if_splits)
  next
    case (Some c)
    obtain l cr r where c: "c = (l, cr, r)" by (metis prod_cases3)
    obtain u ok where u: "take_line sha l s = (u, ok)" by fastforce
    show ?thesis
    proof (cases "ns_terminal u = None")
      case True
      then show ?thesis using less.prems take_lines_step [OF Some [unfolded c] u, of n] less.hyps [of r]
          cut_end_shorter [OF Some [unfolded c]] by (auto split: if_splits)
    next
      case False
      then show ?thesis using less.prems take_lines_step [OF Some [unfolded c] u, of n] line_put [OF u less.prems(2)]
        by (auto split: if_splits)
    qed
  qed
qed

definition waiting :: "nstream \<Rightarrow> bool" where
  "waiting s = (ns_at_start s \<and> length (ns_buffer s) < length bom \<and> starts_with (ns_buffer s) bom)"

definition after_start :: "nstream \<Rightarrow> nstream" where
  "after_start s = drop_lf (if ns_at_start s then s\<lparr>ns_at_start := False, ns_buffer := removeprefix bom (ns_buffer s)\<rparr> else s)"

lemma feed_open:
  "ns_terminal s = None \<Longrightarrow> feed_bytes sha c s =
     (let t = s\<lparr>ns_buffer := ns_buffer s @ c\<rparr> in if waiting t then (t, Some (int (length c)))
      else take_lines sha (int (length c)) (ns_buffer (after_start t)) (after_start t))"
  by (simp add: feed_bytes_def waiting_def after_start_def Let_def)

lemma feed_closed: "ns_terminal s \<noteq> None \<Longrightarrow> feed_bytes sha c s = (s, Some 0)"
  by (auto simp: feed_bytes_def)

lemma fed_count: "fed (take_lines sha n b s) = fed (take_lines sha m b s)"
  using take_lines_shift [of sha "n - m" m b s] by (cases "take_lines sha m b s") (auto simp: fed_def)

lemma take_lines_at_start: "ns_at_start (fst (take_lines sha n b s)) = ns_at_start s"
proof (induction "length b" arbitrary: b s rule: less_induct)
  case less
  show ?case
  proof (cases "cut_end b")
    case None
    then show ?thesis by (simp add: take_lines_end)
  next
    case (Some c)
    obtain l cr r where c: "c = (l, cr, r)" by (metis prod_cases3)
    obtain u ok where u: "take_line sha l s = (u, ok)" by fastforce
    show ?thesis using take_lines_step [OF Some [unfolded c] u, of n] less.hyps [of r] cut_end_shorter [OF Some [unfolded c]]
      by auto
  qed
qed

lemma starts_with_append:
  assumes "\<not> (length x < length p \<and> starts_with x p)"
  shows "starts_with p (x @ y) = starts_with p x" "starts_with p x \<Longrightarrow> length p \<le> length x"
    "\<not> (length (x @ y) < length p \<and> starts_with (x @ y) p)" "removeprefix p (x @ y) = removeprefix p x @ y"
proof -
  show long: "length p \<le> length x" if "starts_with p x" for x
    using arg_cong [OF that [unfolded starts_with_def], of length] by simp
  show same: "starts_with p (x @ y) = starts_with p x"
  proof (cases "length p \<le> length x")
    case True
    then show ?thesis by (simp add: starts_with_def)
  next
    case False
    have "take (length x) p = x" if "x @ take (length p - length x) y = p"
      using arg_cong [OF that, of "take (length x)"] by simp
    then show ?thesis using assms False long by (auto simp: starts_with_def)
  qed
  show "\<not> (length (x @ y) < length p \<and> starts_with (x @ y) p)"
  proof
    assume "length (x @ y) < length p \<and> starts_with (x @ y) p"
    then have whole: "take (length x + length y) p = x @ y" and short: "length x < length p"
      by (auto simp: starts_with_def)
    have "take (length x) p = x" using arg_cong [OF whole, of "take (length x)"] by simp
    then show False using assms short by (simp add: starts_with_def)
  qed
  show "removeprefix p (x @ y) = removeprefix p x @ y"
    using same long by (auto simp: removeprefix_def)
qed

lemma extends_outcome:
  assumes ext: "extends sha b (t, r) both" and inv: "r = None \<Longrightarrow> ns_invalid t"
    and closed: "r \<noteq> None \<Longrightarrow> ns_terminal t \<noteq> None \<Longrightarrow> ns_buffer t = []" and start: "\<not> ns_at_start t"
  shows "case r of None \<Rightarrow> same_outcome (t, False) (fed both) | Some n \<Rightarrow> same_outcome (fed (feed_bytes sha b t)) (fed both)"
proof (cases r)
  case None
  then show ?thesis using ext inv by (auto simp: extends_def same_outcome_def fed_def)
next
  case (Some n)
  show ?thesis
  proof (cases "ns_terminal t = None")
    case False
    then show ?thesis using ext closed Some by (auto simp: extends_def same_outcome_def fed_def feed_closed)
  next
    case True
    define w where "w = drop_lf (t\<lparr>ns_buffer := ns_buffer t @ b\<rparr>)"
    have "both = apsnd (map_option ((+) n)) (take_lines sha (int (length b)) (ns_buffer w) w)"
      using ext True Some by (simp add: extends_def w_def Let_def)
    then have "fed both = fed (take_lines sha (int (length b)) (ns_buffer w) w)" by (simp add: fed_def)
    moreover have "feed_bytes sha b t = take_lines sha (int (length b)) (ns_buffer w) w"
      using True start by (simp add: feed_open waiting_def after_start_def w_def Let_def)
    ultimately show ?thesis using Some by (simp add: same_outcome_def)
  qed
qed

lemma set_put:
  "t\<lparr>ns_at_start := False, ns_buffer := x\<rparr> = put x (ns_skip_lf t) False t"
  "t\<lparr>ns_buffer := x\<rparr> = put x (ns_skip_lf t) (ns_at_start t) t"
  by (simp_all add: put_def)

lemma stream_feed_append:
  "case snd (feed_bytes sha a s) of
     None \<Rightarrow> same_outcome (fst (feed_bytes sha a s), False) (fed (feed_bytes sha (a @ b) s))
   | Some n \<Rightarrow> same_outcome (fed (feed_bytes sha b (fst (feed_bytes sha a s)))) (fed (feed_bytes sha (a @ b) s))"
proof (cases "ns_terminal s = None")
  case False
  then show ?thesis by (simp add: feed_closed same_outcome_def)
next
  case open_: True
  define t where "t = s\<lparr>ns_buffer := ns_buffer s @ a\<rparr>"
  define tb where "tb = s\<lparr>ns_buffer := ns_buffer s @ a @ b\<rparr>"
  have tb: "tb = t\<lparr>ns_buffer := ns_buffer t @ b\<rparr>" by (simp add: t_def tb_def)
  have t0: "ns_terminal t = None" using open_ by (simp add: t_def)
  show ?thesis
  proof (cases "waiting t")
    case True
    then have a: "feed_bytes sha a s = (t, Some (int (length a)))"
      using open_ by (simp add: feed_open t_def [symmetric] Let_def)
    have "fed (feed_bytes sha b t) = fed (feed_bytes sha (a @ b) s)"
      using fed_count [of sha "int (length b)" "ns_buffer (after_start tb)" "after_start tb" "int (length a) + int (length b)"]
      by (auto simp: feed_open open_ t0 tb_def [symmetric] tb [symmetric] Let_def fed_def)
    then show ?thesis by (simp add: a same_outcome_def)
  next
    case False
    have nw: "\<not> waiting tb"
      using False starts_with_append(3) [of "ns_buffer t" bom b] by (auto simp: waiting_def tb)
    let ?s1 = "\<lambda>x. put x (ns_skip_lf t) False t"
    define x where "x = (if ns_at_start t then removeprefix bom (ns_buffer t) else ns_buffer t)"
    have starts: "after_start t = drop_lf (?s1 x)" "after_start tb = drop_lf (?s1 (x @ b))"
    proof -
      have cut: "removeprefix bom (ns_buffer t @ b) = removeprefix bom (ns_buffer t) @ b" if "ns_at_start t"
        by (rule starts_with_append(4)) (use that False in \<open>simp add: waiting_def\<close>)
      have "?s1 x = t" if "\<not> ns_at_start t" using that by (simp add: put_def x_def)
      moreover have "after_start t = drop_lf t" if "\<not> ns_at_start t" using that by (simp add: after_start_def)
      moreover have "after_start t = drop_lf (?s1 x)" if "ns_at_start t" using that by (simp add: after_start_def x_def set_put(1))
      ultimately show "after_start t = drop_lf (?s1 x)" by metis
      show "after_start tb = drop_lf (?s1 (x @ b))"
        unfolding after_start_def tb set_put(2) using cut by (cases "ns_at_start t") (simp_all add: x_def)
    qed
    have both: "feed_bytes sha (a @ b) s = take_lines sha (int (length a) + int (length b)) (ns_buffer (after_start tb)) (after_start tb)"
      using nw open_ by (simp add: feed_open tb_def [symmetric] Let_def)
    have first: "feed_bytes sha a s = take_lines sha (int (length a)) (ns_buffer (after_start t)) (after_start t)"
      using False open_ by (simp add: feed_open t_def [symmetric] Let_def)
    show ?thesis
    proof (cases "ns_skip_lf t \<and> x = []")
      case True
      have a: "feed_bytes sha a s = (?s1 [], Some (int (length a)))"
        using True by (simp add: first starts drop_lf_def take_lines_end)
      have "feed_bytes sha b (?s1 []) = take_lines sha (int (length b)) (ns_buffer (after_start tb)) (after_start tb)"
        using True t0 by (simp add: feed_open waiting_def starts Let_def) (simp add: after_start_def)
      then have "fed (feed_bytes sha b (?s1 [])) = fed (feed_bytes sha (a @ b) s)"
        using both fed_count by metis
      then show ?thesis by (simp add: a same_outcome_def)
    next
      case nskip: False
      define v where "v = after_start t"
      have v: "\<not> ns_skip_lf v" "\<not> ns_at_start v" "ns_terminal v = None"
        using nskip t0 by (auto simp: v_def starts drop_lf_def)
      have vb: "after_start tb = put (ns_buffer v @ b) (ns_skip_lf v) (ns_at_start v) v"
        using nskip by (cases x) (auto simp: v_def starts drop_lf_def removeprefix_def starts_with_def)
      have second: "feed_bytes sha (a @ b) s = take_lines sha (int (length a) + int (length b)) (ns_buffer v @ b) v"
        using both vb take_lines_buffer [of sha _ "ns_buffer v @ b" "ns_buffer v @ b" v] by simp
      obtain t' r where run: "take_lines sha (int (length a)) (ns_buffer v) v = (t', r)" by fastforce
      have "\<not> ns_at_start t'" using take_lines_at_start [of sha "int (length a)" "ns_buffer v" v] run v(2) by simp
      then have "case r of None \<Rightarrow> same_outcome (t', False) (fed (feed_bytes sha (a @ b) s))
          | Some n \<Rightarrow> same_outcome (fed (feed_bytes sha b t')) (fed (feed_bytes sha (a @ b) s))"
        using extends_outcome [of sha b t' r] take_lines_extends [OF v(3,1), of sha b "int (length a)" "ns_buffer v"] second run
          take_lines_error [of sha _ "ns_buffer v" v t'] take_lines_terminal [of sha _ "ns_buffer v" v t'] v(3)
        by (cases r) auto
      then show ?thesis using first run by (cases r) (simp_all add: v_def [symmetric])
    qed
  qed
qed

text \<open>Feeding once more keeps two outcomes the same.\<close>

definition feed_more :: "(string \<Rightarrow> string) \<Rightarrow> string \<Rightarrow> nstream \<times> bool \<Rightarrow> nstream \<times> bool" where
  "feed_more sha c x = (if snd x then fed (feed_bytes sha c (fst x)) else x)"

lemma feed_more_ended: "\<not> snd x \<or> ns_terminal (fst x) \<noteq> None \<Longrightarrow> feed_more sha c x = x"
  by (cases x) (auto simp: feed_more_def feed_closed fed_def)

lemma feed_more_same:
  assumes "same_outcome x y"
  shows "same_outcome (feed_more sha c x) (feed_more sha c y)"
proof (cases "x = y")
  case True
  then show ?thesis by (simp add: same_outcome_def)
next
  case False
  then have "\<not> snd x \<or> ns_terminal (fst x) \<noteq> None" "\<not> snd y \<or> ns_terminal (fst y) \<noteq> None"
    using assms by (auto simp: same_outcome_def)
  then show ?thesis using assms by (simp only: feed_more_ended)
qed

lemma same_trans:
  assumes xy: "same_outcome x y" and yz: "same_outcome y z"
  shows "same_outcome x z"
proof (cases "x = y \<or> y = z")
  case True
  then show ?thesis using assms by auto
next
  case False
  obtain b k where y: "snd x = snd y" "fst y = put b k (ns_at_start (fst x)) (fst x)"
    "\<not> snd x \<and> ns_invalid (fst x) \<or> ns_terminal (fst x) \<noteq> None \<and> ns_buffer (fst x) = [] \<and> b = []"
    using xy False by (auto simp: same_outcome_def)
  obtain d l where z: "snd y = snd z" "fst z = put d l (ns_at_start (fst y)) (fst y)"
    "\<not> snd y \<and> ns_invalid (fst y) \<or> ns_terminal (fst y) \<noteq> None \<and> ns_buffer (fst y) = [] \<and> d = []"
    using yz False by (auto simp: same_outcome_def)
  have "fst z = put d l (ns_at_start (fst x)) (fst x)" using y(2) z(2) by simp
  moreover have "\<not> snd x \<and> ns_invalid (fst x) \<or> ns_terminal (fst x) \<noteq> None \<and> ns_buffer (fst x) = [] \<and> d = []"
    using y z(3) by auto
  ultimately show ?thesis using y(1) z(1) unfolding same_outcome_def by blast
qed

lemma feed_chunks_snoc: "feed_chunks sha (cs @ [c]) s = feed_more sha c (feed_chunks sha cs s)"
  by (induction sha cs s rule: feed_chunks.induct)
    (auto simp: feed_more_def fed_def split: prod.split option.split)

lemma feed_append_fed: "same_outcome (feed_more sha b (fed (feed_bytes sha a s))) (fed (feed_bytes sha (a @ b) s))"
  using stream_feed_append [of sha a s b] by (cases "snd (feed_bytes sha a s)") (auto simp: feed_more_def fed_def)

lemma feed_chunks_same: "same_outcome (feed_chunks sha cs (new_stream m)) (fed (feed_bytes sha (concat cs) (new_stream m)))"
proof (induction cs rule: rev_induct)
  case Nil
  have "feed_bytes sha [] (new_stream m) = (new_stream m, Some 0)"
    by (simp add: feed_bytes_def new_stream_def bom_def starts_with_def)
  then show ?case by (simp add: same_outcome_def fed_def)
next
  case (snoc c cs)
  then have "same_outcome (feed_chunks sha (cs @ [c]) (new_stream m))
      (feed_more sha c (fed (feed_bytes sha (concat cs) (new_stream m))))"
    by (simp only: feed_chunks_snoc feed_more_same)
  then show ?case using feed_append_fed [of sha c "concat cs" "new_stream m"] same_trans by (simp add: fed_def)
qed

text \<open>
  C14: How the network cuts the answer into chunks does not matter: feeding the chunks one after the other, up to
  the first error, reports the same usage, terminal state, output, response id and validity as feeding their
  concatenation at once, also when a cut falls inside the byte order mark, between \<^verbatim>\<open>\r\<close> and \<^verbatim>\<open>\n\<close>, or
  behind the terminal event.
\<close>
theorem stream_chunking_is_irrelevant:
  "reported (feed_chunks sha cs (new_stream model)) = reported (fed (feed_bytes sha (concat cs) (new_stream model)))"
  by (rule same_reported [OF feed_chunks_same])

section \<open>What success rests on\<close>

definition backed :: "nstream \<Rightarrow> bool" where
  "backed s = (validate_output (ns_output s) \<and>
     (\<exists>rid. ns_response_id s = Some rid \<and> valid_response_id (JStr rid)))"

definition stream_inv :: "nstream \<Rightarrow> bool" where
  "stream_inv s = ((\<forall>rid. ns_response_id s = Some rid \<longrightarrow> valid_response_id (JStr rid)) \<and>
     (ns_complete s \<longrightarrow> ns_terminal s \<noteq> None) \<and>
     (ns_complete s \<or> ns_terminal s \<in> {Some ''completed'', Some ''incomplete''} \<longrightarrow> backed s))"

lemma bind_inv: "stream_inv s \<Longrightarrow> ns_terminal s = None \<Longrightarrow>
    stream_inv (fst (bind_response_id v s)) \<and> ns_terminal (fst (bind_response_id v s)) = None \<and>
    (snd (bind_response_id v s) \<longrightarrow> ns_response_id (fst (bind_response_id v s)) \<noteq> None)"
  by (auto simp: bind_response_id_def stream_inv_def backed_def valid_response_id_def go_def raise_def split: json.split)

lemma response_inv: "stream_inv s \<Longrightarrow> ns_terminal s = None \<Longrightarrow>
    stream_inv (fst (observe_response d s)) \<and> ns_terminal (fst (observe_response d s)) = None \<and>
    (snd (observe_response d s) \<and> has_key d ''response'' \<longrightarrow> ns_response_id (fst (observe_response d s)) \<noteq> None)"
  using bind_inv by (auto simp: observe_response_def go_def raise_def split: json.split)

lemma response_id_inv: "stream_inv s \<Longrightarrow> ns_terminal s = None \<Longrightarrow>
    stream_inv (fst (observe_response_id d s)) \<and> ns_terminal (fst (observe_response_id d s)) = None \<and>
    (snd (observe_response_id d s) \<and> ns_response_id s \<noteq> None \<longrightarrow> ns_response_id (fst (observe_response_id d s)) \<noteq> None)"
  using bind_inv by (auto simp: observe_response_id_def go_def raise_def)

lemma terminal_inv:
  assumes "stream_inv s" "ns_terminal s = None" "ns_response_id s \<noteq> None"
  shows "stream_inv (fst (stream_terminal sha state response s))"
  using assms by (auto simp: stream_terminal_def stream_inv_def backed_def Let_def go_def raise_def split: json.split sum.split)

lemma kind_inv:
  assumes "stream_inv s" "ns_terminal s = None" "has_key d ''response'' \<longrightarrow> ns_response_id s \<noteq> None"
  shows "stream_inv (fst (observe_kind sha kind d s))"
proof -
  have "has_key d ''response''" if "dget d ''response'' = JDict r" for r
    using that by (auto simp: dget_def has_key_def split: option.splits)
  then show ?thesis
    using assms terminal_inv [OF assms(1,2)]
    by (auto simp: observe_kind_def go_def raise_def stream_inv_def backed_def split: json.split)
qed

lemma value_inv:
  assumes "stream_inv s"
  shows "stream_inv (fst (observe_value sha v s))"
proof -
  have "stream_inv (fst (next_step (observe_response d s) (\<lambda>s1.
      next_step (observe_response_id d s1) (observe_kind sha kind d))))" if t: "ns_terminal s = None" for d kind
  proof (cases "snd (observe_response d s)")
    case False
    then show ?thesis using response_inv [OF assms t] by (simp add: next_step_def)
  next
    case True
    let ?s1 = "fst (observe_response d s)"
    have s1: "stream_inv ?s1" "ns_terminal ?s1 = None" "has_key d ''response'' \<longrightarrow> ns_response_id ?s1 \<noteq> None"
      using response_inv [OF assms t, of d] True by auto
    have s2: "stream_inv (fst (observe_response_id d ?s1))" "ns_terminal (fst (observe_response_id d ?s1)) = None"
      using response_id_inv [OF s1(1,2)] by auto
    show ?thesis
    proof (cases "snd (observe_response_id d ?s1)")
      case False
      then show ?thesis using True s2 by (simp add: next_step_def)
    next
      case ok: True
      then have "has_key d ''response'' \<longrightarrow> ns_response_id (fst (observe_response_id d ?s1)) \<noteq> None"
        using response_id_inv [OF s1(1,2), of d] s1(3) by blast
      then show ?thesis using True ok kind_inv [OF s2] by (simp add: next_step_def)
    qed
  qed
  then show ?thesis using assms
    by (auto simp: observe_value_def raise_def split: json.split)
qed

lemma line_inv: "stream_inv s \<Longrightarrow> stream_inv (fst (take_line sha line s))"
proof -
  assume inv: "stream_inv s"
  have "stream_inv (fst (dispatch sha s))"
    using inv value_inv by (auto simp: dispatch_def Let_def go_def raise_def split: option.split sum.split)
  moreover have "stream_inv (fst (field_line line s))"
    using inv by (auto simp: field_line_def Let_def go_def raise_def case_prod_unfold stream_inv_def backed_def split: option.split)
  moreover have "stream_inv (t\<lparr>ns_data := a, ns_event := b, ns_event_bytes := n\<rparr>) = stream_inv t" for t a b n
    by (simp add: stream_inv_def backed_def)
  ultimately show ?thesis using inv by (auto simp: take_line_def next_step_def go_def raise_def)
qed

lemma put_inv [simp]: "stream_inv (put x y z s) = stream_inv s" "stream_inv (s\<lparr>ns_invalid := i\<rparr>) = stream_inv s"
  by (simp_all add: stream_inv_def backed_def)

lemma take_lines_inv: "stream_inv s \<Longrightarrow> stream_inv (fst (take_lines sha n b s))"
proof (induction "length b" arbitrary: b s rule: less_induct)
  case less
  show ?case
  proof (cases "cut_end b")
    case None
    then show ?thesis using less.prems by (simp add: take_lines_end)
  next
    case (Some c)
    obtain l cr r where c: "c = (l, cr, r)" by (metis prod_cases3)
    obtain u ok where u: "take_line sha l s = (u, ok)" by fastforce
    have "stream_inv u" using line_inv [OF less.prems, of sha l] u by simp
    then show ?thesis using take_lines_step [OF Some [unfolded c] u, of n] less.hyps [of r] cut_end_shorter [OF Some [unfolded c]]
      by auto
  qed
qed

lemma feed_inv: "stream_inv s \<Longrightarrow> stream_inv (fst (feed_bytes sha c s))"
proof -
  assume inv: "stream_inv s"
  have buf: "stream_inv (t\<lparr>ns_buffer := x\<rparr>) = stream_inv t" "stream_inv (t\<lparr>ns_at_start := z\<rparr>) = stream_inv t"
    "stream_inv (t\<lparr>ns_skip_lf := y\<rparr>) = stream_inv t" for t x y z
    by (simp_all add: stream_inv_def backed_def)
  then have "stream_inv (drop_lf t) = stream_inv t" for t
    by (simp add: drop_lf_def)
  then have "stream_inv (after_start t) = stream_inv t" for t
    using buf by (simp add: after_start_def)
  then show ?thesis using inv buf take_lines_inv
    by (cases "ns_terminal s = None") (auto simp: feed_open feed_closed Let_def)
qed

lemma feed_chunks_inv: "stream_inv s \<Longrightarrow> stream_inv (fst (feed_chunks sha cs s))"
proof (induction sha cs s rule: feed_chunks.induct)
  case (2 sha c cs s)
  obtain t r where t: "feed_bytes sha c s = (t, r)" by fastforce
  then have "stream_inv t" using feed_inv [OF "2.prems", of sha c] by simp
  then show ?case using "2.IH" t by (cases r) auto
qed simp

text \<open>
  C15: Success is never taken on trust: whenever a stream, however it was cut and wherever it stopped, has come to
  the state completed or incomplete or grants complete usage evidence, its terminal event was seen, the response
  has been bound to a valid identifier, and its output items have passed the checks of native content.
\<close>
theorem stream_success_is_backed:
  assumes "feed_chunks sha cs (new_stream model) = (s, ok)"
    and "ns_complete s \<or> ns_terminal s \<in> {Some ''completed'', Some ''incomplete''}"
  shows "ns_terminal s \<noteq> None \<and> validate_output (ns_output s) \<and>
    (\<exists>rid. ns_response_id s = Some rid \<and> valid_response_id (JStr rid))"
proof -
  have "stream_inv (new_stream model)" by (simp add: stream_inv_def new_stream_def)
  from feed_chunks_inv [OF this, of sha cs] assms(1) have "stream_inv s" by simp
  then show ?thesis using assms(2) by (auto simp: stream_inv_def backed_def)
qed

definition example_event_text :: string where
  "example_event_text = ''data: '' @ canonical_json (JDict
     [(''type'', JStr ''response.completed''),
      (''response'', JDict [(''id'', JStr ''r1''), (''model'', JStr ''m''), (''status'', JStr ''completed''),
         (''output'', JList [])])]) @ [CHR 0x0D, CHR 0x0A, CHR 0x0D, CHR 0x0A]"

definition example_stream :: "nstream \<times> bool" where
  "example_stream = feed_chunks (\<lambda>_. replicate 64 (CHR ''0'')) [take 20 example_event_text, drop 20 example_event_text] (new_stream ''m'')"

lemma example_stream_ends: "ns_terminal (fst example_stream) = Some ''completed''"
  by code_simp

theorem stream_success_is_backed_witness:
  "ns_terminal (fst example_stream) = Some ''completed'' \<and> validate_output (ns_output (fst example_stream))"
  using stream_success_is_backed [of "\<lambda>_. replicate 64 (CHR ''0'')" "[take 20 example_event_text, drop 20 example_event_text]"
      "''m''" "fst example_stream" "snd example_stream"] example_stream_ends
  by (simp add: example_stream_def)

end
