(* ===== verification/Json_Fuel.thy ===== *)
theory Json_Fuel
  imports Json_Text
begin

text \<open>
  The reader of JSON text terminates: its recursion is bounded by fuel, and here the fuel that \<open>loads\<close> gives it is
  shown to be enough, whatever the text.
\<close>

section \<open>Every step consumes text\<close>

lemma skip_ws_length: "length (skip_ws s) \<le> length s"
  by (simp add: skip_ws_def length_dropWhile_le)

lemma skip_ws_Cons: "skip_ws s = d # ds \<Longrightarrow> length ds < length s"
  using skip_ws_length [of s] by simp

lemma push_char_Some: "push_char d x = Some (t, rest) \<Longrightarrow> \<exists>u. x = Some (u, rest)"
  by (auto simp: push_char_def)

lemma parse_chars_consumes: "parse_chars s = Some (t, rest) \<Longrightarrow> length rest < length s"
proof (induction "length s" arbitrary: s t rule: less_induct)
  case less
  have IH: "length rest < length u" if "length u < length s" "push_char d (parse_chars u) = Some (t, rest)" for u d
    using push_char_Some [OF that(2)] less.hyps [OF that(1)] by blast
  obtain c cs where s: "s = c # cs" using less.prems by (cases s) auto
  show ?case
  proof (cases "c = CHR 0x22")
    case True
    then show ?thesis using less.prems s by simp
  next
    case nq: False
    show ?thesis
    proof (cases "c = CHR 0x5C")
      case False
      then have "push_char c (parse_chars cs) = Some (t, rest)"
        using less.prems nq s by (cases "ord_of c < 32") simp_all
      from IH [OF _ this] show ?thesis using s by simp
    next
      case True
      obtain e cs' where cs: "cs = e # cs'" using less.prems True nq s by (cases cs) auto
      show ?thesis
      proof (cases "simple_escape e")
        case (Some d)
        then have "push_char d (parse_chars cs') = Some (t, rest)" using less.prems True nq s cs by simp
        from IH [OF _ this] show ?thesis using s cs by simp
      next
        case None
        then have "(case cs' of h # i # j # k # r \<Rightarrow>
            (case hex4 h i j k of Some d \<Rightarrow> push_char d (parse_chars r) | None \<Rightarrow> None) | _ \<Rightarrow> None) = Some (t, rest)"
          using less.prems True nq s cs by (simp split: if_splits)
        then obtain h i j k r d where r: "cs' = h # i # j # k # r" and d: "push_char d (parse_chars r) = Some (t, rest)"
          by (auto simp del: parse_chars.simps split: list.splits option.splits)
        from IH [OF _ d] show ?thesis using s cs r by simp
      qed
    qed
  qed
qed

lemma digit_run_length: "length (snd (digit_run s)) \<le> length s"
  by (simp add: digit_run_def length_dropWhile_le)

lemma fraction_length: "length (snd (number_fraction s)) \<le> length s"
proof (cases s)
  case (Cons c cs)
  then show ?thesis using digit_run_length [of cs] by (simp add: number_fraction_def)
qed (simp add: number_fraction_def)

lemma exponent_length: "number_exponent s = Some (x, rest) \<Longrightarrow> length rest \<le> length s"
proof -
  assume run: "number_exponent s = Some (x, rest)"
  obtain c cs where s: "s = c # cs" using run by (cases s) (auto simp: number_exponent_def)
  define body where "body = (case cs of d # ds \<Rightarrow> if d = CHR ''-'' \<or> d = CHR ''+'' then ds else cs | [] \<Rightarrow> cs)"
  have "rest = snd (digit_run body)"
    using run by (auto simp: number_exponent_def s Let_def body_def [symmetric] case_prod_unfold split: if_splits)
  moreover have "length body \<le> length cs" by (cases cs) (auto simp: body_def)
  ultimately show ?thesis using digit_run_length [of body] s by simp
qed

lemma parse_number_consumes: "parse_number s = Some (v, rest) \<Longrightarrow> length rest < length s"
proof -
  assume run: "parse_number s = Some (v, rest)"
  define t where "t = (if (case s of c # _ \<Rightarrow> c = CHR ''-'' | [] \<Rightarrow> False) then tl s else s)"
  have t: "length t \<le> length s" by (simp add: t_def)
  obtain c cs where cs: "t = c # cs" using run unfolding parse_number_def Let_def t_def [symmetric] by (cases t) simp_all
  then have dc: "is_digit c" using run unfolding parse_number_def Let_def t_def [symmetric] by (cases "is_digit c") simp_all
  define u where "u = snd (if c = CHR ''0'' then ([c], cs) else digit_run (c # cs))"
  have u: "length u < length t"
    using length_dropWhile_le [of is_digit cs] cs dc by (auto simp: u_def digit_run_def less_Suc_eq_le)
  define ip where "ip = fst (if c = CHR ''0'' then ([c], cs) else digit_run (c # cs))"
  have ip: "(if c = CHR ''0'' then ([c], cs) else digit_run (c # cs)) = (ip, u)"
    by (simp only: ip_def u_def prod.collapse)
  obtain fp w where fw: "number_fraction u = (fp, w)" by fastforce
  have rests: "map_option snd (parse_number s) =
      (if fp = [] \<and> number_exponent w = None then if 4300 < length ip then None else Some u
       else Some (case number_exponent w of Some (_, r) \<Rightarrow> r | None \<Rightarrow> w))"
    unfolding parse_number_def Let_def t_def [symmetric] cs using dc ip fw by simp
  have "rest = u \<or> rest = w \<or> (\<exists>x. number_exponent w = Some (x, rest))"
  proof (cases "number_exponent w")
    case None
    then show ?thesis using rests run by (simp split: if_splits)
  next
    case (Some y)
    then show ?thesis using rests run by (cases y) simp
  qed
  then show ?thesis using t u fraction_length [of u] fw exponent_length by fastforce
qed

lemma strip_prefix_consumes: "strip_prefix (p # ps) s = Some rest \<Longrightarrow> length rest < length s"
  by (cases s) (auto simp: strip_prefix_def split: if_splits)


lemma parse_consumes:
  "parse_value n s = Some (v, rest) \<Longrightarrow> length rest < length s"
  "parse_items n s = Some (xs, rest) \<Longrightarrow> length rest < length s"
  "parse_members n s = Some (d, rest) \<Longrightarrow> length rest < length s"
proof (induction n arbitrary: s v xs d rest)
  case (Suc n)
  {
    case 1
    obtain c cs where s: "s = c # cs" using 1 by (cases s) auto
    consider (str) t where "parse_chars cs = Some (t, rest)" | (none) d ds where "skip_ws cs = d # ds" "rest = ds"
      | (items) d ds xs where "skip_ws cs = d # ds" "parse_items n (d # ds) = Some (xs, rest)"
      | (members) d ds m where "skip_ws cs = d # ds" "parse_members n (d # ds) = Some (m, rest)"
      | (word) p ps where "strip_prefix (p # ps) s = Some rest" | (number) w where "parse_number s = Some (w, rest)"
      using 1 unfolding s
      by (auto simp: unique_object_def split: list.splits if_splits option.splits)
    then show ?case
    proof cases
      case str
      then show ?thesis using parse_chars_consumes s by fastforce
    next
      case none
      then show ?thesis using skip_ws_Cons s by fastforce
    next
      case items
      then show ?thesis using Suc.IH(2) [OF items(2)] skip_ws_Cons [OF items(1)] s by simp
    next
      case members
      then show ?thesis using Suc.IH(3) [OF members(2)] skip_ws_Cons [OF members(1)] s by simp
    next
      case word
      then show ?thesis by (rule strip_prefix_consumes)
    next
      case number
      then show ?thesis by (rule parse_number_consumes)
    qed
  next
    case 2
    then obtain w r d ds where w: "parse_value n s = Some (w, r)" and d: "skip_ws r = d # ds"
      and rest: "rest = ds \<or> (\<exists>ys. parse_items n (skip_ws ds) = Some (ys, rest))"
      by (auto split: option.splits list.splits if_splits)
    show ?case using Suc.IH(1) [OF w] skip_ws_Cons [OF d] rest Suc.IH(2) [of "skip_ws ds" _ rest] skip_ws_length [of ds]
      by fastforce
  next
    case 3
    then obtain q cs k r e es w r' f fs where s: "s = q # cs" and k: "parse_chars cs = Some (k, r)"
      and e: "skip_ws r = e # es" and w: "parse_value n (skip_ws es) = Some (w, r')" and f: "skip_ws r' = f # fs"
      and rest: "rest = fs \<or> (\<exists>ys. parse_members n (skip_ws fs) = Some (ys, rest))"
      by (auto split: option.splits list.splits if_splits)
    have "length r' < length s"
      using Suc.IH(1) [OF w] skip_ws_length [of es] skip_ws_Cons [OF e] parse_chars_consumes [OF k] s by simp
    then show ?case using skip_ws_Cons [OF f] rest Suc.IH(3) [of "skip_ws fs" _ rest] skip_ws_length [of fs]
      by fastforce
  }
qed simp_all

section \<open>Enough fuel\<close>

definition fuel_at :: "string \<Rightarrow> bool" where
  "fuel_at s = (\<forall>n m. (2 * length s + 1 \<le> n \<and> 2 * length s + 1 \<le> m \<longrightarrow> parse_value n s = parse_value m s) \<and>
     (2 * length s + 2 \<le> n \<and> 2 * length s + 2 \<le> m \<longrightarrow>
        parse_items n s = parse_items m s \<and> parse_members n s = parse_members m s))"

lemma fuel_atD:
  "fuel_at s \<Longrightarrow> 2 * length s + 1 \<le> n \<Longrightarrow> 2 * length s + 1 \<le> m \<Longrightarrow> parse_value n s = parse_value m s"
  "fuel_at s \<Longrightarrow> 2 * length s + 2 \<le> n \<Longrightarrow> 2 * length s + 2 \<le> m \<Longrightarrow> parse_items n s = parse_items m s"
  "fuel_at s \<Longrightarrow> 2 * length s + 2 \<le> n \<Longrightarrow> 2 * length s + 2 \<le> m \<Longrightarrow> parse_members n s = parse_members m s"
  unfolding fuel_at_def by blast+

lemma value_fuel:
  assumes IH: "\<And>t. length t < length s \<Longrightarrow> fuel_at t" and n: "2 * length s \<le> n" and m: "2 * length s \<le> m"
  shows "parse_value (Suc n) s = parse_value (Suc m) s"
proof (cases s)
  case (Cons c cs)
  have "parse_items n (d # ds) = parse_items m (d # ds)" "parse_members n (d # ds) = parse_members m (d # ds)"
    if "skip_ws cs = d # ds" for d ds
  proof -
    have "length (d # ds) \<le> length cs" using skip_ws_length [of cs] that by simp
    then have small: "length (d # ds) < length s" and bn: "2 * length (d # ds) + 2 \<le> n"
      and bm: "2 * length (d # ds) + 2 \<le> m"
      using Cons n m by simp_all
    show "parse_items n (d # ds) = parse_items m (d # ds)" by (rule fuel_atD(2) [OF IH [OF small] bn bm])
    show "parse_members n (d # ds) = parse_members m (d # ds)" by (rule fuel_atD(3) [OF IH [OF small] bn bm])
  qed
  then show ?thesis by (cases "skip_ws cs") (simp_all add: Cons)
qed simp

lemma items_fuel:
  assumes IH: "\<And>t. length t < length s \<Longrightarrow> fuel_at t" and n: "2 * length s + 1 \<le> n" and m: "2 * length s + 1 \<le> m"
    and v: "parse_value n s = parse_value m s"
  shows "parse_items (Suc n) s = parse_items (Suc m) s"
proof (cases "parse_value m s")
  case None
  then show ?thesis by (simp add: v)
next
  case (Some vr)
  obtain w r where w: "vr = (w, r)" by fastforce
  have "parse_items n (skip_ws ds) = parse_items m (skip_ws ds)" if "skip_ws r = d # ds" for d ds
  proof -
    have small: "length (skip_ws ds) < length s"
      using parse_consumes(1) [OF Some [unfolded w]] skip_ws_Cons [OF that] skip_ws_length [of ds] by simp
    then show ?thesis using n m fuel_atD(2) [OF IH [OF small], of n m] by simp
  qed
  then show ?thesis by (cases "skip_ws r") (simp_all add: v Some w)
qed

lemma members_fuel:
  assumes IH: "\<And>t. length t < length s \<Longrightarrow> fuel_at t" and n: "2 * length s + 1 \<le> n" and m: "2 * length s + 1 \<le> m"
  shows "parse_members (Suc n) s = parse_members (Suc m) s"
proof (cases s)
  case (Cons q cs)
  show ?thesis
  proof (cases "parse_chars cs")
    case (Some kr)
    obtain k r where k: "kr = (k, r)" by fastforce
    have small: "length r < length s" using parse_chars_consumes [OF Some [unfolded k]] Cons by simp
    show ?thesis
    proof (cases "skip_ws r")
      case (Cons d ds)
      have ds: "length (skip_ws ds) < length s" using skip_ws_Cons [OF Cons] skip_ws_length [of ds] small by simp
      have v: "parse_value n (skip_ws ds) = parse_value m (skip_ws ds)"
        using ds n m fuel_atD(1) [OF IH [OF ds], of n m] by simp
      have "parse_members n (skip_ws es) = parse_members m (skip_ws es)"
        if "parse_value m (skip_ws ds) = Some (w, r')" "skip_ws r' = e # es" for w r' e es
      proof -
        have es: "length (skip_ws es) < length s"
          using ds parse_consumes(1) [OF that(1)] skip_ws_Cons [OF that(2)] skip_ws_length [of es] by simp
        then show ?thesis using n m fuel_atD(3) [OF IH [OF es], of n m] by simp
      qed
      then show ?thesis
        by (cases "parse_value m (skip_ws ds)") (auto simp: \<open>s = q # cs\<close> Some k Cons v split: list.split)
    qed (simp add: Cons Some k)
  qed (simp add: Cons)
qed simp

lemma fuel_everywhere: "fuel_at s"
proof (induction "length s" arbitrary: s rule: less_induct)
  case less
  have same: "parse_value n s = parse_value m s" if "2 * length s + 1 \<le> n" "2 * length s + 1 \<le> m" for n m
    using value_fuel [of s "n - 1" "m - 1"] less that by (cases n; cases m) auto
  show ?case
    unfolding fuel_at_def
  proof (intro allI conjI impI)
    fix n m assume b: "2 * length s + 2 \<le> n \<and> 2 * length s + 2 \<le> m"
    then obtain n' m' where nm: "n = Suc n'" "m = Suc m'" by (cases n; cases m) auto
    show "parse_items n s = parse_items m s" unfolding nm by (rule items_fuel) (use less b nm same in auto)
    show "parse_members n s = parse_members m s" unfolding nm by (rule members_fuel) (use less b nm in auto)
  qed (use same in auto)
qed


end
