(* ===== verification/Spec2Isabelle.thy ===== *)
theory Spec2Isabelle
  imports Request_Shape Native_State Usage_Parser Audit_Store Attempt_Book Attempt_Budget Budget_Ceiling Compaction Native_Stream Json_Fuel
begin

text \<open>Root of the development.\<close>

end
